(* ===== verification/Prelude.thy ===== *)
theory Prelude
  imports Main "HOL-Library.Word" "HOL-Library.Signed_Division"
begin

text \<open>
  Shared vocabulary of the development: the C integer types as machine words, the
  negative errno values that BPF helpers return, fixed-size character buffers, and
  the list and word lemmas that the component theories use. A generic run of a
  handler over a list of events and its invariant rule live here as a locale.
\<close>

unbundle bit_operations_syntax

section \<open>Machine integers\<close>

text \<open>
  The integer typedefs of \<open>vmlinux.h\<close>, \<open>common.h\<close> and the program headers. A signed C
  type is the word of the same width; where the code compares or shifts it as a signed
  number the model reads it with \<open>sint\<close>.
\<close>

type_synonym u8 = "8 word"
type_synonym u16 = "16 word"
type_synonym u32 = "32 word"
type_synonym u64 = "64 word"
type_synonym s32 = "32 word"
type_synonym s64 = "64 word"
type_synonym bytes = "8 word list"

text \<open>Definitions the simplifier opens to compute a program on a concrete input.\<close>

named_theorems eval_defs \<open>definitions opened when a program is run on a concrete input\<close>

text \<open>Rules about the contents of BPF maps.\<close>

named_theorems map_laws \<open>lookup, update and delete laws of BPF maps\<close>

text \<open>Rules about the size and position of the fields of a C struct.\<close>

named_theorems layout_simps \<open>struct layout computations\<close>

section \<open>Error numbers\<close>

definition ENOENT :: int where "ENOENT = 2"
definition ESRCH :: int where "ESRCH = 3"
definition E2BIG :: int where "E2BIG = 7"
definition EEXIST :: int where "EEXIST = 17"
definition EINVAL :: int where "EINVAL = 22"

lemmas errno_defs = ENOENT_def ESRCH_def E2BIG_def EEXIST_def EINVAL_def

section \<open>Words\<close>

text \<open>The constant \<open>-1\<close> compared with an unsigned 32-bit field: the usual conversions
  turn it into the largest value.\<close>

abbreviation minus1 :: u32 where "minus1 \<equiv> - 1"

lemma minus1_max: "minus1 = 0xFFFFFFFF"
  by simp

lemma unat_inc:
  fixes x :: "'a::len word"
  assumes "unat x < n" and "n < 2 ^ LENGTH('a)"
  shows "unat (x + 1) = Suc (unat x)"
  using assms by (simp add: unat_word_ariths)

lemma unat_dec:
  fixes x :: "'a::len word"
  assumes "0 < unat x"
  shows "unat (x - 1) = unat x - 1"
proof -
  from assms have "x \<noteq> 0" by auto
  then show ?thesis by (simp add: unat_minus_one)
qed

lemma unat_shr_div: "unat (drop_bit n x) = unat x div 2 ^ n"
  for x :: "'a::len word"
  by (metis drop_bit_eq_div unat_drop_bit_eq)

lemma unat_ucast_widen:
  fixes w :: "'a::len word"
  assumes "LENGTH('a) \<le> LENGTH('b::len)"
  shows "unat (ucast w :: 'b word) = unat w"
proof -
  have "unat w < 2 ^ LENGTH('b)"
    using unsigned_less [of w] assms by (meson le_trans not_le one_le_numeral power_increasing)
  then show ?thesis by (simp add: unsigned_ucast_eq take_bit_nat_eq_self)
qed

lemma unat_ucast_narrow:
  "unat (ucast w :: 'b::len word) = unat w mod 2 ^ LENGTH('b)" for w :: "'a::len word"
  by (simp add: unsigned_ucast_eq take_bit_eq_mod)

lemma sint_small: fixes w :: u32 assumes "w < 2 ^ 31" shows "sint w = int (unat w)"
proof -
  have "uint w < 2 ^ 31" using assms by (simp add: word_less_def)
  moreover have "- 2147483648 \<le> uint w" by (rule order_trans [OF _ uint_ge_0]) simp
  ultimately have "sint w = uint w" unfolding sint_uint by (intro signed_take_bit_int_eq_self) auto
  then show ?thesis by (simp only: uint_nat)
qed

lemma scast_small: fixes w :: u32 assumes "w < 2 ^ 31" shows "scast w = (ucast w :: u64)"
  using sint_small [OF assms] by (simp add: scast_eq flip: uint_nat)

lemma ucast_up_down: fixes w :: u32 shows "ucast (ucast w :: u64) = w"
  by (rule bit_word_eqI) (simp add: bit_simps)

lemma ucast_u32_u64_inj: "(ucast (a :: u32) :: u64) = ucast b \<longleftrightarrow> a = b"
  by (metis ucast_up_down)

lemma ucast_down_up: fixes w :: u64 assumes "w < 2 ^ 31" shows "ucast (ucast w :: u32) = w"
  and "unat (ucast w :: u32) = unat w"
proof -
  have "unat w < 2 ^ 31" using assms by (simp add: word_less_nat_alt)
  then show u: "unat (ucast w :: u32) = unat w" by (simp add: unat_ucast_narrow)
  then show "ucast (ucast w :: u32) = w" by (simp add: word_unat_eq_iff unat_ucast_widen)
qed

text \<open>C division of signed operands, which truncates towards zero.\<close>

definition c_sdiv :: "'a::len word \<Rightarrow> 'a word \<Rightarrow> 'a word" where
  "c_sdiv a b = word_of_int (sint a sdiv sint b)"

lemma sint_nonneg_uint:
  fixes w :: "'a::len word"
  assumes "0 \<le> sint w"
  shows "sint w = uint w"
proof -
  have "sint w < 2 ^ (LENGTH('a) - 1)" by (rule sint_lt)
  also have "\<dots> \<le> 2 ^ LENGTH('a)" by simp
  finally show ?thesis
    using assms by (simp add: uint_sint take_bit_int_eq_self)
qed

lemma c_sdiv_nonneg:
  fixes a b :: "'a::len word"
  assumes "0 \<le> sint a" and "0 \<le> sint b"
  shows "c_sdiv a b = a div b"
proof -
  have "sint a sdiv sint b = sint a div sint b"
    using assms by (auto simp: signed_divide_int_def sgn_if)
  then show ?thesis
    using assms by (simp add: c_sdiv_def sint_nonneg_uint word_div_def)
qed

section \<open>Fixed-size buffers\<close>

text \<open>
  A C array of \<open>n\<close> bytes filled from a byte source: the first \<open>n\<close> bytes, padded with
  zeros.
\<close>

definition fill_buf :: "nat \<Rightarrow> bytes \<Rightarrow> bytes" where
  "fill_buf n src = take n (src @ replicate n 0)"

text \<open>
  A NUL-terminated copy into a buffer of \<open>n\<close> bytes, as \<open>bpf_get_current_comm\<close> is
  documented: at most \<open>n - 1\<close> bytes of the name, then zeros.
\<close>

definition cstr_buf :: "nat \<Rightarrow> bytes \<Rightarrow> bytes" where
  "cstr_buf n src = fill_buf n (take (n - 1) (takeWhile (\<lambda>b. b \<noteq> 0) src))"

lemmas [eval_defs] = errno_defs fill_buf_def cstr_buf_def c_sdiv_def

lemma length_fill_buf [simp]: "length (fill_buf n src) = n"
  by (simp add: fill_buf_def)

lemma length_cstr_buf [simp]: "length (cstr_buf n src) = n"
  by (simp add: cstr_buf_def)

lemma fill_buf_exact [simp]: "length src = n \<Longrightarrow> fill_buf n src = src"
  by (simp add: fill_buf_def)

lemma cstr_buf_terminated: "0 < n \<Longrightarrow> last (cstr_buf n src) = 0"
proof -
  assume n: "0 < n"
  let ?s = "take (n - 1) (takeWhile (\<lambda>b. b \<noteq> 0) src)"
  have len: "length ?s \<le> n - 1" by simp
  have "last (cstr_buf n src) = cstr_buf n src ! (n - 1)"
    using n by (metis last_conv_nth length_cstr_buf length_greater_0_conv)
  also have "\<dots> = 0"
    using n len by (auto simp: cstr_buf_def fill_buf_def nth_append)
  finally show ?thesis .
qed

section \<open>Integers in memory\<close>

text \<open>The bytes of a word from the least significant one, and the word of such bytes.\<close>

definition le_bytes :: "nat \<Rightarrow> 'a::len word \<Rightarrow> bytes" where
  "le_bytes n w = map (\<lambda>i. ucast (drop_bit (8 * i) w)) [0..<n]"

primrec of_le_bytes :: "bytes \<Rightarrow> 'a::len word" where
  "of_le_bytes [] = 0"
| "of_le_bytes (b # bs) = ucast b OR push_bit 8 (of_le_bytes bs)"

datatype byte_order = Little | Big

text \<open>The memory image of an integer of \<open>n\<close> bytes, and the load of one.\<close>

definition store_bytes :: "byte_order \<Rightarrow> nat \<Rightarrow> 'a::len word \<Rightarrow> bytes" where
  "store_bytes order n w = (case order of Little \<Rightarrow> le_bytes n w | Big \<Rightarrow> rev (le_bytes n w))"

definition load_bytes :: "byte_order \<Rightarrow> bytes \<Rightarrow> 'a::len word" where
  "load_bytes order bs = (case order of Little \<Rightarrow> of_le_bytes bs | Big \<Rightarrow> of_le_bytes (rev bs))"

lemma length_le_bytes [simp]: "length (le_bytes n w) = n"
  by (simp add: le_bytes_def)

lemma nth_le_bytes [simp]: "i < n \<Longrightarrow> le_bytes n w ! i = ucast (drop_bit (8 * i) w)"
  by (simp add: le_bytes_def)

lemma bit_of_le_bytes:
  "bit (of_le_bytes bs :: 'a::len word) i \<longleftrightarrow>
     i < LENGTH('a) \<and> i div 8 < length bs \<and> bit (bs ! (i div 8)) (i mod 8)"
proof (induction bs arbitrary: i)
  case Nil
  then show ?case by simp
next
  case (Cons b bs)
  show ?case
  proof (cases "i < 8")
    case True
    then show ?thesis by (auto simp: bit_simps)
  next
    case False
    then have "i div 8 = Suc ((i - 8) div 8)" "i mod 8 = (i - 8) mod 8"
      by (simp_all add: le_div_geq le_mod_geq)
    moreover have "\<not> bit b i" using False by (auto dest: bit_imp_le_length)
    ultimately show ?thesis using False Cons.IH [of "i - 8"] by (auto simp: bit_simps)
  qed
qed

lemma of_le_bytes_le_bytes:
  assumes "LENGTH('a) \<le> 8 * n"
  shows "of_le_bytes (le_bytes n w) = (w :: 'a::len word)"
proof (rule bit_word_eqI)
  fix i assume i: "i < LENGTH('a)"
  then have d: "i div 8 < n" using assms by (simp add: div_less_iff_less_mult mult.commute)
  have "8 * (i div 8) + i mod 8 = i" by simp
  then show "bit (of_le_bytes (le_bytes n w) :: 'a word) i = bit w i"
    using i d by (simp add: bit_of_le_bytes bit_simps)
qed

lemma load_store:
  "LENGTH('a) \<le> 8 * n \<Longrightarrow> load_bytes order (store_bytes order n w) = (w :: 'a::len word)"
  by (cases order) (simp_all add: load_bytes_def store_bytes_def of_le_bytes_le_bytes)

lemma le_bytes_of_le_bytes:
  assumes "8 * length bs \<le> LENGTH('a)"
  shows "le_bytes (length bs) (of_le_bytes bs :: 'a::len word) = bs"
proof (rule nth_equalityI)
  fix i assume "i < length (le_bytes (length bs) (of_le_bytes bs :: 'a word))"
  then have i: "i < length bs" by simp
  show "le_bytes (length bs) (of_le_bytes bs :: 'a word) ! i = bs ! i"
    using i assms by (intro bit_word_eqI) (auto simp: bit_simps bit_of_le_bytes)
qed simp

lemma store_load:
  assumes "8 * length bs \<le> LENGTH('a)"
  shows "store_bytes order (length bs) (load_bytes order bs :: 'a::len word) = bs"
  using le_bytes_of_le_bytes [OF assms] le_bytes_of_le_bytes [of "rev bs", where 'a = 'a] assms
  by (cases order) (simp_all add: load_bytes_def store_bytes_def)

section \<open>Runs of a handler\<close>

text \<open>
  A BPF program is run by the kernel once per traced event; a run of the program is a
  fold of its handler over the events. An invariant of the handler is an invariant of
  every run.
\<close>

definition run :: "('ev \<Rightarrow> 's \<Rightarrow> 's) \<Rightarrow> 'ev list \<Rightarrow> 's \<Rightarrow> 's" where
  "run step es s = fold step es s"

lemma run_Nil [simp]: "run step [] s = s"
  by (simp add: run_def)

lemma run_Cons [simp]: "run step (e # es) s = run step es (step e s)"
  by (simp add: run_def)

lemma run_append: "run step (es @ fs) s = run step fs (run step es s)"
  by (simp add: run_def)

locale handler_invariant =
  fixes step :: "'ev \<Rightarrow> 's \<Rightarrow> 's"
    and invar :: "'s \<Rightarrow> bool"
  assumes step_inv: "invar s \<Longrightarrow> invar (step e s)"
begin

lemma run_inv: "invar s \<Longrightarrow> invar (run step es s)"
  by (induction es arbitrary: s) (auto intro: step_inv)

lemma run_prefix_inv: "invar s \<Longrightarrow> invar (run step (take n es) s)"
  by (rule run_inv)

end

text \<open>
  An invariant that may count the events seen so far, up to a bound below which no
  machine counter wraps.
\<close>

locale counted_invariant =
  fixes step :: "'ev \<Rightarrow> 's \<Rightarrow> 's"
    and invar :: "nat \<Rightarrow> 's \<Rightarrow> bool"
    and bound :: nat
  assumes step_inv: "invar n s \<Longrightarrow> n < bound \<Longrightarrow> invar (Suc n) (step e s)"
begin

lemma run_inv: "invar n s \<Longrightarrow> n + length es \<le> bound \<Longrightarrow> invar (n + length es) (run step es s)"
proof (induction es arbitrary: n s)
  case Nil
  then show ?case by simp
next
  case (Cons e es)
  from Cons.prems have "invar (Suc n) (step e s)" by (intro step_inv) auto
  from Cons.IH [OF this] Cons.prems show ?case by simp
qed

end

end
