(* ===== verification/Bpf_Map.thy ===== *)
theory Bpf_Map
  imports Prelude "HOL-Library.AList"
begin

text \<open>
  BPF maps as the programs use them: hash maps with a capacity, array maps whose slots
  always exist, the update flags, and a store through the pointer that a lookup returns.
  The operations follow the helper documentation of \<open>bpf_helper_defs.h\<close>; the errors are
  the documented negative errno values. Two locales state what a program may rely on:
  the key-value contract of a map, and the accounting contract of a program that looks an
  element up, updates it in place, and inserts it when it is missing.
\<close>

section \<open>Update flags\<close>

definition BPF_ANY :: u64 where "BPF_ANY = 0"
definition BPF_NOEXIST :: u64 where "BPF_NOEXIST = 1"
definition BPF_EXIST :: u64 where "BPF_EXIST = 2"

lemmas flag_defs = BPF_ANY_def BPF_NOEXIST_def BPF_EXIST_def

lemma any_le_noexist [simp]: "BPF_ANY \<le> BPF_NOEXIST"
  by (simp add: flag_defs)

section \<open>Hash maps\<close>

text \<open>\<open>BPF_MAP_TYPE_HASH\<close>: the live elements and the capacity \<open>max_entries\<close>.\<close>

record ('k, 'v) bpf_hash =
  max_entries :: nat
  entries :: "('k \<times> 'v) list"

definition hash_empty :: "nat \<Rightarrow> ('k, 'v) bpf_hash" where
  "hash_empty n = \<lparr>max_entries = n, entries = []\<rparr>"

definition bpf_map_lookup_elem :: "('k, 'v) bpf_hash \<Rightarrow> 'k \<Rightarrow> 'v option" where
  "bpf_map_lookup_elem m k = map_of (entries m) k"

definition bpf_map_update_elem ::
    "('k, 'v) bpf_hash \<Rightarrow> 'k \<Rightarrow> 'v \<Rightarrow> u64 \<Rightarrow> int \<times> ('k, 'v) bpf_hash" where
  "bpf_map_update_elem m k v flags =
     (if flags > BPF_EXIST then (- EINVAL, m)
      else case bpf_map_lookup_elem m k of
        Some _ \<Rightarrow>
          if flags = BPF_NOEXIST then (- EEXIST, m)
          else (0, m\<lparr>entries := AList.update k v (entries m)\<rparr>)
      | None \<Rightarrow>
          if flags = BPF_EXIST then (- ENOENT, m)
          else if max_entries m \<le> length (entries m) then (- E2BIG, m)
          else (0, m\<lparr>entries := AList.update k v (entries m)\<rparr>))"

definition bpf_map_delete_elem ::
    "('k, 'v) bpf_hash \<Rightarrow> 'k \<Rightarrow> int \<times> ('k, 'v) bpf_hash" where
  "bpf_map_delete_elem m k =
     (case bpf_map_lookup_elem m k of
        None \<Rightarrow> (- ENOENT, m)
      | Some _ \<Rightarrow> (0, m\<lparr>entries := AList.delete k (entries m)\<rparr>))"

text \<open>A store through the pointer that \<open>bpf_map_lookup_elem\<close> returned for \<open>k\<close>.\<close>

definition elem_write :: "('k, 'v) bpf_hash \<Rightarrow> 'k \<Rightarrow> ('v \<Rightarrow> 'v) \<Rightarrow> ('k, 'v) bpf_hash" where
  "elem_write m k f = m\<lparr>entries := AList.map_entry k f (entries m)\<rparr>"

definition hash_wf :: "('k, 'v) bpf_hash \<Rightarrow> bool" where
  "hash_wf m \<longleftrightarrow> distinct (map fst (entries m)) \<and> length (entries m) \<le> max_entries m"

definition hash_free :: "('k, 'v) bpf_hash \<Rightarrow> nat" where
  "hash_free m = max_entries m - length (entries m)"

section \<open>Array maps\<close>

text \<open>\<open>BPF_MAP_TYPE_ARRAY\<close>: all elements exist from creation on, zero-initialised.\<close>

type_synonym 'v bpf_array = "'v list"

definition array_lookup_elem :: "'v bpf_array \<Rightarrow> u32 \<Rightarrow> 'v option" where
  "array_lookup_elem a i = (if unat i < length a then Some (a ! unat i) else None)"

definition array_update_elem :: "'v bpf_array \<Rightarrow> u32 \<Rightarrow> 'v \<Rightarrow> u64 \<Rightarrow> int \<times> 'v bpf_array" where
  "array_update_elem a i v flags =
     (if flags > BPF_EXIST then (- EINVAL, a)
      else if length a \<le> unat i then (- E2BIG, a)
      else if flags = BPF_NOEXIST then (- EEXIST, a)
      else (0, a[unat i := v]))"

definition array_elem_write :: "'v bpf_array \<Rightarrow> u32 \<Rightarrow> ('v \<Rightarrow> 'v) \<Rightarrow> 'v bpf_array" where
  "array_elem_write a i f = (if unat i < length a then a[unat i := f (a ! unat i)] else a)"

text \<open>\<open>BPF_MAP_TYPE_PERCPU_ARRAY\<close>: one array per processor; a program sees its own.\<close>

type_synonym 'v percpu_array = "u32 \<Rightarrow> 'v bpf_array"

definition percpu_lookup_elem :: "'v percpu_array \<Rightarrow> u32 \<Rightarrow> u32 \<Rightarrow> 'v option" where
  "percpu_lookup_elem m cpu i = array_lookup_elem (m cpu) i"

definition percpu_elem_write :: "'v percpu_array \<Rightarrow> u32 \<Rightarrow> u32 \<Rightarrow> ('v \<Rightarrow> 'v) \<Rightarrow> 'v percpu_array" where
  "percpu_elem_write m cpu i f = m(cpu := array_elem_write (m cpu) i f)"

lemmas [eval_defs] = percpu_lookup_elem_def percpu_elem_write_def flag_defs hash_empty_def bpf_map_lookup_elem_def bpf_map_update_elem_def
  bpf_map_delete_elem_def elem_write_def hash_free_def array_lookup_elem_def array_update_elem_def
  array_elem_write_def

section \<open>The key-value contract of a map\<close>

locale kv_store =
  fixes lookup :: "'m \<Rightarrow> 'k \<Rightarrow> 'v option"
    and update :: "'m \<Rightarrow> 'k \<Rightarrow> 'v \<Rightarrow> u64 \<Rightarrow> int \<times> 'm"
    and store :: "'m \<Rightarrow> 'k \<Rightarrow> ('v \<Rightarrow> 'v) \<Rightarrow> 'm"
  assumes update_ok: "fst (update m k v fl) = 0 \<Longrightarrow> lookup (snd (update m k v fl)) = (lookup m)(k := Some v)"
    and update_err: "fst (update m k v fl) \<noteq> 0 \<Longrightarrow> snd (update m k v fl) = m"
    and update_hit: "lookup m k = Some w \<Longrightarrow> fst (update m k v BPF_ANY) = 0"
    and update_noexist: "lookup m k = Some w \<Longrightarrow> fst (update m k v BPF_NOEXIST) = - EEXIST"
    and lookup_store: "lookup (store m k f) = (lookup m)(k := map_option f (lookup m k))"
begin

lemma lookup_update_cases:
  "lookup (snd (update m k v fl)) = (if fst (update m k v fl) = 0 then (lookup m)(k := Some v) else lookup m)"
  using update_ok update_err by auto

lemma lookup_update_other: "k' \<noteq> k \<Longrightarrow> lookup (snd (update m k v fl)) k' = lookup m k'"
  by (simp add: lookup_update_cases)

lemma lookup_store_other: "k' \<noteq> k \<Longrightarrow> lookup (store m k f) k' = lookup m k'"
  by (simp add: lookup_store)

lemma lookup_store_same: "lookup (store m k f) k = map_option f (lookup m k)"
  by (simp add: lookup_store)

lemma dom_store: "dom (lookup (store m k f)) = dom (lookup m)"
  by (auto simp: lookup_store split: if_splits)

lemma dom_update_mono: "dom (lookup m) \<subseteq> dom (lookup (snd (update m k v fl)))"
  by (auto simp: lookup_update_cases)

end

locale kv_store_del = kv_store lookup update store
  for lookup :: "'m \<Rightarrow> 'k \<Rightarrow> 'v option"
    and update :: "'m \<Rightarrow> 'k \<Rightarrow> 'v \<Rightarrow> u64 \<Rightarrow> int \<times> 'm"
    and store :: "'m \<Rightarrow> 'k \<Rightarrow> ('v \<Rightarrow> 'v) \<Rightarrow> 'm" +
  fixes delete :: "'m \<Rightarrow> 'k \<Rightarrow> int \<times> 'm"
    and wf :: "'m \<Rightarrow> bool"
    and free :: "'m \<Rightarrow> nat"
  assumes lookup_delete: "wf m \<Longrightarrow> lookup (snd (delete m k)) = (lookup m)(k := None)"
    and wf_update: "wf m \<Longrightarrow> wf (snd (update m k v fl))"
    and wf_store: "wf m \<Longrightarrow> wf (store m k f)"
    and wf_delete: "wf m \<Longrightarrow> wf (snd (delete m k))"
    and update_room: "0 < free m \<Longrightarrow> fl \<le> BPF_NOEXIST \<Longrightarrow> lookup m k = None \<Longrightarrow> fst (update m k v fl) = 0"
    and update_full: "free m = 0 \<Longrightarrow> lookup m k = None \<Longrightarrow> fst (update m k v fl) \<noteq> 0"
    and free_insert: "lookup m k = None \<Longrightarrow> free (snd (update m k v fl)) = free m - 1 \<or> fst (update m k v fl) \<noteq> 0"
    and free_replace: "lookup m k = Some w \<Longrightarrow> free (snd (update m k v fl)) = free m"
    and free_store: "free (store m k f) = free m"
begin

lemma insert_delete: "wf m \<Longrightarrow> lookup m k = None \<Longrightarrow>
    lookup (snd (delete (snd (update m k v fl)) k)) = lookup m"
proof -
  assume "wf m" and none: "lookup m k = None"
  then have "wf (snd (update m k v fl))" by (simp add: wf_update)
  then show ?thesis
    using none by (auto simp: lookup_delete lookup_update_cases)
qed

lemma lookup_delete_same: "wf m \<Longrightarrow> lookup (snd (delete m k)) k = None"
  by (simp add: lookup_delete)

lemma full_insert_dropped: "free m = 0 \<Longrightarrow> lookup m k = None \<Longrightarrow> snd (update m k v fl) = m"
  using update_full update_err by blast

end

section \<open>The maps keep the contract\<close>

lemma hash_update_AList:
  "map_of (AList.update k v al) = (map_of al)(k := Some v)"
  by (simp add: update_conv')

lemma length_AList_update:
  "length (AList.update k v al) = (if k \<in> fst ` set al then length al else Suc (length al))"
  by (induction al) auto

lemma length_map_entry: "length (AList.map_entry k f al) = length al"
  by (induction al) auto

lemma keys_map_entry: "map fst (AList.map_entry k f al) = map fst al"
  by (induction al) auto

lemma length_AList_delete: "length (AList.delete k al) \<le> length al"
  by (simp add: AList.delete_eq)

lemma lookup_None_keys: "bpf_map_lookup_elem m k = None \<longleftrightarrow> k \<notin> fst ` set (entries m)"
  by (simp add: bpf_map_lookup_elem_def map_of_eq_None_iff)

lemma lookup_Some_keys: "bpf_map_lookup_elem m k = Some v \<Longrightarrow> k \<in> fst ` set (entries m)"
  by (force simp: bpf_map_lookup_elem_def dest: map_of_SomeD)

lemmas hash_defs = bpf_map_update_elem_def bpf_map_delete_elem_def elem_write_def hash_wf_def
  hash_free_def flag_defs errno_defs

interpretation hash: kv_store bpf_map_lookup_elem bpf_map_update_elem elem_write
proof (unfold_locales, goal_cases)
  case (1 m k v fl)
  then show ?case
    by (auto simp: hash_defs bpf_map_lookup_elem_def hash_update_AList split: option.splits if_splits)
next
  case (2 m k v fl)
  then show ?case
    by (auto simp: hash_defs split: option.splits if_splits)
next
  case (3 m k w v)
  then show ?case by (simp add: hash_defs)
next
  case (4 m k w v)
  then show ?case by (simp add: hash_defs)
next
  case (5 m k f)
  show ?case
    by (auto simp: elem_write_def bpf_map_lookup_elem_def map_of_map_entry split: option.splits)
qed

interpretation hash_del: kv_store_del bpf_map_lookup_elem bpf_map_update_elem elem_write
  bpf_map_delete_elem hash_wf hash_free
proof (unfold_locales, goal_cases)
  case (1 m k)
  then show ?case
    by (auto simp: bpf_map_delete_elem_def bpf_map_lookup_elem_def delete_conv' split: option.splits)
next
  case (2 m k v fl)
  then show ?case
    by (auto simp: hash_defs distinct_update length_AList_update dest!: lookup_Some_keys
        split: option.splits)
next
  case (3 m k f)
  then show ?case by (simp add: hash_defs keys_map_entry length_map_entry)
next
  case (4 m k)
  then show ?case
    using length_AList_delete [of k "entries m"]
    by (auto simp: hash_defs distinct_delete intro: le_trans split: option.splits)
next
  case (5 m fl k v)
  then show ?case by (auto simp: hash_defs word_le_nat_alt word_less_nat_alt)
next
  case (6 m k v fl)
  then show ?case by (auto simp: hash_defs)
next
  case (7 m k v fl)
  then have "k \<notin> fst ` set (entries m)" by (simp add: lookup_None_keys)
  with 7 show ?case by (auto simp: hash_defs length_AList_update)
next
  case (8 m k w v fl)
  then show ?case
    by (auto simp: hash_defs length_AList_update dest: lookup_Some_keys split: option.splits)
next
  case (9 m k f)
  show ?case by (simp add: hash_defs length_map_entry)
qed

interpretation arr: kv_store array_lookup_elem array_update_elem array_elem_write
proof (unfold_locales, goal_cases)
  case (1 a i v fl)
  then show ?case
    by (auto simp: array_update_elem_def array_lookup_elem_def errno_defs fun_eq_iff nth_list_update
        word_unat_eq_iff split: if_splits)
next
  case (2 a i v fl)
  then show ?case by (auto simp: array_update_elem_def split: if_splits)
next
  case (3 a i w v)
  then show ?case
    by (auto simp: array_update_elem_def array_lookup_elem_def flag_defs split: if_splits)
next
  case (4 a i w v)
  then show ?case
    by (auto simp: array_update_elem_def array_lookup_elem_def flag_defs split: if_splits)
next
  case (5 a i f)
  show ?case
    by (auto simp: array_elem_write_def array_lookup_elem_def fun_eq_iff nth_list_update
        word_unat_eq_iff)
qed

lemmas [map_laws] = hash.lookup_update_cases hash.lookup_store hash.update_hit hash.update_noexist
  hash_del.lookup_delete hash_del.wf_update hash_del.wf_store hash_del.wf_delete
  hash_del.free_store hash_del.free_replace

lemma hash_wf_empty [simp]: "hash_wf (hash_empty n)"
  by (simp add: hash_wf_def hash_empty_def)

lemma lookup_empty [simp]: "bpf_map_lookup_elem (hash_empty n) k = None"
  by (simp add: bpf_map_lookup_elem_def hash_empty_def)

lemma hash_free_empty [simp]: "hash_free (hash_empty n) = n"
  by (simp add: hash_free_def hash_empty_def)

lemma max_entries_update [simp]: "max_entries (snd (bpf_map_update_elem m k v fl)) = max_entries m"
  by (auto simp: bpf_map_update_elem_def split: option.splits)

lemma max_entries_store [simp]: "max_entries (elem_write m k f) = max_entries m"
  by (simp add: elem_write_def)

lemma max_entries_delete [simp]: "max_entries (snd (bpf_map_delete_elem m k)) = max_entries m"
  by (auto simp: bpf_map_delete_elem_def split: option.splits)

text \<open>A well-formed hash map never holds more keys than its capacity.\<close>

lemma hash_card_bound:
  assumes "hash_wf m"
  shows "card (dom (bpf_map_lookup_elem m)) \<le> max_entries m"
proof -
  have "dom (bpf_map_lookup_elem m) = fst ` set (entries m)"
    by (simp add: dom_map_of_conv_image_fst [symmetric] dom_def bpf_map_lookup_elem_def)
  then have "card (dom (bpf_map_lookup_elem m)) \<le> length (entries m)"
    by (metis card_length length_map list.set_map)
  with assms show ?thesis by (simp add: hash_wf_def)
qed

lemma finite_dom_lookup [simp]: "finite (dom (bpf_map_lookup_elem m))"
  by (simp add: bpf_map_lookup_elem_def [abs_def] finite_dom_map_of)

lemma map_entry_absent: "k \<notin> fst ` set al \<Longrightarrow> AList.map_entry k f al = al"
  by (induction al) auto

lemma elem_write_absent: "bpf_map_lookup_elem m k = None \<Longrightarrow> elem_write m k f = m"
  by (simp add: elem_write_def lookup_None_keys map_entry_absent)

lemma elem_write_twice: "elem_write (elem_write m k f) k g = elem_write m k (g \<circ> f)"
proof -
  have "AList.map_entry k g (AList.map_entry k f al) = AList.map_entry k (g \<circ> f) al" for al
    by (induction al) auto
  then show ?thesis by (simp add: elem_write_def)
qed

lemma elem_write_const:
  assumes "bpf_map_lookup_elem m k = Some v"
  shows "elem_write m k (\<lambda>_. f v) = elem_write m k f"
proof -
  have "AList.map_entry k (\<lambda>_. f v) al = AList.map_entry k f al" if "map_of al k = Some v" for al
    using that by (induction al) auto
  with assms show ?thesis by (simp add: elem_write_def bpf_map_lookup_elem_def)
qed

lemma elem_write_cong:
  assumes "bpf_map_lookup_elem m k = Some v" and "f v = g v"
  shows "elem_write m k f = elem_write m k g"
  using elem_write_const [OF assms(1), of f] elem_write_const [OF assms(1), of g] assms(2) by simp

lemma insert_effect:
  assumes "bpf_map_lookup_elem m k = None" and "fl \<le> BPF_NOEXIST"
  shows "0 < hash_free m \<Longrightarrow> bpf_map_lookup_elem (snd (bpf_map_update_elem m k v fl))
            = (bpf_map_lookup_elem m)(k := Some v) \<and>
          hash_free (snd (bpf_map_update_elem m k v fl)) = hash_free m - 1"
    and "hash_free m = 0 \<Longrightarrow> snd (bpf_map_update_elem m k v fl) = m"
  using hash_del.update_room [OF _ assms(2,1)] hash_del.free_insert [OF assms(1)]
    hash_del.full_insert_dropped [OF _ assms(1)]
  by (auto simp: map_laws)

lemma hash_full_update:
  "hash_free m = 0 \<Longrightarrow> hash_free (snd (bpf_map_update_elem m k v fl)) = 0"
  by (cases "bpf_map_lookup_elem m k")
    (simp_all add: hash_del.full_insert_dropped hash_del.free_replace)

lemma array_lookup_write_length [simp]: "length (array_elem_write a i f) = length a"
  by (simp add: array_elem_write_def)

lemma array_lookup_exists: "unat i < length a \<Longrightarrow> \<exists>v. array_lookup_elem a i = Some v"
  by (simp add: array_lookup_elem_def)

lemma percpu_write_length [simp]: "length (percpu_elem_write m c i f c') = length (m c')"
  by (simp add: percpu_elem_write_def)

lemma percpu_write_nth:
  "length (m c') = 1 \<Longrightarrow> percpu_elem_write m c 0 f c' ! 0 = (if c' = c then f (m c ! 0) else m c' ! 0)"
  by (auto simp: percpu_elem_write_def array_elem_write_def)

section \<open>Programs that account events in a map\<close>

text \<open>
  The shape shared by the counting programs: an event selects a key (or is filtered out),
  an existing element is updated in place, a missing one is inserted while the map has
  room and dropped otherwise. \<open>accumulated\<close> is what an element holds after a list of
  events for its key.
\<close>

fun accumulated :: "('ev \<Rightarrow> 'v) \<Rightarrow> ('ev \<Rightarrow> 'v \<Rightarrow> 'v) \<Rightarrow> 'v option \<Rightarrow> 'ev list \<Rightarrow> 'v option" where
  "accumulated fresh upd None [] = None"
| "accumulated fresh upd None (e # es) = Some (fold upd es (fresh e))"
| "accumulated fresh upd (Some v) es = Some (fold upd es v)"

lemma accumulated_step:
  "accumulated fresh upd (Some (case o1 of None \<Rightarrow> fresh e | Some v \<Rightarrow> upd e v)) es
     = accumulated fresh upd o1 (e # es)"
  by (cases o1) simp_all

locale accounting =
  fixes step :: "'ev \<Rightarrow> 's \<Rightarrow> 's"
    and tbl :: "'s \<Rightarrow> 'k \<Rightarrow> 'v option"
    and sel :: "'s \<Rightarrow> 'ev \<Rightarrow> 'k option"
    and room :: "'s \<Rightarrow> nat"
    and fresh :: "'ev \<Rightarrow> 'v"
    and upd :: "'ev \<Rightarrow> 'v \<Rightarrow> 'v"
  assumes sel_const: "sel (step e s) = sel s"
    and skip: "sel s e = None \<Longrightarrow> tbl (step e s) = tbl s \<and> room (step e s) = room s"
    and hit: "sel s e = Some k \<Longrightarrow> tbl s k = Some v \<Longrightarrow>
      tbl (step e s) = (tbl s)(k := Some (upd e v)) \<and> room (step e s) = room s"
    and miss: "sel s e = Some k \<Longrightarrow> tbl s k = None \<Longrightarrow> 0 < room s \<Longrightarrow>
      tbl (step e s) = (tbl s)(k := Some (fresh e)) \<and> room (step e s) = room s - 1"
    and full: "sel s e = Some k \<Longrightarrow> tbl s k = None \<Longrightarrow> room s = 0 \<Longrightarrow>
      tbl (step e s) = tbl s \<and> room (step e s) = 0"
begin

lemma sel_run: "sel (run step es s) = sel s"
  by (induction es arbitrary: s) (auto simp: sel_const)

text \<open>An element that exists misses no later event of its key, full map or not.\<close>

lemma run_present:
  "tbl s k = Some v \<Longrightarrow>
     tbl (run step es s) k = Some (fold upd (filter (\<lambda>e. sel s e = Some k) es) v)"
proof (induction es arbitrary: s v)
  case Nil
  then show ?case by simp
next
  case (Cons e es)
  show ?case
  proof (cases "sel s e")
    case None
    with Cons.prems have "tbl (step e s) k = Some v" by (simp add: skip)
    from Cons.IH [OF this] None show ?thesis by (simp add: sel_const)
  next
    case (Some k')
    show ?thesis
    proof (cases "k' = k")
      case True
      with Some Cons.prems have "tbl (step e s) k = Some (upd e v)" by (simp add: hit)
      from Cons.IH [OF this] Some True show ?thesis by (simp add: sel_const)
    next
      case False
      have "tbl (step e s) k = tbl s k"
        using Some False hit [OF Some] miss [OF Some] full [OF Some]
        by (cases "tbl s k'"; cases "room s") auto
      with Cons.prems have "tbl (step e s) k = Some v" by simp
      from Cons.IH [OF this] Some False show ?thesis by (simp add: sel_const)
    qed
  qed
qed

text \<open>The keys a list of events would add to the map.\<close>

definition new_keys :: "'s \<Rightarrow> 'ev list \<Rightarrow> 'k set" where
  "new_keys s es = {k. tbl s k = None \<and> (\<exists>e \<in> set es. sel s e = Some k)}"

lemma finite_new_keys: "finite (new_keys s es)"
proof -
  have "new_keys s es \<subseteq> (\<lambda>e. the (sel s e)) ` set es"
    by (force simp: new_keys_def)
  then show ?thesis by (rule finite_subset) simp
qed

lemma step_room:
  assumes "card (new_keys s (e # es)) \<le> room s"
  shows "card (new_keys (step e s) es) \<le> room (step e s)"
    and "tbl (step e s) k = (if sel s e = Some k
           then Some (case tbl s k of None \<Rightarrow> fresh e | Some v \<Rightarrow> upd e v) else tbl s k)"
proof -
  have fin: "finite (new_keys s (e # es))" by (rule finite_new_keys)
  have "card (new_keys (step e s) es) \<le> room (step e s) \<and>
        tbl (step e s) k = (if sel s e = Some k
           then Some (case tbl s k of None \<Rightarrow> fresh e | Some v \<Rightarrow> upd e v) else tbl s k)"
  proof (cases "sel s e")
    case None
    then have "new_keys (step e s) es = new_keys s (e # es)"
      by (auto simp: new_keys_def sel_const skip)
    with None assms show ?thesis by (simp add: skip)
  next
    case (Some k')
    show ?thesis
    proof (cases "tbl s k'")
      case None
      then have k': "k' \<in> new_keys s (e # es)" using Some by (auto simp: new_keys_def)
      with fin have "0 < card (new_keys s (e # es))" by (auto simp: card_gt_0_iff)
      with assms have pos: "0 < room s" by simp
      note m = miss [OF Some None pos]
      have "new_keys (step e s) es \<subseteq> new_keys s (e # es) - {k'}"
        using m by (auto simp: new_keys_def sel_const split: if_splits)
      then have "card (new_keys (step e s) es) \<le> card (new_keys s (e # es)) - 1"
        using fin k' by (metis card_Diff_singleton card_mono finite_Diff)
      with assms m None Some show ?thesis by auto
    next
      case (Some v)
      note h = hit [OF \<open>sel s e = Some k'\<close> Some]
      have "new_keys (step e s) es \<subseteq> new_keys s (e # es)"
        using h by (auto simp: new_keys_def sel_const split: if_splits)
      then have "card (new_keys (step e s) es) \<le> card (new_keys s (e # es))"
        using fin by (rule card_mono [rotated])
      with assms h Some \<open>sel s e = Some k'\<close> show ?thesis by auto
    qed
  qed
  then show "card (new_keys (step e s) es) \<le> room (step e s)"
    and "tbl (step e s) k = (if sel s e = Some k
           then Some (case tbl s k of None \<Rightarrow> fresh e | Some v \<Rightarrow> upd e v) else tbl s k)"
    by blast+
qed

text \<open>While the new keys fit, every element holds exactly the events of its key.\<close>

lemma run_complete:
  "card (new_keys s es) \<le> room s \<Longrightarrow>
     tbl (run step es s) k = accumulated fresh upd (tbl s k) (filter (\<lambda>e. sel s e = Some k) es)"
proof (induction es arbitrary: s)
  case Nil
  then show ?case by (cases "tbl s k") simp_all
next
  case (Cons e es)
  note st = step_room [OF Cons.prems]
  have "tbl (run step (e # es) s) k
      = accumulated fresh upd (tbl (step e s) k) (filter (\<lambda>e. sel s e = Some k) es)"
    using Cons.IH [OF st(1)] by (simp add: sel_const)
  also have "\<dots> = accumulated fresh upd (tbl s k) (filter (\<lambda>e. sel s e = Some k) (e # es))"
    using accumulated_step [of fresh upd e "tbl s k"] by (simp add: st(2) [of k])
  finally show ?case .
qed

lemma card_new_keys_le: "card (new_keys s es) \<le> length es"
proof -
  have "new_keys s es \<subseteq> (\<lambda>e. the (sel s e)) ` set es"
    by (force simp: new_keys_def)
  then have "card (new_keys s es) \<le> card (set es)"
    by (metis card_image_le card_mono finite_imageI le_trans List.finite_set)
  then show ?thesis by (metis card_length le_trans)
qed

lemma run_complete_short:
  "length es \<le> room s \<Longrightarrow>
     tbl (run step es s) k = accumulated fresh upd (tbl s k) (filter (\<lambda>e. sel s e = Some k) es)"
  using run_complete card_new_keys_le le_trans by blast

end

end
