(* ===== verification/Bpf_Env.thy ===== *)
theory Bpf_Env
  imports Prelude
begin

text \<open>
  What a BPF program reads from the kernel while it runs: the clock, the current task,
  the processor, and stack identifiers. The record holds the answers the kernel gives
  during one invocation; the helpers are the functions of \<open>bpf_helper_defs.h\<close> that the
  programs call, as that file documents them.
\<close>

section \<open>The kernel side of one invocation\<close>

record bpf_env =
  env_ktime :: u64
  env_tgid :: u32
  env_pid :: u32
  env_comm :: bytes
  env_cpu :: u32
  env_stackid :: "u64 \<Rightarrow> s64"

definition TASK_COMM_LEN :: nat where "TASK_COMM_LEN = 16"

definition BPF_F_USER_STACK :: u64 where "BPF_F_USER_STACK = 256"
definition BPF_F_FAST_STACK_CMP :: u64 where "BPF_F_FAST_STACK_CMP = 512"

definition bpf_ktime_get_ns :: "bpf_env \<Rightarrow> u64" where
  "bpf_ktime_get_ns env = env_ktime env"

definition bpf_get_smp_processor_id :: "bpf_env \<Rightarrow> u32" where
  "bpf_get_smp_processor_id env = env_cpu env"

definition bpf_get_current_pid_tgid :: "bpf_env \<Rightarrow> u64" where
  "bpf_get_current_pid_tgid env = push_bit 32 (ucast (env_tgid env)) OR ucast (env_pid env)"

definition bpf_get_current_comm :: "nat \<Rightarrow> bpf_env \<Rightarrow> bytes" where
  "bpf_get_current_comm n env = cstr_buf n (env_comm env)"

text \<open>The identifier the kernel returns for the stack selected by the flags; negative on
  failure. The \<open>BPF_MAP_TYPE_STACK_TRACE\<close> map it fills is only read from user space.\<close>

definition bpf_get_stackid :: "bpf_env \<Rightarrow> u64 \<Rightarrow> s64" where
  "bpf_get_stackid env flags = env_stackid env flags"

section \<open>Taking \<open>pid_tgid\<close> apart\<close>

text \<open>The two casts that every program applies to the packed identifier.\<close>

definition tid_of :: "u64 \<Rightarrow> u32" where
  "tid_of pid_tgid = ucast pid_tgid"

definition tgid_of :: "u64 \<Rightarrow> u32" where
  "tgid_of pid_tgid = ucast (drop_bit 32 pid_tgid)"

lemmas [eval_defs] = bpf_ktime_get_ns_def bpf_get_smp_processor_id_def bpf_get_current_pid_tgid_def
  bpf_get_current_comm_def bpf_get_stackid_def tid_of_def tgid_of_def TASK_COMM_LEN_def
  BPF_F_USER_STACK_def BPF_F_FAST_STACK_CMP_def

lemma tid_of_current [simp]: "tid_of (bpf_get_current_pid_tgid env) = env_pid env"
  unfolding tid_of_def bpf_get_current_pid_tgid_def
  by (rule bit_word_eqI) (auto simp: bit_simps)

lemma tgid_of_current [simp]: "tgid_of (bpf_get_current_pid_tgid env) = env_tgid env"
  unfolding tgid_of_def bpf_get_current_pid_tgid_def
  by (rule bit_word_eqI) (auto simp: bit_simps dest: bit_imp_le_length)

lemma length_comm [simp]: "length (bpf_get_current_comm n env) = n"
  by (simp add: bpf_get_current_comm_def)

text \<open>The packed identifier determines both parts, so it is a faithful map key per thread.\<close>

lemma pid_tgid_inject:
  "bpf_get_current_pid_tgid e1 = bpf_get_current_pid_tgid e2 \<longleftrightarrow>
     env_pid e1 = env_pid e2 \<and> env_tgid e1 = env_tgid e2"
  by (metis tid_of_current tgid_of_current bpf_get_current_pid_tgid_def)

end
