(* ===== verification/Bits.thy ===== *)
theory Bits
  imports Prelude "HOL-Library.Log_Nat"
begin

text \<open>
  The integer logarithm of \<open>bits.bpf.h\<close>, with which \<open>futexsnoop\<close> chooses a histogram slot:
  a branch-free binary search over the bits of a word, shown equal to the mathematical
  floor of the binary logarithm.
\<close>

section \<open>Definitions\<close>

text \<open>A C comparison used as a number.\<close>

definition c_bool :: "bool \<Rightarrow> u32" where
  "c_bool b = (if b then 1 else 0)"

definition log2 :: "u32 \<Rightarrow> u64" where
  "log2 v =
     (let r = push_bit 4 (c_bool (v > 0xFFFF));
          v = drop_bit (unat r) v;
          shift = push_bit 3 (c_bool (v > 0xFF));
          v = drop_bit (unat shift) v;
          r = r OR shift;
          shift = push_bit 2 (c_bool (v > 0xF));
          v = drop_bit (unat shift) v;
          r = r OR shift;
          shift = push_bit 1 (c_bool (v > 0x3));
          v = drop_bit (unat shift) v;
          r = r OR shift;
          r = r OR drop_bit 1 v
      in ucast r)"

definition log2l :: "u64 \<Rightarrow> u64" where
  "log2l v =
     (let hi = (ucast (drop_bit 32 v) :: u32)
      in if hi \<noteq> 0 then log2 hi + 32 else log2 (ucast v))"

lemmas [eval_defs] = c_bool_def log2_def log2l_def

section \<open>The search finds the leading bit\<close>

text \<open>
  One round of the search on natural numbers: the shift it chooses for a window of
  \<open>2 * s\<close> bits, and the value it leaves in the lower half of that window.
\<close>

definition search_round :: "nat \<Rightarrow> nat \<Rightarrow> nat" where
  "search_round s n = (if 2 ^ s \<le> n then s else 0)"

lemma search_round_window: "n < 2 ^ (2 * s) \<Longrightarrow> n div 2 ^ search_round s n < 2 ^ s"
  by (auto simp: search_round_def power_mult power2_eq_square mult_2 power_add
      less_mult_imp_div_less)

lemma search_round_pos: "0 < n \<Longrightarrow> 0 < n div 2 ^ search_round s n"
  by (auto simp: search_round_def div_greater_zero_iff)

text \<open>A bracket of the shifted value is a bracket of the value, moved by the shift.\<close>

lemma bracket_shift:
  fixes n :: nat
  assumes "2 ^ k \<le> n div 2 ^ r" and "n div 2 ^ r < 2 ^ Suc k"
  shows "2 ^ (r + k) \<le> n" and "n < 2 ^ Suc (r + k)"
proof -
  have "2 ^ (r + k) = (2::nat) ^ k * 2 ^ r" by (simp add: power_add)
  also have "\<dots> \<le> n"
    using assms(1) by (metis div_times_less_eq_dividend le_trans mult_le_mono1)
  finally show "2 ^ (r + k) \<le> n" .
  have "n < 2 ^ Suc k * 2 ^ r"
    using assms(2) by (simp add: div_less_iff_less_mult)
  then show "n < 2 ^ Suc (r + k)" by (simp add: power_add ac_simps)
qed

definition log2_search :: "nat \<Rightarrow> nat" where
  "log2_search n =
     (let a = search_round 16 n; n1 = n div 2 ^ a;
          b = search_round 8 n1; n2 = n1 div 2 ^ b;
          c = search_round 4 n2; n3 = n2 div 2 ^ c;
          d = search_round 2 n3; n4 = n3 div 2 ^ d
      in a + (b + (c + (d + n4 div 2))))"

lemma log2_search_bracket:
  assumes "0 < n" and "n < 2 ^ 32"
  shows "2 ^ log2_search n \<le> n \<and> n < 2 ^ Suc (log2_search n)"
proof -
  define a where "a = search_round 16 n"
  define n1 where "n1 = n div 2 ^ a"
  define b where "b = search_round 8 n1"
  define n2 where "n2 = n1 div 2 ^ b"
  define c where "c = search_round 4 n2"
  define n3 where "n3 = n2 div 2 ^ c"
  define d where "d = search_round 2 n3"
  define n4 where "n4 = n3 div 2 ^ d"
  have n1: "n1 < 2 ^ 16" "0 < n1"
    using assms search_round_window [of n 16] search_round_pos by (simp_all add: n1_def a_def)
  have n2: "n2 < 2 ^ 8" "0 < n2"
    using n1 search_round_window [of n1 8] search_round_pos by (simp_all add: n2_def b_def)
  have n3: "n3 < 2 ^ 4" "0 < n3"
    using n2 search_round_window [of n2 4] search_round_pos by (simp_all add: n3_def c_def)
  have n4: "n4 < 2 ^ 2" "0 < n4"
    using n3 search_round_window [of n3 2] search_round_pos by (simp_all add: n4_def d_def)
  have k4: "2 ^ (n4 div 2) \<le> n4" "n4 < 2 ^ Suc (n4 div 2)"
  proof -
    from n4 have "n4 = 1 \<or> n4 = 2 \<or> n4 = 3" by auto
    then show "2 ^ (n4 div 2) \<le> n4" "n4 < 2 ^ Suc (n4 div 2)" by auto
  qed
  note k3 = bracket_shift [of "n4 div 2" n3 d, folded n4_def, OF k4]
  note k2 = bracket_shift [of "d + n4 div 2" n2 c, folded n3_def, OF k3]
  note k1 = bracket_shift [of "c + (d + n4 div 2)" n1 b, folded n2_def, OF k2]
  note k0 = bracket_shift [of "b + (c + (d + n4 div 2))" n a, folded n1_def, OF k1]
  have "log2_search n = a + (b + (c + (d + n4 div 2)))"
    by (simp add: log2_search_def Let_def a_def n1_def b_def n2_def c_def n3_def d_def n4_def)
  with k0 show ?thesis by simp
qed

text \<open>The word computation is this search: each round sets its own bit of the result.\<close>

lemma round_words:
  fixes v :: u32
  shows "unat (push_bit 4 (c_bool (0xFFFF < v))) = search_round 16 (unat v)"
    and "unat (push_bit 3 (c_bool (0xFF < v))) = search_round 8 (unat v)"
    and "unat (push_bit 2 (c_bool (0xF < v))) = search_round 4 (unat v)"
    and "unat (push_bit 1 (c_bool (0x3 < v))) = search_round 2 (unat v)"
  by (simp_all add: c_bool_def search_round_def word_less_nat_alt)

lemma or_disjoint_bits:
  fixes a b c d e :: u32
  assumes "a = push_bit 4 (c_bool A)" "b = push_bit 3 (c_bool B)" "c = push_bit 2 (c_bool C)"
    "d = push_bit 1 (c_bool D)" "unat e < 2"
  shows "unat ((((a OR b) OR c) OR d) OR e) = unat a + (unat b + (unat c + (unat d + unat e)))"
proof -
  from assms(5) have "unat e = 0 \<or> unat e = 1" by linarith
  then have "e = 0 \<or> e = 1" by (metis unat_0 unat_1 word_unat_eq_iff)
  then show ?thesis
    unfolding assms(1-4) by (cases A; cases B; cases C; cases D) (auto simp: c_bool_def)
qed

lemma unat_log2: "unat (log2 v) = log2_search (unat v)"
proof -
  define a where "a = push_bit 4 (c_bool (0xFFFF < v))"
  define v1 where "v1 = drop_bit (unat a) v"
  define b where "b = push_bit 3 (c_bool (0xFF < v1))"
  define v2 where "v2 = drop_bit (unat b) v1"
  define c where "c = push_bit 2 (c_bool (0xF < v2))"
  define v3 where "v3 = drop_bit (unat c) v2"
  define d where "d = push_bit 1 (c_bool (0x3 < v3))"
  define v4 where "v4 = drop_bit (unat d) v3"
  have w: "unat a = search_round 16 (unat v)" "unat b = search_round 8 (unat v1)"
    "unat c = search_round 4 (unat v2)" "unat d = search_round 2 (unat v3)"
    by (simp_all only: a_def b_def c_def d_def round_words)
  have u: "unat v1 = unat v div 2 ^ unat a" "unat v2 = unat v1 div 2 ^ unat b"
    "unat v3 = unat v2 div 2 ^ unat c" "unat v4 = unat v3 div 2 ^ unat d"
    by (simp_all only: v1_def v2_def v3_def v4_def unat_shr_div)
  have "unat v < 2 ^ (2 * 16)" using unsigned_less [of v] by simp
  then have "unat v1 < 2 ^ 16" unfolding u(1) w(1) by (rule search_round_window)
  then have "unat v2 < 2 ^ 8" using search_round_window [of "unat v1" 8] by (simp add: u(2) w(2))
  then have "unat v3 < 2 ^ 4" using search_round_window [of "unat v2" 4] by (simp add: u(3) w(3))
  then have "unat v4 < 2 ^ 2" using search_round_window [of "unat v3" 2] by (simp add: u(4) w(4))
  then have last: "unat (drop_bit 1 v4) < 2" by (simp add: unat_shr_div [of 1, simplified])
  have "log2 v = ucast ((((a OR b) OR c) OR d) OR drop_bit 1 v4)"
    unfolding log2_def Let_def a_def v1_def b_def v2_def c_def v3_def d_def v4_def ..
  then have "unat (log2 v) = unat ((((a OR b) OR c) OR d) OR drop_bit 1 v4)"
    by (simp add: unat_ucast_widen)
  also have "\<dots> = unat a + (unat b + (unat c + (unat d + unat (drop_bit 1 v4))))"
    using a_def b_def c_def d_def last by (rule or_disjoint_bits)
  also have "\<dots> = log2_search (unat v)"
    unfolding log2_search_def Let_def w(1)[symmetric] u(1)[symmetric] w(2)[symmetric]
      u(2)[symmetric] w(3)[symmetric] u(3)[symmetric] w(4)[symmetric] u(4)[symmetric]
    by (simp add: unat_shr_div [of 1, simplified])
  finally show ?thesis .
qed

lemma log2_bracket: "v \<noteq> 0 \<Longrightarrow> 2 ^ unat (log2 v) \<le> unat v \<and> unat v < 2 ^ Suc (unat (log2 v))"
  unfolding unat_log2 using unsigned_less [of v]
  by (intro log2_search_bracket) (auto simp: unat_gt_0)

lemma log2_0: "log2 0 = 0"
  by (simp add: log2_def c_bool_def)

lemma log2_bound: "unat (log2 v) < 32"
proof (cases "v = 0")
  case True
  then show ?thesis by (simp add: log2_0)
next
  case False
  with log2_bracket [of v] have "(2::nat) ^ unat (log2 v) \<le> unat v" by simp
  also have "\<dots> < 2 ^ 32" using unsigned_less [of v] by simp
  finally show ?thesis by (rule power_less_imp_less_exp [rotated]) simp
qed

lemma log2l_bracket:
  assumes "v \<noteq> 0"
  shows "2 ^ unat (log2l v) \<le> unat v \<and> unat v < 2 ^ Suc (unat (log2l v))"
proof -
  define hi where "hi = (ucast (drop_bit 32 v) :: u32)"
  have v_lt: "unat v < 2 ^ 32 * 2 ^ 32" using unsigned_less [of v] by simp
  have hi: "unat hi = unat v div 2 ^ 32"
    using v_lt by (simp add: hi_def unat_ucast_narrow unat_shr_div less_mult_imp_div_less)
  show ?thesis
  proof (cases "hi = 0")
    case True
    then have small: "unat v < 2 ^ 32" using hi by (simp add: div_eq_0_iff)
    then have lo: "unat (ucast v :: u32) = unat v" by (simp add: unat_ucast_narrow)
    with assms have "(ucast v :: u32) \<noteq> 0" by (metis unat_eq_zero)
    from log2_bracket [OF this] True lo show ?thesis
      by (simp add: log2l_def hi_def [symmetric] Let_def)
  next
    case False
    have "unat (log2 hi + 32) = 32 + unat (log2 hi)"
      using log2_bound [of hi] by (simp add: unat_word_ariths)
    moreover note log2_bracket [OF False, unfolded hi]
    ultimately show ?thesis
      using False bracket_shift [of "unat (log2 hi)" "unat v" 32]
      by (simp add: log2l_def hi_def [symmetric] Let_def)
  qed
qed

lemma log2l_0: "log2l 0 = 0"
  by (simp add: log2l_def log2_0)

lemma log2l_bound: "unat (log2l v) < 64"
proof (cases "v = 0")
  case True
  then show ?thesis by (simp add: log2l_0)
next
  case False
  with log2l_bracket [of v] have "(2::nat) ^ unat (log2l v) \<le> unat v" by simp
  also have "\<dots> < 2 ^ 64" using unsigned_less [of v] by simp
  finally show ?thesis by (rule power_less_imp_less_exp [rotated]) simp
qed

text \<open>The bracket determines the logarithm, so both widths compute the library's one.\<close>

lemma bracket_floorlog:
  assumes "2 ^ k \<le> n" and "n < 2 ^ Suc k"
  shows "floorlog 2 n = Suc k"
proof (rule antisym)
  show "floorlog 2 n \<le> Suc k" using assms(2) by (intro floorlog_leI) auto
  show "Suc k \<le> floorlog 2 n" using assms(1) by (intro floorlog_geI) auto
qed

lemma unat_log2l: "unat (log2l v) = floorlog 2 (unat v) - 1"
proof (cases "v = 0")
  case True
  then show ?thesis by (simp add: log2l_0 floorlog_def)
next
  case False
  then show ?thesis using log2l_bracket [of v] bracket_floorlog by fastforce
qed

text \<open>C36. The search computes the floor of the binary logarithm on every 64-bit value, and 0 on 0, with the
  library's bit length as the reference.\<close>

theorem log2l_is_floor_log:
  "unat (log2l v) = floorlog 2 (unat v) - 1 \<and> unat (log2l v) < 64"
  using unat_log2l [of v] log2l_bound [of v] by simp

end
