(* ===== verification/Futexsnoop.thy ===== *)
theory Futexsnoop
  imports Bpf_Map Bpf_Env Bits
begin

text \<open>
  The lock contention tracer \<open>futexsnoop.bpf.c\<close>: the program's structs and maps, the two
  tracepoint handlers \<open>futex_enter\<close> and \<open>futex_exit\<close>, and their invariants: the number of
  users of a lock never drops below the threads waiting on it, a histogram accounts every
  wait once and in the slot of its logarithm, and an event is reported only inside the
  configured window. A handler runs to completion before the next one starts.
\<close>

section \<open>Data\<close>

definition MAX_ENTRIES :: nat where "MAX_ENTRIES = 10240"
definition MAX_SLOTS :: nat where "MAX_SLOTS = 24"

definition FUTEX_WAIT :: u32 where "FUTEX_WAIT = 0"
definition FUTEX_PRIVATE_FLAG :: u32 where "FUTEX_PRIVATE_FLAG = 128"
definition FUTEX_CLOCK_REALTIME :: u32 where "FUTEX_CLOCK_REALTIME = 256"
definition FUTEX_CMD_MASK :: u32 where
  "FUTEX_CMD_MASK = NOT (FUTEX_PRIVATE_FLAG OR FUTEX_CLOCK_REALTIME)"

record val_t =
  val_ts :: u64
  val_uaddr :: u64

record hist_key =
  hkey_pid_tgid :: u64
  hkey_uaddr :: u64
  hkey_user_stack_id :: s32

record user_args =
  targ_pid :: u32
  targ_tid :: u32
  targ_lock :: u64
  stack :: bool
  min_dur_ms :: u32
  max_dur_ms :: u32
  max_lock_hold_users :: u32

record hist =
  slots :: "u32 list"
  hist_comm :: bytes
  hist_pid_tgid :: u64
  hist_uaddr :: u64
  hist_user_stack_id :: s32
  hist_pad :: u32
  contended :: u64
  total_elapsed :: u64
  min_dur :: u64
  max_dur :: u64
  delta_dur :: u64
  max_dur_ts :: u64

record lock_stat =
  user_cnt :: u32
  max_user_cnt :: u32
  lock_uaddr :: u64
  lock_comm :: bytes
  lock_pid_tgid :: u64
  lock_ts :: u64

text \<open>The contexts of the two tracepoints: the system call arguments and its result.\<close>

type_synonym syscall_trace_enter = "u64 list"
type_synonym syscall_trace_exit = s64

datatype futex_event = Lock_event lock_stat | Hist_event hist

record futex_state =
  start :: "(u64, val_t) bpf_hash"
  args_map :: "user_args bpf_array"
  lock_map :: "(u64, lock_stat) bpf_hash"
  hists_map :: "(hist_key, hist) bpf_hash"
  perf_out :: "futex_event list"

text \<open>The maps as the loader creates them, with the arguments in slot 0 of \<open>args_map\<close>.\<close>

definition zero_args :: user_args where
  "zero_args = \<lparr>targ_pid = 0, targ_tid = 0, targ_lock = 0, stack = False, min_dur_ms = 0,
     max_dur_ms = 0, max_lock_hold_users = 0\<rparr>"

definition futex_init :: "user_args \<Rightarrow> futex_state" where
  "futex_init args = \<lparr>start = hash_empty MAX_ENTRIES, args_map = args # replicate 7 zero_args,
     lock_map = hash_empty MAX_ENTRIES, hists_map = hash_empty MAX_ENTRIES, perf_out = []\<rparr>"

section \<open>Handlers\<close>

definition bpf_map_lookup_or_try_init ::
    "('k, 'v) bpf_hash \<Rightarrow> 'k \<Rightarrow> 'v \<Rightarrow> 'v option \<times> ('k, 'v) bpf_hash" where
  "bpf_map_lookup_or_try_init m k init =
     (case bpf_map_lookup_elem m k of
        Some val \<Rightarrow> (Some val, m)
      | None \<Rightarrow>
          let (err, m') = bpf_map_update_elem m k init BPF_NOEXIST
          in if err \<noteq> 0 \<and> err \<noteq> - EEXIST then (None, m')
             else (bpf_map_lookup_elem m' k, m'))"

text \<open>The stores through \<open>lock\<close> on entry: count the user, raise the maximum.\<close>

definition lock_enter :: "lock_stat \<Rightarrow> lock_stat" where
  "lock_enter lock =
     (let lock = lock\<lparr>user_cnt := user_cnt lock + 1\<rparr>
      in if user_cnt lock > max_user_cnt lock
         then lock\<lparr>max_user_cnt := user_cnt lock\<rparr> else lock)"

definition lock_exit :: "lock_stat \<Rightarrow> lock_stat" where
  "lock_exit lock = lock\<lparr>user_cnt := user_cnt lock + (- 1)\<rparr>"

definition lock_init :: "u64 \<Rightarrow> lock_stat" where
  "lock_init uaddr = \<lparr>user_cnt = 1, max_user_cnt = 1, lock_uaddr = uaddr,
     lock_comm = replicate TASK_COMM_LEN 0, lock_pid_tgid = 0, lock_ts = 0\<rparr>"

definition ctx_arg :: "syscall_trace_enter \<Rightarrow> nat \<Rightarrow> u64" where
  "ctx_arg ctx i = (if i < length ctx then ctx ! i else 0)"

text \<open>The guards on pid, tid and lock address, each switched off by a zero.\<close>

definition futex_filtered :: "user_args \<Rightarrow> u32 \<Rightarrow> u32 \<Rightarrow> u64 \<Rightarrow> bool" where
  "futex_filtered args pid tid uaddr \<longleftrightarrow>
     (targ_pid args \<noteq> 0 \<and> targ_pid args \<noteq> pid) \<or>
     (targ_tid args \<noteq> 0 \<and> targ_tid args \<noteq> tid) \<or>
     (targ_lock args \<noteq> 0 \<and> targ_lock args \<noteq> uaddr)"

definition futex_enter :: "bpf_env \<Rightarrow> syscall_trace_enter \<Rightarrow> futex_state \<Rightarrow> futex_state" where
  "futex_enter env ctx s =
     (if (ucast (ctx_arg ctx 1) AND FUTEX_CMD_MASK) \<noteq> FUTEX_WAIT then s
      else
        let v = \<lparr>val_ts = bpf_ktime_get_ns env, val_uaddr = ctx_arg ctx 0\<rparr>
        in case array_lookup_elem (args_map s) 0 of
          None \<Rightarrow> s
        | Some args \<Rightarrow>
            let pid_tgid = bpf_get_current_pid_tgid env; tid = tid_of pid_tgid;
                pid = tgid_of pid_tgid
            in if futex_filtered args pid tid (val_uaddr v) then s
            else
              let s = s\<lparr>start := snd (bpf_map_update_elem (start s) pid_tgid v BPF_ANY)\<rparr>
              in case bpf_map_lookup_elem (lock_map s) (val_uaddr v) of
                Some lock \<Rightarrow>
                  let lock = lock_enter lock;
                      s = s\<lparr>lock_map := elem_write (lock_map s) (val_uaddr v) lock_enter\<rparr>
                  in if max_user_cnt lock > max_lock_hold_users args
                     then
                       let event = lock\<lparr>lock_pid_tgid := pid_tgid, lock_ts := val_ts v,
                             lock_comm := bpf_get_current_comm TASK_COMM_LEN env\<rparr>
                       in s\<lparr>perf_out := perf_out s @ [Lock_event event]\<rparr>
                     else s
              | None \<Rightarrow>
                  s\<lparr>lock_map := snd (bpf_map_update_elem (lock_map s) (val_uaddr v)
                      (lock_init (val_uaddr v)) BPF_ANY)\<rparr>)"

definition initial_hist :: hist where
  "initial_hist = \<lparr>slots = replicate MAX_SLOTS 0, hist_comm = replicate TASK_COMM_LEN 0,
     hist_pid_tgid = 0, hist_uaddr = 0, hist_user_stack_id = 0, hist_pad = 0, contended = 0,
     total_elapsed = 0, min_dur = 0, max_dur = 0, delta_dur = 0, max_dur_ts = 0\<rparr>"

text \<open>The histogram slot of a wait, clamped to the last one.\<close>

definition slot_of :: "s64 \<Rightarrow> u64" where
  "slot_of delta =
     (let slot = log2l delta
      in if slot \<ge> of_nat MAX_SLOTS then of_nat MAX_SLOTS - 1 else slot)"

text \<open>
  The stores through \<open>histp\<close> up to the minimum and maximum. The flag says whether
  \<open>__TARGET_ARCH_amd64\<close> is defined: the first branch swaps the new maximum in, the second
  stores the value it has just read.
\<close>

definition hist_count :: "s64 \<Rightarrow> hist \<Rightarrow> hist" where
  "hist_count delta h =
     (let slot = unat (slot_of delta)
      in h\<lparr>slots := (slots h)[slot := slots h ! slot + 1], contended := contended h + 1,
           total_elapsed := total_elapsed h + delta\<rparr>)"

definition hist_minmax :: "bool \<Rightarrow> u64 \<Rightarrow> s64 \<Rightarrow> hist \<Rightarrow> hist" where
  "hist_minmax amd ts delta h =
     (let mn = min_dur h;
          h = (if mn = 0 \<or> mn > delta then h\<lparr>min_dur := delta\<rparr> else h);
          mx = max_dur h
      in if mx < delta
         then (if amd then h\<lparr>max_dur := delta, max_dur_ts := ts\<rparr>
               else h\<lparr>max_dur := mx, max_dur_ts := ts\<rparr>)
         else h)"

definition hist_account :: "bool \<Rightarrow> bpf_env \<Rightarrow> u64 \<Rightarrow> s64 \<Rightarrow> hist \<Rightarrow> hist" where
  "hist_account amd env ts delta h =
     (hist_minmax amd ts delta (hist_count delta h))
       \<lparr>hist_comm := bpf_get_current_comm TASK_COMM_LEN env\<rparr>"

definition hist_report :: "hist_key \<Rightarrow> s64 \<Rightarrow> hist \<Rightarrow> hist" where
  "hist_report hkey delta h =
     h\<lparr>hist_uaddr := hkey_uaddr hkey, hist_pid_tgid := hkey_pid_tgid hkey,
       hist_user_stack_id := hkey_user_stack_id hkey, delta_dur := delta\<rparr>"

text \<open>The report condition: a signed window on the wait and an unsigned test against the
  running average.\<close>

definition in_window :: "user_args \<Rightarrow> hist \<Rightarrow> s64 \<Rightarrow> bool" where
  "in_window args h delta \<longleftrightarrow>
     sint delta > uint (min_dur_ms args) \<and> sint delta < uint (max_dur_ms args) \<and>
     delta > total_elapsed h div contended h"

definition futex_cleanup :: "u64 \<Rightarrow> futex_state \<Rightarrow> futex_state" where
  "futex_cleanup pid_tgid s = s\<lparr>start := snd (bpf_map_delete_elem (start s) pid_tgid)\<rparr>"

definition futex_record ::
    "bool \<Rightarrow> bpf_env \<Rightarrow> user_args \<Rightarrow> hist_key \<Rightarrow> u64 \<Rightarrow> s64 \<Rightarrow> futex_state \<Rightarrow> futex_state" where
  "futex_record amd env args hkey ts delta s =
     (let (histp, hm) = bpf_map_lookup_or_try_init (hists_map s) hkey initial_hist;
          s = s\<lparr>hists_map := hm\<rparr>
      in case histp of
        None \<Rightarrow> s
      | Some h0 \<Rightarrow>
          let delta = c_sdiv delta 1000;
              h = hist_account amd env ts delta h0;
              s = s\<lparr>hists_map := elem_write (hists_map s) hkey (\<lambda>_. h)\<rparr>
          in if in_window args h delta
             then
               let event = hist_report hkey delta h
               in s\<lparr>hists_map := elem_write (hists_map s) hkey (\<lambda>_. event),
                    perf_out := perf_out s @ [Hist_event event]\<rparr>
             else s)"

definition futex_exit ::
    "bool \<Rightarrow> bpf_env \<Rightarrow> syscall_trace_exit \<Rightarrow> futex_state \<Rightarrow> futex_state" where
  "futex_exit amd env ret s =
     (let ts = bpf_ktime_get_ns env; pid_tgid = bpf_get_current_pid_tgid env
      in case bpf_map_lookup_elem (start s) pid_tgid of
        None \<Rightarrow> s
      | Some vp \<Rightarrow>
          let s = (case bpf_map_lookup_elem (lock_map s) (val_uaddr vp) of
                     Some lock \<Rightarrow> s\<lparr>lock_map := elem_write (lock_map s) (val_uaddr vp) lock_exit\<rparr>
                   | None \<Rightarrow> s)
          in if sint (ucast ret :: s32) < 0 then futex_cleanup pid_tgid s
             else
               let delta = ts - val_ts vp
               in if sint delta < 0 then futex_cleanup pid_tgid s
                  else case array_lookup_elem (args_map s) 0 of
                    None \<Rightarrow> s
                  | Some args \<Rightarrow>
                      let hkey = \<lparr>hkey_pid_tgid = pid_tgid, hkey_uaddr = val_uaddr vp,
                            hkey_user_stack_id =
                              (if stack args then ucast (bpf_get_stackid env BPF_F_USER_STACK)
                               else 0)\<rparr>
                      in futex_cleanup pid_tgid (futex_record amd env args hkey ts delta s))"

text \<open>One traced system call boundary.\<close>

datatype futex_ev = Enter bpf_env syscall_trace_enter | Exit bpf_env syscall_trace_exit

fun futex_step :: "bool \<Rightarrow> futex_ev \<Rightarrow> futex_state \<Rightarrow> futex_state" where
  "futex_step amd (Enter env ctx) s = futex_enter env ctx s"
| "futex_step amd (Exit env ret) s = futex_exit amd env ret s"

lemmas [eval_defs] = MAX_ENTRIES_def MAX_SLOTS_def FUTEX_WAIT_def FUTEX_PRIVATE_FLAG_def
  FUTEX_CLOCK_REALTIME_def FUTEX_CMD_MASK_def zero_args_def futex_init_def
  bpf_map_lookup_or_try_init_def lock_enter_def lock_exit_def lock_init_def ctx_arg_def
  futex_filtered_def futex_enter_def initial_hist_def slot_of_def hist_count_def hist_minmax_def
  hist_account_def hist_report_def in_window_def futex_cleanup_def futex_record_def futex_exit_def

section \<open>What each handler leaves alone\<close>

lemma futex_record_frame [simp]:
  "start (futex_record amd env args hkey ts delta s) = start s"
  "lock_map (futex_record amd env args hkey ts delta s) = lock_map s"
  "args_map (futex_record amd env args hkey ts delta s) = args_map s"
  by (auto simp: futex_record_def Let_def split: option.splits prod.splits)

lemma futex_enter_args [simp]: "args_map (futex_enter env ctx s) = args_map s"
  by (auto simp: futex_enter_def Let_def split: option.splits)

lemma futex_exit_args [simp]: "args_map (futex_exit amd env ret s) = args_map s"
  by (auto simp: futex_exit_def futex_cleanup_def Let_def split: option.splits)

lemma futex_step_args [simp]: "args_map (futex_step amd e s) = args_map s"
  by (cases e) simp_all

lemma futex_enter_hists [simp]: "hists_map (futex_enter env ctx s) = hists_map s"
  by (auto simp: futex_enter_def Let_def split: option.splits)

text \<open>The slots of an array map exist, so the arguments are always found.\<close>

definition args_ready :: "futex_state \<Rightarrow> bool" where
  "args_ready s \<longleftrightarrow> length (args_map s) = 8"

lemma args_ready_lookup: "args_ready s \<Longrightarrow> array_lookup_elem (args_map s) 0 = Some (args_map s ! 0)"
  by (simp add: args_ready_def array_lookup_elem_def)

lemma futex_exit_start:
  assumes "args_ready s"
  shows "start (futex_exit amd env ret s) =
    (case bpf_map_lookup_elem (start s) (bpf_get_current_pid_tgid env) of
       None \<Rightarrow> start s
     | Some vp \<Rightarrow> snd (bpf_map_delete_elem (start s) (bpf_get_current_pid_tgid env)))"
  using args_ready_lookup [OF assms]
  by (auto simp: futex_exit_def futex_cleanup_def Let_def split: option.splits)

lemma futex_exit_locks:
  "lock_map (futex_exit amd env ret s) =
    (case bpf_map_lookup_elem (start s) (bpf_get_current_pid_tgid env) of
       None \<Rightarrow> lock_map s
     | Some vp \<Rightarrow> elem_write (lock_map s) (val_uaddr vp) lock_exit)"
  by (auto simp: futex_exit_def futex_cleanup_def Let_def elem_write_absent split: option.splits)

section \<open>Users of a lock\<close>

text \<open>The threads that have entered a wait on a lock and not yet left it.\<close>

definition waiting :: "futex_state \<Rightarrow> u64 \<Rightarrow> u64 set" where
  "waiting s l = {t. \<exists>v. bpf_map_lookup_elem (start s) t = Some v \<and> val_uaddr v = l}"

lemma finite_waiting [simp]: "finite (waiting s l)"
proof -
  have "waiting s l \<subseteq> dom (bpf_map_lookup_elem (start s))" by (auto simp: waiting_def)
  then show ?thesis by (rule finite_subset) simp
qed

text \<open>
  The accounting invariant after \<open>n\<close> events: a tracked lock counts at least its waiting
  threads and never more than its recorded maximum; a lock that is not tracked has no
  waiting threads, unless the lock map had run full.
\<close>

definition lock_ok :: "nat \<Rightarrow> futex_state \<Rightarrow> u64 \<Rightarrow> bool" where
  "lock_ok n s l \<longleftrightarrow>
     (case bpf_map_lookup_elem (lock_map s) l of
        None \<Rightarrow> waiting s l = {} \<or> hash_free (lock_map s) = 0
      | Some lk \<Rightarrow> card (waiting s l) \<le> unat (user_cnt lk) \<and> unat (user_cnt lk) \<le> n
          \<and> user_cnt lk \<le> max_user_cnt lk)"

definition users_inv :: "nat \<Rightarrow> futex_state \<Rightarrow> bool" where
  "users_inv n s \<longleftrightarrow> hash_wf (start s) \<and> args_ready s \<and> (\<forall>l. lock_ok n s l)"

lemma waiting_start_update:
  assumes "start s' = snd (bpf_map_update_elem (start s) t v BPF_ANY)"
  shows "waiting s' (val_uaddr v) \<subseteq> insert t (waiting s (val_uaddr v))"
    and "l \<noteq> val_uaddr v \<Longrightarrow> waiting s' l \<subseteq> waiting s l"
  using assms by (auto simp: waiting_def map_laws split: if_splits)

lemma waiting_start_delete:
  assumes "hash_wf (start s)" and "start s' = snd (bpf_map_delete_elem (start s) t)"
  shows "waiting s' l = waiting s l - {t}"
  using assms by (auto simp: waiting_def map_laws)

lemma lock_enter_counts:
  assumes "unat (user_cnt lk) < n" and "n < 2 ^ 32"
  shows "unat (user_cnt (lock_enter lk)) = Suc (unat (user_cnt lk))"
    and "user_cnt (lock_enter lk) \<le> max_user_cnt (lock_enter lk)"
  using assms unat_inc [of "user_cnt lk" n] by (auto simp: lock_enter_def Let_def)

lemma futex_enter_cases:
  fixes env ctx s
  defines "t \<equiv> bpf_get_current_pid_tgid env"
  defines "v \<equiv> \<lparr>val_ts = bpf_ktime_get_ns env, val_uaddr = ctx_arg ctx 0\<rparr>"
  obtains (skip) "futex_enter env ctx s = s"
  | (hit) lk where
      "bpf_map_lookup_elem (lock_map s) (ctx_arg ctx 0) = Some lk"
      "start (futex_enter env ctx s) = snd (bpf_map_update_elem (start s) t v BPF_ANY)"
      "lock_map (futex_enter env ctx s) = elem_write (lock_map s) (ctx_arg ctx 0) lock_enter"
  | (miss)
      "bpf_map_lookup_elem (lock_map s) (ctx_arg ctx 0) = None"
      "start (futex_enter env ctx s) = snd (bpf_map_update_elem (start s) t v BPF_ANY)"
      "lock_map (futex_enter env ctx s) = snd (bpf_map_update_elem (lock_map s) (ctx_arg ctx 0)
         (lock_init (ctx_arg ctx 0)) BPF_ANY)"
proof (cases "futex_enter env ctx s = s")
  case True
  then show ?thesis by (rule skip)
next
  case False
  show ?thesis
  proof (cases "bpf_map_lookup_elem (lock_map s) (ctx_arg ctx 0)")
    case None
    show ?thesis
      by (rule miss [OF None])
        (use False None in \<open>auto simp: futex_enter_def t_def v_def Let_def split: option.splits if_splits\<close>)
  next
    case (Some lk)
    show ?thesis
      by (rule hit [OF Some])
        (use False Some in \<open>auto simp: futex_enter_def t_def v_def Let_def split: option.splits if_splits\<close>)
  qed
qed

lemma card_waiting_grow:
  assumes "waiting s' u \<subseteq> insert t (waiting s u)"
  shows "card (waiting s' u) \<le> Suc (card (waiting s u))"
proof -
  have "card (waiting s' u) \<le> card (insert t (waiting s u))"
    using assms by (intro card_mono) auto
  then show ?thesis by (auto simp: card_insert_if split: if_splits)
qed

lemma lock_ok_shrink:
  assumes "lock_ok n s l" and "waiting s' l \<subseteq> waiting s l"
    and "bpf_map_lookup_elem (lock_map s') l = bpf_map_lookup_elem (lock_map s) l"
    and "hash_free (lock_map s) = 0 \<Longrightarrow> hash_free (lock_map s') = 0" and "n \<le> n'"
  shows "lock_ok n' s' l"
proof -
  have "card (waiting s' l) \<le> card (waiting s l)"
    using assms(2) by (intro card_mono) auto
  then show ?thesis
    using assms by (auto simp: lock_ok_def split: option.splits)
qed

lemma lock_ok_enter:
  assumes inv: "users_inv n s" and n: "n < 2 ^ 32 - 1"
  shows "lock_ok (Suc n) (futex_enter env ctx s) l"
proof -
  let ?u = "ctx_arg ctx 0" and ?s = "futex_enter env ctx s"
  have ok: "lock_ok n s l" for l using inv by (simp add: users_inv_def)
  show ?thesis
  proof (cases rule: futex_enter_cases [of env ctx s])
    case skip
    show ?thesis unfolding skip by (rule lock_ok_shrink [OF ok]) auto
  next
    case (hit lk)
    note w = waiting_start_update [OF hit(2), simplified]
    show ?thesis
    proof (cases "l = ?u")
      case True
      have lk: "card (waiting s ?u) \<le> unat (user_cnt lk)" "unat (user_cnt lk) \<le> n"
        using ok [of ?u] hit(1) by (simp_all add: lock_ok_def)
      have "bpf_map_lookup_elem (lock_map ?s) ?u = Some (lock_enter lk)"
        using hit by (simp add: map_laws)
      with lk n lock_enter_counts [of lk "Suc n"] card_waiting_grow [OF w(1)] show ?thesis
        by (simp add: lock_ok_def True)
    next
      case False
      show ?thesis
        by (rule lock_ok_shrink [OF ok w(2) [OF False]]) (simp_all add: hit(3) False map_laws)
    qed
  next
    case miss
    note w = waiting_start_update [OF miss(2), simplified]
    show ?thesis
    proof (cases "l = ?u \<and> hash_free (lock_map s) \<noteq> 0")
      case True
      have "waiting s ?u = {}" using ok [of ?u] miss(1) True by (simp add: lock_ok_def)
      then have "card (waiting ?s ?u) \<le> 1" using card_waiting_grow [OF w(1)] by simp
      moreover have "bpf_map_lookup_elem (lock_map ?s) ?u = Some (lock_init ?u)"
        using miss(1) True hash_del.update_room [of "lock_map s" BPF_ANY ?u]
        by (simp add: miss(3) map_laws flag_defs)
      ultimately show ?thesis using True by (simp add: lock_ok_def lock_init_def)
    next
      case False
      show ?thesis
      proof (cases "l = ?u")
        case True
        with False have "lock_map ?s = lock_map s"
          by (simp add: miss(3) hash_del.full_insert_dropped miss(1))
        with False True miss(1) show ?thesis by (simp add: lock_ok_def)
      next
        case False
        show ?thesis
          by (rule lock_ok_shrink [OF ok w(2) [OF False]])
            (simp_all add: miss(3) False map_laws hash_full_update)
      qed
    qed
  qed
qed

lemma lock_ok_exit:
  assumes inv: "users_inv n s"
  shows "lock_ok (Suc n) (futex_exit amd env ret s) l"
proof -
  let ?t = "bpf_get_current_pid_tgid env" and ?s = "futex_exit amd env ret s"
  have ok: "lock_ok n s l" and wf: "hash_wf (start s)" and ready: "args_ready s"
    using inv by (simp_all add: users_inv_def)
  show ?thesis
  proof (cases "bpf_map_lookup_elem (start s) ?t")
    case None
    show ?thesis
      by (rule lock_ok_shrink [OF ok])
        (simp_all add: waiting_def futex_exit_start [OF ready] futex_exit_locks None)
  next
    case (Some vp)
    have st: "start ?s = snd (bpf_map_delete_elem (start s) ?t)"
      by (simp add: futex_exit_start [OF ready] Some)
    have locks: "lock_map ?s = elem_write (lock_map s) (val_uaddr vp) lock_exit"
      by (simp add: futex_exit_locks Some)
    note w = waiting_start_delete [OF wf st]
    show ?thesis
    proof (cases "l = val_uaddr vp")
      case True
      have t: "?t \<in> waiting s l" using Some True by (auto simp: waiting_def)
      then have card: "card (waiting ?s l) = card (waiting s l) - 1" "0 < card (waiting s l)"
        by (auto simp: w card_gt_0_iff)
      show ?thesis
      proof (cases "bpf_map_lookup_elem (lock_map s) l")
        case None
        with t ok have "hash_free (lock_map s) = 0" by (auto simp: lock_ok_def)
        with None show ?thesis by (simp add: lock_ok_def locks True map_laws)
      next
        case (Some lk)
        with ok card have lk: "0 < unat (user_cnt lk)" "card (waiting s l) \<le> unat (user_cnt lk)"
          "unat (user_cnt lk) \<le> n" "user_cnt lk \<le> max_user_cnt lk" by (simp_all add: lock_ok_def)
        have "bpf_map_lookup_elem (lock_map ?s) l = Some (lock_exit lk)"
          using Some by (simp add: locks True map_laws)
        moreover have "unat (user_cnt (lock_exit lk)) = unat (user_cnt lk) - 1"
          using unat_dec [OF lk(1)] by (simp add: lock_exit_def)
        ultimately show ?thesis
          using lk card by (simp add: lock_ok_def lock_exit_def word_le_nat_alt) linarith
      qed
    next
      case False
      show ?thesis
        by (rule lock_ok_shrink [OF ok]) (simp_all add: w locks False map_laws)
    qed
  qed
qed

lemma futex_enter_wf: "hash_wf (start s) \<Longrightarrow> hash_wf (start (futex_enter env ctx s))"
  by (cases rule: futex_enter_cases [of env ctx s]) (simp_all add: map_laws)

lemma futex_exit_wf:
  "args_ready s \<Longrightarrow> hash_wf (start s) \<Longrightarrow> hash_wf (start (futex_exit amd env ret s))"
  by (simp add: futex_exit_start map_laws split: option.split)

lemma users_inv_step: "users_inv n s \<Longrightarrow> n < 2 ^ 32 - 1 \<Longrightarrow> users_inv (Suc n) (futex_step amd e s)"
  by (cases e)
    (auto simp: users_inv_def args_ready_def [of "futex_enter _ _ _"] args_ready_def [of "futex_exit _ _ _ _"]
      args_ready_def [symmetric] intro: futex_enter_wf futex_exit_wf lock_ok_enter lock_ok_exit)

interpretation users: counted_invariant "futex_step amd" users_inv "2 ^ 32 - 1" for amd
  by unfold_locales (rule users_inv_step)

lemma users_inv_init: "users_inv 0 (futex_init args)"
  by (simp add: users_inv_def futex_init_def args_ready_def lock_ok_def waiting_def)

section \<open>Histograms\<close>

lemma slot_of_bound: "unat (slot_of delta) < MAX_SLOTS"
  by (auto simp: slot_of_def Let_def MAX_SLOTS_def word_le_nat_alt not_le)

text \<open>The slot is the floor of the binary logarithm, capped at the last slot.\<close>

lemma slot_of_log: "unat (slot_of delta) = min (MAX_SLOTS - 1) (floorlog 2 (unat delta) - 1)"
  by (auto simp: slot_of_def Let_def MAX_SLOTS_def word_le_nat_alt unat_log2l min_def)

lemma sum_list_inc:
  fixes xs :: "u32 list"
  assumes "i < length xs" and "sum_list (map unat xs) < 2 ^ 32 - 1"
  shows "sum_list (map unat (xs[i := xs ! i + 1])) = Suc (sum_list (map unat xs))"
proof -
  have le: "unat (xs ! i) \<le> sum_list (map unat xs)"
    using assms(1) by (intro member_le_sum_list) auto
  then have "unat (xs ! i + 1) = Suc (unat (xs ! i))"
    using assms(2) unat_inc [of "xs ! i" "2 ^ 32 - 1"] by simp
  then show ?thesis
    using assms(1) le by (simp add: map_update sum_list_update)
qed

text \<open>A histogram after at most \<open>n\<close> waits: its slots add up to its number of waits.\<close>

definition hist_ok :: "nat \<Rightarrow> hist \<Rightarrow> bool" where
  "hist_ok n h \<longleftrightarrow> length (slots h) = MAX_SLOTS \<and>
     sum_list (map unat (slots h)) = unat (contended h) \<and> unat (contended h) \<le> n"

lemma hist_ok_initial: "hist_ok n initial_hist"
  by (simp add: hist_ok_def initial_hist_def sum_list_replicate)

lemma hist_minmax_frame [simp]:
  "slots (hist_minmax amd ts delta h) = slots h"
  "contended (hist_minmax amd ts delta h) = contended h"
  "total_elapsed (hist_minmax amd ts delta h) = total_elapsed h"
  by (simp_all add: hist_minmax_def Let_def)

lemma hist_account_counts [simp]:
  "slots (hist_account amd env ts delta h) =
     (slots h)[unat (slot_of delta) := slots h ! unat (slot_of delta) + 1]"
  "contended (hist_account amd env ts delta h) = contended h + 1"
  "total_elapsed (hist_account amd env ts delta h) = total_elapsed h + delta"
  by (simp_all add: hist_account_def hist_count_def Let_def)

lemma hist_report_frame [simp]:
  "slots (hist_report hkey delta h) = slots h"
  "contended (hist_report hkey delta h) = contended h"
  "total_elapsed (hist_report hkey delta h) = total_elapsed h"
  "min_dur (hist_report hkey delta h) = min_dur h"
  "max_dur (hist_report hkey delta h) = max_dur h"
  by (simp_all add: hist_report_def)

lemma hist_ok_account:
  assumes "hist_ok n h" and "n < 2 ^ 32 - 1"
  shows "hist_ok (Suc n) (hist_account amd env ts delta h)"
proof -
  have "unat (contended h + 1) = Suc (unat (contended h))"
    using assms unat_inc [of "contended h" "2 ^ 32"] by (simp add: hist_ok_def)
  moreover have "sum_list (map unat ((slots h)[unat (slot_of delta) := slots h ! unat (slot_of delta) + 1]))
      = Suc (sum_list (map unat (slots h)))"
    using assms slot_of_bound by (intro sum_list_inc) (auto simp: hist_ok_def)
  ultimately show ?thesis
    using assms by (simp add: hist_ok_def)
qed

text \<open>The element a wait is accounted in: the old one, or a fresh one if the map has room.\<close>

lemma lookup_or_try_init_cases:
  obtains (dropped) "bpf_map_lookup_or_try_init m k i = (None, m)"
    "bpf_map_lookup_elem m k = None" "hash_free m = 0"
  | (found) v where "bpf_map_lookup_or_try_init m k i = (Some v, m)" "bpf_map_lookup_elem m k = Some v"
  | (fresh) m' where "bpf_map_lookup_or_try_init m k i = (Some i, m')"
      "bpf_map_lookup_elem m k = None" "bpf_map_lookup_elem m' = (bpf_map_lookup_elem m)(k := Some i)"
      "0 < hash_free m"
proof (cases "bpf_map_lookup_elem m k")
  case (Some v)
  then show ?thesis by (intro found) (simp_all add: bpf_map_lookup_or_try_init_def)
next
  case None
  note upd = hash.update_ok [of m k i BPF_NOEXIST] hash.update_err [of m k i BPF_NOEXIST]
  show ?thesis
  proof (cases "hash_free m = 0")
    case True
    have "bpf_map_update_elem m k i BPF_NOEXIST = (- E2BIG, m)"
      using None True by (simp add: hash_defs)
    with None True show ?thesis
      by (intro dropped) (simp_all add: bpf_map_lookup_or_try_init_def errno_defs)
  next
    case False
    then have "fst (bpf_map_update_elem m k i BPF_NOEXIST) = 0"
      using None by (intro hash_del.update_room) auto
    with None False upd show ?thesis
      by (intro fresh [of "snd (bpf_map_update_elem m k i BPF_NOEXIST)"])
        (auto simp: bpf_map_lookup_or_try_init_def split: prod.splits)
  qed
qed

text \<open>The histogram the wait is added to, as \<open>bpf_map_lookup_or_try_init\<close> finds it.\<close>

definition prior_hist :: "futex_state \<Rightarrow> hist_key \<Rightarrow> hist" where
  "prior_hist s hkey = (case bpf_map_lookup_elem (hists_map s) hkey of Some h \<Rightarrow> h | None \<Rightarrow> initial_hist)"

lemma futex_record_cases:
  fixes amd env args hkey ts delta s
  defines "d \<equiv> c_sdiv delta 1000"
  defines "h \<equiv> hist_account amd env ts d (prior_hist s hkey)"
  defines "s' \<equiv> futex_record amd env args hkey ts delta s"
  obtains (dropped) "bpf_map_lookup_elem (hists_map s) hkey = None" "hash_free (hists_map s) = 0" "s' = s"
  | (quiet) "\<not> in_window args h d" "perf_out s' = perf_out s"
      "bpf_map_lookup_elem (hists_map s') = (bpf_map_lookup_elem (hists_map s))(hkey := Some h)"
  | (reported) "in_window args h d" "perf_out s' = perf_out s @ [Hist_event (hist_report hkey d h)]"
      "bpf_map_lookup_elem (hists_map s') =
         (bpf_map_lookup_elem (hists_map s))(hkey := Some (hist_report hkey d h))"
proof (cases rule: lookup_or_try_init_cases [of "hists_map s" hkey initial_hist])
  case dropped
  then show ?thesis
    by (intro that(1)) (simp_all add: s'_def futex_record_def Let_def)
next
  case (found v)
  then have h: "h = hist_account amd env ts d v" by (simp add: h_def prior_hist_def)
  show ?thesis
    by (cases "in_window args h d"; rule that)
      (use found h in \<open>auto simp: s'_def futex_record_def Let_def map_laws d_def\<close>)
next
  case (fresh m')
  then have h: "h = hist_account amd env ts d initial_hist" by (simp add: h_def prior_hist_def)
  show ?thesis
    by (cases "in_window args h d"; rule that)
      (use fresh h in \<open>auto simp: s'_def futex_record_def Let_def map_laws d_def\<close>)
qed

section \<open>What leaving a wait does\<close>

definition exit_key :: "bpf_env \<Rightarrow> user_args \<Rightarrow> val_t \<Rightarrow> hist_key" where
  "exit_key env args vp = \<lparr>hkey_pid_tgid = bpf_get_current_pid_tgid env, hkey_uaddr = val_uaddr vp,
     hkey_user_stack_id =
       (if stack args then ucast (bpf_get_stackid env BPF_F_USER_STACK) else 0)\<rparr>"

text \<open>The length of a wait in microseconds.\<close>

definition wait_us :: "bpf_env \<Rightarrow> val_t \<Rightarrow> u64" where
  "wait_us env vp = (env_ktime env - val_ts vp) div 1000"

lemma futex_cleanup_frame [simp]:
  "hists_map (futex_cleanup t s) = hists_map s"
  "perf_out (futex_cleanup t s) = perf_out s"
  by (simp_all add: futex_cleanup_def)

lemma futex_record_hists_cong:
  assumes "hists_map s1 = hists_map s2" and "perf_out s1 = perf_out s2"
  shows "hists_map (futex_record amd env args hkey ts delta s1)
       = hists_map (futex_record amd env args hkey ts delta s2)"
    and "perf_out (futex_record amd env args hkey ts delta s1)
       = perf_out (futex_record amd env args hkey ts delta s2)"
  using assms by (auto simp: futex_record_def Let_def split: option.splits prod.splits)

lemma futex_exit_recorded:
  assumes ready: "args_ready s"
    and vp: "bpf_map_lookup_elem (start s) (bpf_get_current_pid_tgid env) = Some vp"
    and ret: "0 \<le> sint (ucast ret :: s32)"
    and fwd: "0 \<le> sint (env_ktime env - val_ts vp)"
  shows "hists_map (futex_exit amd env ret s) = hists_map (futex_record amd env (args_map s ! 0)
          (exit_key env (args_map s ! 0) vp) (env_ktime env) (env_ktime env - val_ts vp) s)" (is ?hists)
    and "perf_out (futex_exit amd env ret s) = perf_out (futex_record amd env (args_map s ! 0)
          (exit_key env (args_map s ! 0) vp) (env_ktime env) (env_ktime env - val_ts vp) s)" (is ?out)
proof -
  define sl where "sl = (case bpf_map_lookup_elem (lock_map s) (val_uaddr vp) of
      Some lock \<Rightarrow> s\<lparr>lock_map := elem_write (lock_map s) (val_uaddr vp) lock_exit\<rparr> | None \<Rightarrow> s)"
  have sl: "hists_map sl = hists_map s" "perf_out sl = perf_out s" "args_map sl = args_map s"
    by (simp_all add: sl_def split: option.split)
  have "array_lookup_elem (args_map sl) 0 = Some (args_map s ! 0)"
    using args_ready_lookup [OF ready] by (simp add: sl)
  then have "futex_exit amd env ret s = futex_cleanup (bpf_get_current_pid_tgid env)
       (futex_record amd env (args_map s ! 0) (exit_key env (args_map s ! 0) vp) (env_ktime env)
         (env_ktime env - val_ts vp) sl)"
    using ret fwd
    by (simp add: futex_exit_def Let_def vp sl_def [symmetric] bpf_ktime_get_ns_def exit_key_def)
  then show ?hists and ?out by (simp_all add: futex_record_hists_cong [OF sl(1,2)])
qed

lemma futex_exit_cases:
  fixes amd env ret s
  defines "s' \<equiv> futex_exit amd env ret s"
  assumes ready: "args_ready s"
  obtains (ignored) "hists_map s' = hists_map s" "perf_out s' = perf_out s"
  | (recorded) vp where
      "bpf_map_lookup_elem (start s) (bpf_get_current_pid_tgid env) = Some vp"
      "0 \<le> sint (ucast ret :: s32)" "0 \<le> sint (env_ktime env - val_ts vp)"
      "hists_map s' = hists_map (futex_record amd env (args_map s ! 0)
          (exit_key env (args_map s ! 0) vp) (env_ktime env) (env_ktime env - val_ts vp) s)"
      "perf_out s' = perf_out (futex_record amd env (args_map s ! 0)
          (exit_key env (args_map s ! 0) vp) (env_ktime env) (env_ktime env - val_ts vp) s)"
proof (cases "bpf_map_lookup_elem (start s) (bpf_get_current_pid_tgid env)")
  case None
  then show ?thesis by (intro ignored) (simp_all add: s'_def futex_exit_def Let_def)
next
  case (Some vp)
  show ?thesis
  proof (cases "sint (ucast ret :: s32) < 0 \<or> sint (env_ktime env - val_ts vp) < 0")
    case True
    then show ?thesis
      by (intro ignored)
        (auto simp: s'_def futex_exit_def Let_def Some bpf_ktime_get_ns_def split: option.split)
  next
    case False
    then have "0 \<le> sint (ucast ret :: s32)" "0 \<le> sint (env_ktime env - val_ts vp)" by simp_all
    from recorded [OF Some this] futex_exit_recorded [OF ready Some this] show ?thesis
      by (simp add: s'_def)
  qed
qed

text \<open>Invariants of the histograms and of the reports, step by step.\<close>

definition hists_inv :: "nat \<Rightarrow> futex_state \<Rightarrow> bool" where
  "hists_inv n s \<longleftrightarrow> args_ready s \<and>
     (\<forall>k h. bpf_map_lookup_elem (hists_map s) k = Some h \<longrightarrow> hist_ok n h)"

lemma hist_ok_mono: "hist_ok n h \<Longrightarrow> n \<le> n' \<Longrightarrow> hist_ok n' h"
  by (simp add: hist_ok_def)

lemma hist_ok_report [simp]: "hist_ok n (hist_report hkey delta h) = hist_ok n h"
  by (simp add: hist_ok_def)

lemma prior_hist_ok: "hists_inv n s \<Longrightarrow> hist_ok n (prior_hist s k)"
  by (auto simp: hists_inv_def prior_hist_def hist_ok_initial split: option.split)

lemma hists_inv_old:
  "hists_inv n s \<Longrightarrow> bpf_map_lookup_elem (hists_map s) k = Some h \<Longrightarrow> hist_ok (Suc n) h"
  unfolding hists_inv_def by (metis hist_ok_mono le_SucI order_refl)

lemma hists_inv_record:
  assumes "hists_inv n s" and "n < 2 ^ 32 - 1"
  shows "\<forall>k h. bpf_map_lookup_elem (hists_map (futex_record amd env args hkey ts delta s)) k = Some h
           \<longrightarrow> hist_ok (Suc n) h"
proof -
  let ?h = "hist_account amd env ts (c_sdiv delta 1000) (prior_hist s hkey)"
  have new: "hist_ok (Suc n) ?h"
    using prior_hist_ok [OF assms(1)] assms(2) by (rule hist_ok_account)
  have old: "hist_ok (Suc n) h" if "bpf_map_lookup_elem (hists_map s) k = Some h" for k h
    using hists_inv_old [OF assms(1) that] .
  show ?thesis
    by (cases rule: futex_record_cases [where s = s and hkey = hkey and amd = amd and env = env
          and args = args and ts = ts and delta = delta])
      (use new old in auto)
qed

lemma hists_inv_step:
  assumes inv: "hists_inv n s" and n: "n < 2 ^ 32 - 1"
  shows "hists_inv (Suc n) (futex_step amd e s)"
proof -
  have ready: "args_ready s" using inv by (simp add: hists_inv_def)
  have old: "hist_ok (Suc n) h" if "bpf_map_lookup_elem (hists_map s) k = Some h" for k h
    using hists_inv_old [OF inv that] .
  have "hist_ok (Suc n) h" if "bpf_map_lookup_elem (hists_map (futex_step amd e s)) k = Some h" for k h
  proof (cases e)
    case (Enter env ctx)
    with that old show ?thesis by simp
  next
    case (Exit env ret)
    show ?thesis
      by (cases rule: futex_exit_cases [OF ready, of amd env ret])
        (use that old Exit hists_inv_record [OF inv n] in auto)
  qed
  with ready show ?thesis by (simp add: hists_inv_def args_ready_def)
qed

interpretation hists: counted_invariant "futex_step amd" hists_inv "2 ^ 32 - 1" for amd
  by unfold_locales (rule hists_inv_step)

lemma hists_inv_init: "hists_inv 0 (futex_init args)"
  by (simp add: hists_inv_def futex_init_def args_ready_def)

section \<open>The recorded maximum\<close>

text \<open>
  The build line of the \<open>Makefile\<close>: the machine name with \<open>sed\<close>'s substitutions, and the
  macro \<open>-D__TARGET_ARCH_$(ARCH)\<close> it defines.
\<close>

function sed_all :: "string \<Rightarrow> string \<Rightarrow> string \<Rightarrow> string" where
  "sed_all pat rep [] = []"
| "sed_all pat rep (c # cs) =
     (if pat \<noteq> [] \<and> take (length pat) (c # cs) = pat
      then rep @ sed_all pat rep (drop (length pat) (c # cs))
      else c # sed_all pat rep cs)"
  by pat_completeness auto
termination
  by (relation "measure (\<lambda>(pat, rep, s). length s)") auto

definition make_arch :: "string \<Rightarrow> string" where
  "make_arch machine = sed_all ''aarch64'' ''arm64'' (sed_all ''x86_64'' ''x86'' machine)"

definition amd64_defined :: "string \<Rightarrow> bool" where
  "amd64_defined machine \<longleftrightarrow> ''__TARGET_ARCH_'' @ make_arch machine = ''__TARGET_ARCH_amd64''"

lemma amd64_never_defined: "machine \<in> {''x86_64'', ''aarch64''} \<Longrightarrow> \<not> amd64_defined machine"
  by (auto simp: amd64_defined_def make_arch_def)

definition max_zero :: "futex_state \<Rightarrow> bool" where
  "max_zero s \<longleftrightarrow> args_ready s \<and>
     (\<forall>k h. bpf_map_lookup_elem (hists_map s) k = Some h \<longrightarrow> max_dur h = 0)"

lemma max_dur_account: "max_dur (hist_account False env ts d h) = max_dur h"
  by (simp add: hist_account_def hist_minmax_def hist_count_def Let_def)

lemma max_dur_account_amd64: "max_dur (hist_account True env ts d h) = max (max_dur h) d"
  by (auto simp: hist_account_def hist_minmax_def hist_count_def Let_def max_def)

lemma max_zero_record:
  assumes "max_zero s"
  shows "\<forall>k h. bpf_map_lookup_elem (hists_map (futex_record False env args hkey ts delta s)) k = Some h
           \<longrightarrow> max_dur h = 0"
proof -
  have "max_dur (prior_hist s hkey) = 0"
    using assms by (auto simp: max_zero_def prior_hist_def initial_hist_def split: option.split)
  then show ?thesis
    using assms
    by (cases rule: futex_record_cases [where s = s and hkey = hkey and amd = False and env = env
          and args = args and ts = ts and delta = delta])
      (auto simp: max_zero_def max_dur_account)
qed

lemma max_zero_step:
  assumes "max_zero s"
  shows "max_zero (futex_step False e s)"
proof -
  have ready: "args_ready s" using assms by (simp add: max_zero_def)
  have "\<forall>k h. bpf_map_lookup_elem (hists_map (futex_step False e s)) k = Some h \<longrightarrow> max_dur h = 0"
  proof (cases e)
    case (Enter env ctx)
    with assms show ?thesis by (simp add: max_zero_def)
  next
    case (Exit env ret)
    show ?thesis
      by (cases rule: futex_exit_cases [OF ready, of False env ret])
        (use assms Exit max_zero_record [OF assms] in \<open>auto simp: max_zero_def\<close>)
  qed
  with ready show ?thesis by (simp add: max_zero_def args_ready_def)
qed

interpretation maxdur: handler_invariant "futex_step False" max_zero
  by unfold_locales (rule max_zero_step)

lemma max_zero_init: "max_zero (futex_init args)"
  by (simp add: max_zero_def futex_init_def args_ready_def)

section \<open>Properties\<close>

text \<open>A sample thread and a sample wait of 5 ms on lock 64, for the instances below.\<close>

definition sample_env :: "u32 \<Rightarrow> u64 \<Rightarrow> bpf_env" where
  "sample_env tid ts = \<lparr>env_ktime = ts, env_tgid = 7, env_pid = tid, env_comm = [97], env_cpu = 0,
     env_stackid = (\<lambda>_. 0)\<rparr>"

definition sample_args :: user_args where
  "sample_args = \<lparr>targ_pid = 0, targ_tid = 0, targ_lock = 0, stack = False, min_dur_ms = 1000,
     max_dur_ms = 1000000, max_lock_hold_users = 1\<rparr>"

definition sample_run :: "futex_ev list" where
  "sample_run = [Enter (sample_env 8 1000) [64, 128], Enter (sample_env 9 2000) [64, 0],
     Exit (sample_env 8 5001000) 0]"

text \<open>C1. In every run of fewer than \<open>2 ^ 32\<close> events, each a whole handler, the user count of a tracked lock is at
  least the number of threads waiting on it and at most its recorded maximum, and while a thread waits,
  the decrement of \<open>futex_exit\<close> takes exactly one from the count: it never wraps below zero.\<close>

theorem futex_users_cover_waiters:
  assumes "length es < 2 ^ 32"
    and "bpf_map_lookup_elem (lock_map (run (futex_step amd) es (futex_init args))) l = Some lk"
  shows "card (waiting (run (futex_step amd) es (futex_init args)) l) \<le> unat (user_cnt lk) \<and>
         user_cnt lk \<le> max_user_cnt lk \<and>
         (waiting (run (futex_step amd) es (futex_init args)) l \<noteq> {} \<longrightarrow>
            unat (user_cnt (lock_exit lk)) + 1 = unat (user_cnt lk))"
proof -
  let ?w = "waiting (run (futex_step amd) es (futex_init args)) l"
  have "users_inv (0 + length es) (run (futex_step amd) es (futex_init args))"
    using assms(1) by (intro users.run_inv users_inv_init) simp
  then have "lock_ok (length es) (run (futex_step amd) es (futex_init args)) l"
    by (simp add: users_inv_def)
  with assms(2) have ok: "card ?w \<le> unat (user_cnt lk)" "user_cnt lk \<le> max_user_cnt lk"
    by (simp_all add: lock_ok_def)
  have "unat (user_cnt (lock_exit lk)) + 1 = unat (user_cnt lk)" if "?w \<noteq> {}"
  proof -
    have "0 < card ?w" using that by (simp add: card_gt_0_iff)
    then have "0 < unat (user_cnt lk)" using ok(1) by linarith
    then show ?thesis using unat_dec [of "user_cnt lk"] by (simp add: lock_exit_def)
  qed
  with ok show ?thesis by blast
qed

lemmas sample_eval = eval_defs sample_env_def sample_args_def sample_run_def

theorem futex_users_cover_waiters_witness:
  "\<exists>lk. bpf_map_lookup_elem (lock_map (run (futex_step True) sample_run (futex_init sample_args))) 64
        = Some lk \<and> user_cnt lk = 1 \<and> max_user_cnt lk = 2 \<and>
      card (waiting (run (futex_step True) sample_run (futex_init sample_args)) 64) \<le> unat (user_cnt lk)"
proof -
  let ?lk = "\<lparr>user_cnt = 1, max_user_cnt = 2, lock_uaddr = 64, lock_comm = replicate 16 0,
        lock_pid_tgid = 0, lock_ts = 0\<rparr>"
  have lk: "bpf_map_lookup_elem (lock_map (run (futex_step True) sample_run (futex_init sample_args))) 64
     = Some ?lk"
    by (simp add: sample_eval)
  have "length sample_run < 2 ^ 32" by (simp add: sample_run_def)
  from futex_users_cover_waiters [OF this lk] lk show ?thesis by auto
qed

text \<open>C7. In every run of fewer than \<open>2 ^ 32\<close> events each histogram has its 24 slots and the slots add
  up to the number of waits it has recorded: no wait is lost or counted twice.\<close>

theorem futex_slots_add_up:
  assumes "length es < 2 ^ 32"
    and "bpf_map_lookup_elem (hists_map (run (futex_step amd) es (futex_init args))) k = Some h"
  shows "length (slots h) = MAX_SLOTS \<and> sum_list (map unat (slots h)) = unat (contended h)"
proof -
  have "hists_inv (0 + length es) (run (futex_step amd) es (futex_init args))"
    using assms(1) by (intro hists.run_inv hists_inv_init) simp
  with assms(2) show ?thesis by (auto simp: hists_inv_def hist_ok_def)
qed

definition sample_key :: hist_key where
  "sample_key = \<lparr>hkey_pid_tgid = 0x700000008, hkey_uaddr = 64, hkey_user_stack_id = 0\<rparr>"

lemma sample_hist:
  "\<exists>h. bpf_map_lookup_elem (hists_map (run (futex_step False) sample_run (futex_init sample_args)))
         sample_key = Some h \<and> contended h = 1 \<and> total_elapsed h = 5000"
  by (simp add: sample_eval sample_key_def)

theorem futex_slots_add_up_witness:
  "\<exists>h. bpf_map_lookup_elem (hists_map (run (futex_step False) sample_run (futex_init sample_args)))
         sample_key = Some h \<and> sum_list (map unat (slots h)) = 1"
proof -
  obtain h where h: "bpf_map_lookup_elem
      (hists_map (run (futex_step False) sample_run (futex_init sample_args))) sample_key = Some h"
    and c: "contended h = 1"
    using sample_hist by blast
  have "length sample_run < 2 ^ 32" by (simp add: sample_run_def)
  from futex_slots_add_up [OF this h] h c show ?thesis by auto
qed

text \<open>C23. Leaving a traced wait without error adds it to exactly one histogram: one slot, the one of
  the binary logarithm of the wait in microseconds (the last slot for longer waits), one more
  wait, the wait added to the total, every other histogram untouched, and the thread's start
  entry removed.\<close>

theorem futex_exit_records_wait:
  assumes ready: "args_ready s" and wf: "hash_wf (start s)"
    and vp: "bpf_map_lookup_elem (start s) (bpf_get_current_pid_tgid env) = Some vp"
    and ret: "0 \<le> sint (ucast ret :: s32)"
    and fwd: "0 \<le> sint (env_ktime env - val_ts vp)"
    and room: "bpf_map_lookup_elem (hists_map s) (exit_key env (args_map s ! 0) vp) \<noteq> None \<or>
               0 < hash_free (hists_map s)"
  shows "\<exists>h. bpf_map_lookup_elem (hists_map (futex_exit amd env ret s)) =
             (bpf_map_lookup_elem (hists_map s))(exit_key env (args_map s ! 0) vp := Some h) \<and>
           slots h = (let p = prior_hist s (exit_key env (args_map s ! 0) vp);
                          i = min (MAX_SLOTS - 1) (floorlog 2 (unat (wait_us env vp)) - 1)
                      in (slots p)[i := slots p ! i + 1]) \<and>
           contended h = contended (prior_hist s (exit_key env (args_map s ! 0) vp)) + 1 \<and>
           total_elapsed h =
             total_elapsed (prior_hist s (exit_key env (args_map s ! 0) vp)) + wait_us env vp \<and>
           bpf_map_lookup_elem (start (futex_exit amd env ret s)) (bpf_get_current_pid_tgid env) = None"
proof -
  let ?k = "exit_key env (args_map s ! 0) vp" and ?delta = "env_ktime env - val_ts vp"
  let ?h = "hist_account amd env (env_ktime env) (wait_us env vp) (prior_hist s ?k)"
  have d: "c_sdiv ?delta 1000 = wait_us env vp"
    using fwd by (simp add: c_sdiv_nonneg wait_us_def)
  have "start (futex_exit amd env ret s) = snd (bpf_map_delete_elem (start s) (bpf_get_current_pid_tgid env))"
    by (simp add: futex_exit_start [OF ready] vp)
  then have gone: "bpf_map_lookup_elem (start (futex_exit amd env ret s)) (bpf_get_current_pid_tgid env) = None"
    using wf by (simp add: hash_del.lookup_delete_same)
  have hm: "hists_map (futex_exit amd env ret s) =
      hists_map (futex_record amd env (args_map s ! 0) ?k (env_ktime env) ?delta s)"
    by (rule futex_exit_recorded(1) [OF ready vp ret fwd])
  show ?thesis
  proof (cases rule: futex_record_cases [where s = s and hkey = ?k and amd = amd and env = env
        and args = "args_map s ! 0" and ts = "env_ktime env" and delta = ?delta])
    case dropped
    with room show ?thesis by simp
  next
    case quiet
    with gone show ?thesis by (auto simp: hm d slot_of_log Let_def)
  next
    case reported
    with gone show ?thesis by (auto simp: hm d slot_of_log Let_def)
  qed
qed

definition sample_wait :: futex_state where
  "sample_wait = futex_enter (sample_env 8 1000) [64, 128] (futex_init sample_args)"

theorem futex_exit_records_wait_witness:
  "\<exists>h. bpf_map_lookup_elem (hists_map (futex_exit True (sample_env 8 5001000) 0 sample_wait)) sample_key
         = Some h \<and> contended h = 1 \<and> total_elapsed h = 5000"
proof -
  let ?env = "sample_env 8 5001000" and ?vp = "\<lparr>val_ts = 1000, val_uaddr = 64\<rparr>"
  have args: "args_map sample_wait ! 0 = sample_args" and ready: "args_ready sample_wait"
    by (simp_all add: sample_wait_def futex_init_def args_ready_def)
  have wf: "hash_wf (start sample_wait)"
    unfolding sample_wait_def by (rule futex_enter_wf) (simp add: futex_init_def)
  have vp: "bpf_map_lookup_elem (start sample_wait) (bpf_get_current_pid_tgid ?env) = Some ?vp"
    by (simp add: sample_wait_def sample_eval)
  have hm: "hists_map sample_wait = hash_empty MAX_ENTRIES"
    by (simp add: sample_wait_def futex_init_def)
  have key: "exit_key ?env sample_args ?vp = sample_key"
    by (simp add: exit_key_def sample_key_def sample_env_def sample_args_def bpf_get_current_pid_tgid_def)
  have "0 \<le> sint (ucast (0 :: s64) :: s32)" "0 \<le> sint (env_ktime ?env - val_ts ?vp)"
    by (simp_all add: sample_env_def)
  moreover have "bpf_map_lookup_elem (hists_map sample_wait) (exit_key ?env (args_map sample_wait ! 0) ?vp) \<noteq> None
      \<or> 0 < hash_free (hists_map sample_wait)"
    by (simp add: hm MAX_ENTRIES_def)
  moreover have "prior_hist sample_wait sample_key = initial_hist" "wait_us ?env ?vp = 5000"
    by (simp_all add: prior_hist_def hm wait_us_def sample_env_def)
  ultimately show ?thesis
    using futex_exit_records_wait [OF ready wf vp, of 0 True]
    by (auto simp: args key initial_hist_def)
qed

text \<open>The maximum is never recorded by any build of the \<open>Makefile\<close>: the branch that swaps it in is
  compiled only under \<open>__TARGET_ARCH_amd64\<close>, which neither an x86-64 nor an arm64 build
  defines, and the other branch stores the old value back, so \<open>max_dur\<close> stays zero in every
  histogram of every run.\<close>

theorem futex_max_dur_never_recorded:
  assumes "machine \<in> {''x86_64'', ''aarch64''}"
    and "bpf_map_lookup_elem
           (hists_map (run (futex_step (amd64_defined machine)) es (futex_init args))) k = Some h"
  shows "max_dur h = 0"
  using assms(2) maxdur.run_inv [OF max_zero_init, of es args] amd64_never_defined [OF assms(1)]
  by (simp add: max_zero_def)

theorem futex_max_dur_never_recorded_witness:
  "\<exists>h. bpf_map_lookup_elem (hists_map (run (futex_step (amd64_defined ''x86_64'')) sample_run
          (futex_init sample_args))) sample_key = Some h \<and> contended h = 1 \<and> max_dur h = 0"
proof -
  obtain h where h: "bpf_map_lookup_elem
      (hists_map (run (futex_step False) sample_run (futex_init sample_args))) sample_key = Some h"
    and c: "contended h = 1"
    using sample_hist by blast
  have m: "''x86_64'' \<in> {''x86_64'', ''aarch64''}" by simp
  from h have "bpf_map_lookup_elem (hists_map (run (futex_step (amd64_defined ''x86_64'')) sample_run
          (futex_init sample_args))) sample_key = Some h"
    by (simp add: amd64_never_defined)
  with futex_max_dur_never_recorded [OF m this] c show ?thesis by blast
qed

text \<open>A traced wait is balanced: when a thread enters a wait on a lock that is already tracked and
  leaves it again, the lock's user count is back to what it was and its maximum has not
  dropped.\<close>

theorem futex_enter_exit_balanced:
  assumes ready: "args_ready s" and wf: "hash_wf (start s)" and room: "0 < hash_free (start s)"
    and fresh: "bpf_map_lookup_elem (start s) (bpf_get_current_pid_tgid env) = None"
    and cmd: "ucast (ctx_arg ctx 1) AND FUTEX_CMD_MASK = FUTEX_WAIT"
    and pass: "\<not> futex_filtered (args_map s ! 0) (env_tgid env) (env_pid env) (ctx_arg ctx 0)"
    and lk: "bpf_map_lookup_elem (lock_map s) (ctx_arg ctx 0) = Some lk"
    and same: "bpf_get_current_pid_tgid env' = bpf_get_current_pid_tgid env"
  shows "\<exists>lk'. bpf_map_lookup_elem (lock_map (futex_exit amd env' ret (futex_enter env ctx s))) (ctx_arg ctx 0)
           = Some lk' \<and> user_cnt lk' = user_cnt lk \<and> max_user_cnt lk \<le> max_user_cnt lk'"
proof -
  let ?v = "\<lparr>val_ts = bpf_ktime_get_ns env, val_uaddr = ctx_arg ctx 0\<rparr>"
  have a: "array_lookup_elem (args_map s) 0 = Some (args_map s ! 0)" by (rule args_ready_lookup [OF ready])
  have st: "start (futex_enter env ctx s) =
      snd (bpf_map_update_elem (start s) (bpf_get_current_pid_tgid env) ?v BPF_ANY)"
    and lm: "lock_map (futex_enter env ctx s) = elem_write (lock_map s) (ctx_arg ctx 0) lock_enter"
    using cmd pass lk by (simp_all add: futex_enter_def a Let_def)
  have "bpf_map_lookup_elem (start (futex_enter env ctx s)) (bpf_get_current_pid_tgid env') = Some ?v"
    using hash_del.update_room [OF room _ fresh, of BPF_ANY ?v]
    by (simp add: st same map_laws flag_defs)
  then have "bpf_map_lookup_elem (lock_map (futex_exit amd env' ret (futex_enter env ctx s))) (ctx_arg ctx 0)
      = Some (lock_exit (lock_enter lk))"
    by (simp add: futex_exit_locks lm lk map_laws)
  moreover have "user_cnt (lock_exit (lock_enter lk)) = user_cnt lk"
    "max_user_cnt lk \<le> max_user_cnt (lock_exit (lock_enter lk))"
    by (auto simp: lock_exit_def lock_enter_def Let_def)
  ultimately show ?thesis by blast
qed

theorem futex_enter_exit_balanced_witness:
  "\<exists>lk'. bpf_map_lookup_elem (lock_map (futex_exit True (sample_env 9 3000) 0
           (futex_enter (sample_env 9 2000) [64, 0] sample_wait))) 64 = Some lk' \<and> user_cnt lk' = 1"
proof -
  let ?lk = "lock_init 64"
  have ready: "args_ready sample_wait" and args: "args_map sample_wait ! 0 = sample_args"
    by (simp_all add: sample_wait_def futex_init_def args_ready_def)
  have wf: "hash_wf (start sample_wait)"
    unfolding sample_wait_def by (rule futex_enter_wf) (simp add: futex_init_def)
  have room: "0 < hash_free (start sample_wait)"
    and fresh: "bpf_map_lookup_elem (start sample_wait) (bpf_get_current_pid_tgid (sample_env 9 2000)) = None"
    and lk: "bpf_map_lookup_elem (lock_map sample_wait) (ctx_arg [64, 0] 0) = Some ?lk"
    by (simp_all add: sample_wait_def sample_eval)
  have cmd: "ucast (ctx_arg [64, 0] 1) AND FUTEX_CMD_MASK = FUTEX_WAIT"
    by (simp add: ctx_arg_def FUTEX_WAIT_def)
  have pass: "\<not> futex_filtered (args_map sample_wait ! 0) (env_tgid (sample_env 9 2000))
      (env_pid (sample_env 9 2000)) (ctx_arg [64, 0] 0)"
    by (simp add: args futex_filtered_def sample_args_def)
  have same: "bpf_get_current_pid_tgid (sample_env 9 3000) = bpf_get_current_pid_tgid (sample_env 9 2000)"
    by (simp add: pid_tgid_inject sample_env_def)
  from futex_enter_exit_balanced [OF ready wf room fresh cmd pass lk same, of True 0]
  show ?thesis by (auto simp: ctx_arg_def lock_init_def)
qed

text \<open>A pid filter of \<open>-1\<close>, which the command line documents as ``trace all pids'', traces no
  process at all: the handler leaves the state untouched for every task whose pid is not the
  unsigned \<open>2 ^ 32 - 1\<close>.\<close>

theorem futex_minus_one_traces_nothing:
  assumes "args_ready s" and "targ_pid (args_map s ! 0) = minus1" and "env_tgid env \<noteq> minus1"
  shows "futex_enter env ctx s = s"
proof -
  have "array_lookup_elem (args_map s) 0 = Some (args_map s ! 0)" by (rule args_ready_lookup [OF assms(1)])
  with assms(2,3) show ?thesis by (auto simp: futex_enter_def Let_def futex_filtered_def)
qed

theorem futex_minus_one_traces_nothing_witness:
  "futex_enter (sample_env 8 1000) [64, 128] (futex_init (sample_args\<lparr>targ_pid := minus1\<rparr>))
     = futex_init (sample_args\<lparr>targ_pid := minus1\<rparr>)"
  by (rule futex_minus_one_traces_nothing)
    (simp_all add: args_ready_def futex_init_def sample_env_def)

end
