(* ===== verification/Offcpu.thy ===== *)
theory Offcpu
  imports Bpf_Map Bpf_Env
begin

text \<open>
  The scheduling delay tracer \<open>offcpu.bpf.c\<close>: the wake-up hook, the context-switch hook, and
  the per-processor ring of recently descheduled tasks. The lemmas show what an emitted
  event says, that the ring holds the last 512 switches of its processor in order, and that
  the start map is keyed by the target's own pid. A hook runs to completion before the next.
\<close>

section \<open>Data\<close>

definition MAX_ENTRIES :: nat where "MAX_ENTRIES = 10240"
definition SCHED_CACHE_SIZE :: nat where "SCHED_CACHE_SIZE = 512"
definition SCHED_CACHE_RECORD_ON :: u32 where "SCHED_CACHE_RECORD_ON = 0"
definition SCHED_CACHE_RECORD_OFF :: u32 where "SCHED_CACHE_RECORD_OFF = 1"

record pid_info =
  pi_pid :: u32
  pi_tgid :: u32

record user_args =
  arg_pid :: u32
  arg_tgid :: u32
  min_offcpu_ms :: u32
  max_offcpu_ms :: u32
  rq_dur_ms :: u32

record waker_t =
  waker_pid :: u32
  waker_tgid :: u32
  waker_t_pid :: u32
  waker_pad :: u32
  waker_t_comm :: bytes
  waker_user_stack_id :: s32
  waker_kern_stack_id :: s32
  waker_comm :: bytes
  waker_oncpu_ns :: u64
  waker_offcpu_ns :: u64
  waker_onrq_ns :: u64
  waker_offcpu_id :: u32
  waker_oncpu_id :: u32
  waker_run_delay_ns :: u64

record target_t =
  target_pid :: u32
  target_tgid :: u32
  target_w_pid :: u32
  target_pad :: u32
  target_w_comm :: bytes
  target_user_stack_id :: s32
  target_kern_stack_id :: s32
  target_comm :: bytes
  target_oncpu_ns :: u64
  target_offcpu_ns :: u64
  target_onrq_ns :: u64
  target_offcpu_id :: u32
  target_oncpu_id :: u32
  target_run_delay_ns :: u64

record perf_event_t =
  pe_waker :: waker_t
  pe_target :: target_t
  pe_dur_ms :: u64
  pe_rq_dur_ms :: u64
  pe_ts_ns :: u64
  pe_is_sched_cache_dump :: u32
  pe_cpu :: u32

record trace_event_t =
  te_waker :: waker_t
  te_target :: target_t

record sched_record =
  sr_pid :: u32
  sr_prio :: u32
  sr_comm :: bytes
  sr_ts :: u64

record sched_cached =
  sc_status :: u32
  sc_cpu :: u32
  sc_id :: u32
  sc_pad :: u32
  sc_records :: "sched_record list"

text \<open>
  A kernel task as the hooks read it. A field holds what the read returns. The state is
  read through \<open>task_struct___new\<close> when the running kernel has the field \<open>__state\<close>, and
  through \<open>task_struct___old\<close> otherwise.
\<close>

record task_struct =
  task_pid :: u32
  task_tgid :: u32
  task_on_rq :: s32
  task___state :: "u64 option"
  task_state :: u64
  task_comm :: bytes
  task_prio :: u32
  task_run_delay :: u64

record offcpu_state =
  start :: "(u32, trace_event_t) bpf_hash"
  sched_cache_map :: "sched_cached percpu_array"
  perf_event_cache_map :: "perf_event_t percpu_array"
  sched_cache_backup_map :: "(u32, sched_cached) bpf_hash"
  args_map :: "user_args bpf_array"
  perf_out :: "perf_event_t list"

section \<open>Zero-initialised structs\<close>

definition zero_waker :: waker_t where
  "zero_waker = \<lparr>waker_pid = 0, waker_tgid = 0, waker_t_pid = 0, waker_pad = 0,
     waker_t_comm = replicate TASK_COMM_LEN 0, waker_user_stack_id = 0, waker_kern_stack_id = 0,
     waker_comm = replicate TASK_COMM_LEN 0, waker_oncpu_ns = 0, waker_offcpu_ns = 0,
     waker_onrq_ns = 0, waker_offcpu_id = 0, waker_oncpu_id = 0, waker_run_delay_ns = 0\<rparr>"

definition zero_target :: target_t where
  "zero_target = \<lparr>target_pid = 0, target_tgid = 0, target_w_pid = 0, target_pad = 0,
     target_w_comm = replicate TASK_COMM_LEN 0, target_user_stack_id = 0, target_kern_stack_id = 0,
     target_comm = replicate TASK_COMM_LEN 0, target_oncpu_ns = 0, target_offcpu_ns = 0,
     target_onrq_ns = 0, target_offcpu_id = 0, target_oncpu_id = 0, target_run_delay_ns = 0\<rparr>"

definition zero_event :: trace_event_t where
  "zero_event = \<lparr>te_waker = zero_waker, te_target = zero_target\<rparr>"

definition zero_perf :: perf_event_t where
  "zero_perf = \<lparr>pe_waker = zero_waker, pe_target = zero_target, pe_dur_ms = 0, pe_rq_dur_ms = 0,
     pe_ts_ns = 0, pe_is_sched_cache_dump = 0, pe_cpu = 0\<rparr>"

definition zero_record :: sched_record where
  "zero_record = \<lparr>sr_pid = 0, sr_prio = 0, sr_comm = replicate TASK_COMM_LEN 0, sr_ts = 0\<rparr>"

definition zero_cache :: sched_cached where
  "zero_cache = \<lparr>sc_status = 0, sc_cpu = 0, sc_id = 0, sc_pad = 0,
     sc_records = replicate SCHED_CACHE_SIZE zero_record\<rparr>"

definition zero_args :: user_args where
  "zero_args = \<lparr>arg_pid = 0, arg_tgid = 0, min_offcpu_ms = 0, max_offcpu_ms = 0, rq_dur_ms = 0\<rparr>"

definition offcpu_init :: "user_args \<Rightarrow> offcpu_state" where
  "offcpu_init args = \<lparr>start = hash_empty MAX_ENTRIES, sched_cache_map = (\<lambda>_. [zero_cache]),
     perf_event_cache_map = (\<lambda>_. [zero_perf]), sched_cache_backup_map = hash_empty 1024,
     args_map = args # replicate 7 zero_args, perf_out = []\<rparr>"

section \<open>Hooks\<close>

definition is_target_task :: "offcpu_state \<Rightarrow> u32 \<Rightarrow> u32 \<Rightarrow> bool" where
  "is_target_task s tgid pid =
     (case array_lookup_elem (args_map s) 0 of
        None \<Rightarrow> True
      | Some args \<Rightarrow>
          if arg_tgid args = minus1 \<and> arg_pid args = minus1 then True
          else if arg_tgid args \<noteq> minus1 \<and> arg_tgid args = tgid then True
          else if arg_pid args \<noteq> minus1 \<and> arg_pid args = pid then True
          else False)"

definition get_task_state :: "task_struct \<Rightarrow> s32" where
  "get_task_state t =
     (case task___state t of Some st \<Rightarrow> ucast st | None \<Rightarrow> ucast (task_state t))"

text \<open>The waker fields that both branches of the wake-up hook store.\<close>

definition set_waker :: "bpf_env \<Rightarrow> trace_event_t \<Rightarrow> trace_event_t" where
  "set_waker env ep =
     (let pid_tgid = bpf_get_current_pid_tgid env; ts = bpf_ktime_get_ns env
      in ep\<lparr>te_waker := (te_waker ep)
              \<lparr>waker_pid := tid_of pid_tgid, waker_tgid := tgid_of pid_tgid,
               waker_comm := bpf_get_current_comm TASK_COMM_LEN env,
               waker_kern_stack_id := ucast (bpf_get_stackid env BPF_F_FAST_STACK_CMP),
               waker_user_stack_id :=
                 ucast (bpf_get_stackid env (BPF_F_USER_STACK OR BPF_F_FAST_STACK_CMP)),
               waker_offcpu_ns := ts\<rparr>,
            te_target := (te_target ep)\<lparr>target_onrq_ns := ts\<rparr>\<rparr>)"

definition try_to_wake_up_hook ::
    "bpf_env \<Rightarrow> task_struct \<Rightarrow> s32 \<Rightarrow> offcpu_state \<Rightarrow> offcpu_state" where
  "try_to_wake_up_hook env task state s =
     (if get_task_state task AND state = 0 \<or> task_on_rq task = 1 then s
      else if \<not> is_target_task s (task_tgid task) (task_pid task) then s
      else
        let event = zero_event\<lparr>te_target := zero_target
              \<lparr>target_pid := task_pid task, target_tgid := task_tgid task,
               target_comm := fill_buf TASK_COMM_LEN (task_comm task)\<rparr>\<rparr>
        in case bpf_map_lookup_elem (start s) (task_pid task) of
          Some ep \<Rightarrow> s\<lparr>start := elem_write (start s) (task_pid task) (set_waker env)\<rparr>
        | None \<Rightarrow>
            let event = set_waker env event;
                event = event\<lparr>te_waker := (te_waker event)
                  \<lparr>waker_t_pid := task_pid task,
                   waker_t_comm := fill_buf TASK_COMM_LEN (task_comm task)\<rparr>\<rparr>
            in s\<lparr>start := snd (bpf_map_update_elem (start s) (task_pid task) event BPF_ANY)\<rparr>)"

definition sched_cache_dump :: "u32 \<Rightarrow> offcpu_state \<Rightarrow> offcpu_state" where
  "sched_cache_dump cpu s =
     (case percpu_lookup_elem (sched_cache_map s) cpu 0 of
        None \<Rightarrow> s
      | Some cache \<Rightarrow>
          let cache = cache\<lparr>sc_status := SCHED_CACHE_RECORD_OFF\<rparr>
          in s\<lparr>sched_cache_backup_map :=
                 snd (bpf_map_update_elem (sched_cache_backup_map s) cpu cache BPF_ANY),
               sched_cache_map := percpu_elem_write (sched_cache_map s) cpu 0
                 (\<lambda>_. cache\<lparr>sc_status := SCHED_CACHE_RECORD_ON\<rparr>)\<rparr>)"

definition task_record :: "task_struct \<Rightarrow> u64 \<Rightarrow> sched_record" where
  "task_record p ts = \<lparr>sr_pid = task_pid p, sr_prio = task_prio p,
     sr_comm = fill_buf TASK_COMM_LEN (task_comm p), sr_ts = ts\<rparr>"

text \<open>The stores of \<open>sched_cache_update\<close> into the processor's cache element.\<close>

definition cache_push :: "task_struct \<Rightarrow> u64 \<Rightarrow> u32 \<Rightarrow> sched_cached \<Rightarrow> sched_cached" where
  "cache_push p ts cpu cache =
     (let i = sc_id cache mod of_nat SCHED_CACHE_SIZE
      in if i < of_nat SCHED_CACHE_SIZE \<and> sc_status cache = SCHED_CACHE_RECORD_ON
         then cache\<lparr>sc_cpu := cpu, sc_records := (sc_records cache)[unat i := task_record p ts],
                sc_id := sc_id cache + 1\<rparr>
         else cache)"

definition sched_cache_update :: "task_struct \<Rightarrow> u64 \<Rightarrow> u32 \<Rightarrow> offcpu_state \<Rightarrow> offcpu_state" where
  "sched_cache_update p ts cpu s =
     (case percpu_lookup_elem (sched_cache_map s) cpu 0 of
        None \<Rightarrow> s
      | Some cache \<Rightarrow>
          s\<lparr>sched_cache_map := percpu_elem_write (sched_cache_map s) cpu 0 (cache_push p ts cpu)\<rparr>)"

definition update_new_task_info :: "u64 \<Rightarrow> u32 \<Rightarrow> task_struct \<Rightarrow> offcpu_state \<Rightarrow> offcpu_state" where
  "update_new_task_info ts cpu task s =
     (let event = zero_event\<lparr>te_target := zero_target
            \<lparr>target_offcpu_ns := ts, target_offcpu_id := cpu, target_pid := task_pid task,
             target_tgid := task_tgid task,
             target_comm := fill_buf TASK_COMM_LEN (task_comm task),
             target_run_delay_ns := task_run_delay task\<rparr>\<rparr>
      in s\<lparr>start := snd (bpf_map_update_elem (start s) (task_pid task) event BPF_ANY)\<rparr>)"

text \<open>The first half of the switch hook: the task that leaves the processor.\<close>

definition record_prev :: "bpf_env \<Rightarrow> task_struct \<Rightarrow> offcpu_state \<Rightarrow> offcpu_state" where
  "record_prev env pre_task s =
     (let curr_ts = bpf_ktime_get_ns env; cpu_id = bpf_get_smp_processor_id env
      in if is_target_task s (task_tgid pre_task) (task_pid pre_task)
         then case bpf_map_lookup_elem (start s) (task_pid pre_task) of
             None \<Rightarrow> update_new_task_info curr_ts cpu_id pre_task s
           | Some ep \<Rightarrow> s\<lparr>start := elem_write (start s) (task_pid pre_task)
               (\<lambda>ep. ep\<lparr>te_target := (te_target ep)\<lparr>target_offcpu_ns := curr_ts,
                  target_offcpu_id := cpu_id, target_run_delay_ns := task_run_delay pre_task\<rparr>\<rparr>)\<rparr>
         else s)"

definition offcpu_delta :: "u64 \<Rightarrow> u64 \<Rightarrow> s32" where
  "offcpu_delta curr_ts offcpu_ns = ucast ((curr_ts - offcpu_ns) div 1000000)"

text \<open>The event assembled in the per-processor scratch element, before the dump decision.\<close>

definition fill_perf_event ::
    "bpf_env \<Rightarrow> trace_event_t \<Rightarrow> s32 \<Rightarrow> s32 \<Rightarrow> perf_event_t \<Rightarrow> perf_event_t" where
  "fill_perf_event env ep delta runq_dur pe =
     pe\<lparr>pe_target := (te_target ep)
          \<lparr>target_kern_stack_id := ucast (bpf_get_stackid env BPF_F_FAST_STACK_CMP),
           target_user_stack_id :=
             ucast (bpf_get_stackid env (BPF_F_USER_STACK OR BPF_F_FAST_STACK_CMP)),
           target_comm := bpf_get_current_comm TASK_COMM_LEN env\<rparr>,
        pe_waker := te_waker ep, pe_ts_ns := bpf_ktime_get_ns env,
        pe_dur_ms := scast delta, pe_rq_dur_ms := scast runq_dur\<rparr>"

text \<open>The second half of the switch hook: the task that gets the processor.\<close>

definition record_cur :: "bpf_env \<Rightarrow> user_args \<Rightarrow> task_struct \<Rightarrow> offcpu_state \<Rightarrow> offcpu_state" where
  "record_cur env args cur_task s =
     (let curr_ts = bpf_ktime_get_ns env; cpu_id = bpf_get_smp_processor_id env;
          pid = task_pid cur_task; run_delay = task_run_delay cur_task
      in if \<not> is_target_task s (task_tgid cur_task) pid then s
         else case bpf_map_lookup_elem (start s) pid of
           None \<Rightarrow> s
         | Some ep \<Rightarrow>
             let ep = ep\<lparr>te_target := (te_target ep)\<lparr>target_oncpu_id := cpu_id,
                        target_oncpu_ns := curr_ts\<rparr>\<rparr>;
                 s = s\<lparr>start := elem_write (start s) pid (\<lambda>_. ep)\<rparr>;
                 delta = offcpu_delta curr_ts (target_offcpu_ns (te_target ep));
                 done = (\<lambda>s. s\<lparr>start := elem_write (start s) pid
                   (\<lambda>ep. ep\<lparr>te_target := (te_target ep)\<lparr>target_run_delay_ns := run_delay\<rparr>\<rparr>)\<rparr>)
             in if min_offcpu_ms args \<le> delta \<and> delta \<le> max_offcpu_ms args
                   \<and> target_offcpu_ns (te_target ep) \<noteq> 0
                then case percpu_lookup_elem (perf_event_cache_map s) cpu_id 0 of
                    None \<Rightarrow> s
                  | Some pe \<Rightarrow>
                      let runq_dur = ucast ((run_delay - target_run_delay_ns (te_target ep)) div 1000000);
                          pe = fill_perf_event env ep delta runq_dur pe;
                          dump = (runq_dur > rq_dur_ms args \<and> rq_dur_ms args \<noteq> 0);
                          s = (if dump then sched_cache_dump cpu_id s else s);
                          pe = (if dump then pe\<lparr>pe_is_sched_cache_dump := 1, pe_cpu := cpu_id\<rparr> else pe)
                      in done (s\<lparr>perf_event_cache_map :=
                             percpu_elem_write (perf_event_cache_map s) cpu_id 0 (\<lambda>_. pe),
                           perf_out := perf_out s @ [pe]\<rparr>)
                else done s)"

definition sched_switch_hook ::
    "bpf_env \<Rightarrow> task_struct \<Rightarrow> task_struct \<Rightarrow> offcpu_state \<Rightarrow> offcpu_state" where
  "sched_switch_hook env cur_task pre_task s =
     (case array_lookup_elem (args_map s) 0 of
        None \<Rightarrow> s
      | Some args \<Rightarrow>
          let s = (if rq_dur_ms args \<noteq> 0
                   then sched_cache_update pre_task (bpf_ktime_get_ns env)
                     (bpf_get_smp_processor_id env) s
                   else s)
          in record_cur env args cur_task (record_prev env pre_task s))"

datatype offcpu_ev =
    Wakeup bpf_env task_struct s32
  | Switch bpf_env task_struct task_struct

fun offcpu_step :: "offcpu_ev \<Rightarrow> offcpu_state \<Rightarrow> offcpu_state" where
  "offcpu_step (Wakeup env task state) s = try_to_wake_up_hook env task state s"
| "offcpu_step (Switch env cur_task pre_task) s = sched_switch_hook env cur_task pre_task s"

lemmas [eval_defs] = MAX_ENTRIES_def SCHED_CACHE_SIZE_def SCHED_CACHE_RECORD_ON_def
  SCHED_CACHE_RECORD_OFF_def zero_waker_def zero_target_def zero_event_def zero_perf_def
  zero_args_def offcpu_init_def is_target_task_def get_task_state_def
  set_waker_def try_to_wake_up_hook_def sched_cache_dump_def task_record_def cache_push_def
  sched_cache_update_def update_new_task_info_def record_prev_def offcpu_delta_def
  fill_perf_event_def record_cur_def sched_switch_hook_def

section \<open>The parts of the state a hook changes\<close>

text \<open>The slots of array maps exist from the start.\<close>

definition slots_ready :: "offcpu_state \<Rightarrow> bool" where
  "slots_ready s \<longleftrightarrow> length (args_map s) = 8 \<and> (\<forall>c. length (sched_cache_map s c) = 1) \<and>
     (\<forall>c. length (perf_event_cache_map s c) = 1)"

lemma slots_lookup:
  assumes "slots_ready s"
  shows "array_lookup_elem (args_map s) 0 = Some (args_map s ! 0)"
    and "percpu_lookup_elem (sched_cache_map s) c 0 = Some (sched_cache_map s c ! 0)"
    and "percpu_lookup_elem (perf_event_cache_map s) c 0 = Some (perf_event_cache_map s c ! 0)"
  using assms by (simp_all add: slots_ready_def array_lookup_elem_def percpu_lookup_elem_def)

lemma is_target_ready:
  assumes "slots_ready s"
  shows "is_target_task s tgid pid \<longleftrightarrow>
     arg_tgid (args_map s ! 0) = minus1 \<and> arg_pid (args_map s ! 0) = minus1 \<or>
     arg_tgid (args_map s ! 0) \<noteq> minus1 \<and> arg_tgid (args_map s ! 0) = tgid \<or>
     arg_pid (args_map s ! 0) \<noteq> minus1 \<and> arg_pid (args_map s ! 0) = pid"
  using slots_lookup(1) [OF assms] by (auto simp: is_target_task_def)

lemma is_target_cong: "args_map s = args_map t \<Longrightarrow> is_target_task s = is_target_task t"
  by (intro ext) (simp add: is_target_task_def)

lemma wake_frame [simp]:
  "args_map (try_to_wake_up_hook env t st s) = args_map s"
  "sched_cache_map (try_to_wake_up_hook env t st s) = sched_cache_map s"
  "perf_event_cache_map (try_to_wake_up_hook env t st s) = perf_event_cache_map s"
  "perf_out (try_to_wake_up_hook env t st s) = perf_out s"
  by (auto simp: try_to_wake_up_hook_def Let_def split: option.splits)

lemma cache_update_frame [simp]:
  "args_map (sched_cache_update t ts c s) = args_map s"
  "start (sched_cache_update t ts c s) = start s"
  "perf_event_cache_map (sched_cache_update t ts c s) = perf_event_cache_map s"
  "perf_out (sched_cache_update t ts c s) = perf_out s"
  by (auto simp: sched_cache_update_def split: option.splits)

lemma cache_dump_frame [simp]:
  "args_map (sched_cache_dump c s) = args_map s"
  "start (sched_cache_dump c s) = start s"
  "perf_event_cache_map (sched_cache_dump c s) = perf_event_cache_map s"
  "perf_out (sched_cache_dump c s) = perf_out s"
  by (auto simp: sched_cache_dump_def Let_def split: option.splits)

lemma record_prev_frame [simp]:
  "args_map (record_prev env t s) = args_map s"
  "sched_cache_map (record_prev env t s) = sched_cache_map s"
  "perf_event_cache_map (record_prev env t s) = perf_event_cache_map s"
  "perf_out (record_prev env t s) = perf_out s"
  by (auto simp: record_prev_def update_new_task_info_def Let_def split: option.splits)

lemma slots_ready_cache_update: "slots_ready s \<Longrightarrow> slots_ready (sched_cache_update t ts c s)"
  by (auto simp: slots_ready_def sched_cache_update_def split: option.splits)

lemma slots_ready_prev [simp]: "slots_ready (record_prev env t s) = slots_ready s"
  by (simp add: slots_ready_def)

section \<open>The incoming task\<close>

definition resumed :: "bpf_env \<Rightarrow> trace_event_t \<Rightarrow> trace_event_t" where
  "resumed env ep = ep\<lparr>te_target := (te_target ep)\<lparr>target_oncpu_id := env_cpu env,
     target_oncpu_ns := env_ktime env\<rparr>\<rparr>"

definition settled :: "bpf_env \<Rightarrow> task_struct \<Rightarrow> trace_event_t \<Rightarrow> trace_event_t" where
  "settled env t ep = (resumed env ep)\<lparr>te_target := (te_target (resumed env ep))
     \<lparr>target_run_delay_ns := task_run_delay t\<rparr>\<rparr>"

definition in_range :: "user_args \<Rightarrow> s32 \<Rightarrow> u64 \<Rightarrow> bool" where
  "in_range args delta offcpu_ns \<longleftrightarrow>
     min_offcpu_ms args \<le> delta \<and> delta \<le> max_offcpu_ms args \<and> offcpu_ns \<noteq> 0"

definition wants_dump :: "user_args \<Rightarrow> s32 \<Rightarrow> bool" where
  "wants_dump args runq_dur \<longleftrightarrow> runq_dur > rq_dur_ms args \<and> rq_dur_ms args \<noteq> 0"

definition runq_dur_of :: "task_struct \<Rightarrow> trace_event_t \<Rightarrow> s32" where
  "runq_dur_of t ep = ucast ((task_run_delay t - target_run_delay_ns (te_target ep)) div 1000000)"

definition cur_delta :: "bpf_env \<Rightarrow> trace_event_t \<Rightarrow> s32" where
  "cur_delta env ep = offcpu_delta (env_ktime env) (target_offcpu_ns (te_target ep))"

definition cur_perf ::
    "bpf_env \<Rightarrow> user_args \<Rightarrow> task_struct \<Rightarrow> trace_event_t \<Rightarrow> perf_event_t \<Rightarrow> perf_event_t" where
  "cur_perf env args t ep pe =
     (let pe = fill_perf_event env (resumed env ep) (cur_delta env ep) (runq_dur_of t ep) pe
      in if wants_dump args (runq_dur_of t ep)
         then pe\<lparr>pe_is_sched_cache_dump := 1, pe_cpu := env_cpu env\<rparr> else pe)"

lemma resumed_simps [simp]:
  "target_offcpu_ns (te_target (resumed env ep)) = target_offcpu_ns (te_target ep)"
  "target_run_delay_ns (te_target (resumed env ep)) = target_run_delay_ns (te_target ep)"
  "target_pid (te_target (resumed env ep)) = target_pid (te_target ep)"
  "target_tgid (te_target (resumed env ep)) = target_tgid (te_target ep)"
  "target_oncpu_ns (te_target (resumed env ep)) = env_ktime env"
  "te_waker (resumed env ep) = te_waker ep"
  by (simp_all add: resumed_def)

text \<open>The second half of the switch hook, branch by branch.\<close>

lemma record_cur_skip:
  "\<not> is_target_task s (task_tgid t) (task_pid t) \<or> bpf_map_lookup_elem (start s) (task_pid t) = None
     \<Longrightarrow> record_cur env args t s = s"
  by (auto simp: record_cur_def Let_def)

lemma record_cur_quiet:
  assumes "is_target_task s (task_tgid t) (task_pid t)"
    and "bpf_map_lookup_elem (start s) (task_pid t) = Some ep"
    and "\<not> in_range args (cur_delta env ep) (target_offcpu_ns (te_target ep))"
  shows "start (record_cur env args t s) = elem_write (start s) (task_pid t) (\<lambda>_. settled env t ep)"
    and "record_cur env args t s = s\<lparr>start := start (record_cur env args t s)\<rparr>"
  using assms
  by (auto simp: record_cur_def Let_def in_range_def cur_delta_def resumed_def settled_def
      bpf_ktime_get_ns_def bpf_get_smp_processor_id_def elem_write_twice comp_def)

lemma record_cur_emit:
  assumes ready: "slots_ready s"
    and "is_target_task s (task_tgid t) (task_pid t)"
    and "bpf_map_lookup_elem (start s) (task_pid t) = Some ep"
    and "in_range args (cur_delta env ep) (target_offcpu_ns (te_target ep))"
  shows "start (record_cur env args t s) = elem_write (start s) (task_pid t) (\<lambda>_. settled env t ep)"
    and "perf_out (record_cur env args t s)
      = perf_out s @ [cur_perf env args t ep (perf_event_cache_map s (env_cpu env) ! 0)]"
    and "perf_event_cache_map (record_cur env args t s)
      = percpu_elem_write (perf_event_cache_map s) (env_cpu env) 0
          (\<lambda>_. cur_perf env args t ep (perf_event_cache_map s (env_cpu env) ! 0))"
    and "args_map (record_cur env args t s) = args_map s"
    and "sched_cache_map (record_cur env args t s) =
      (if wants_dump args (runq_dur_of t ep) then sched_cache_map (sched_cache_dump (env_cpu env) s)
       else sched_cache_map s)"
  using assms slots_lookup(3) [OF ready]
  by (auto simp: record_cur_def Let_def in_range_def cur_delta_def resumed_def settled_def
      bpf_ktime_get_ns_def bpf_get_smp_processor_id_def elem_write_twice comp_def cur_perf_def
      runq_dur_of_def wants_dump_def sched_cache_dump_def split: option.splits)

lemma record_cur_cases:
  assumes "slots_ready s"
  obtains (skip) "record_cur env args t s = s"
      "is_target_task s (task_tgid t) (task_pid t) \<Longrightarrow> bpf_map_lookup_elem (start s) (task_pid t) = None"
  | (quiet) ep where "is_target_task s (task_tgid t) (task_pid t)"
      "bpf_map_lookup_elem (start s) (task_pid t) = Some ep"
      "\<not> in_range args (cur_delta env ep) (target_offcpu_ns (te_target ep))"
  | (emit) ep where "is_target_task s (task_tgid t) (task_pid t)"
      "bpf_map_lookup_elem (start s) (task_pid t) = Some ep"
      "in_range args (cur_delta env ep) (target_offcpu_ns (te_target ep))"
proof (cases "is_target_task s (task_tgid t) (task_pid t)")
  case False
  then show thesis using skip record_cur_skip by blast
next
  case target: True
  show thesis
  proof (cases "bpf_map_lookup_elem (start s) (task_pid t)")
    case None
    then show thesis using skip record_cur_skip by blast
  next
    case (Some ep)
    then show thesis using target quiet emit by blast
  qed
qed


section \<open>The start map\<close>

definition departed :: "bpf_env \<Rightarrow> task_struct \<Rightarrow> trace_event_t \<Rightarrow> trace_event_t" where
  "departed env t ep = ep\<lparr>te_target := (te_target ep)\<lparr>target_offcpu_ns := env_ktime env,
     target_offcpu_id := env_cpu env, target_run_delay_ns := task_run_delay t\<rparr>\<rparr>"

definition first_departed :: "bpf_env \<Rightarrow> task_struct \<Rightarrow> trace_event_t" where
  "first_departed env t = zero_event\<lparr>te_target := zero_target
     \<lparr>target_offcpu_ns := env_ktime env, target_offcpu_id := env_cpu env,
      target_pid := task_pid t, target_tgid := task_tgid t,
      target_comm := fill_buf TASK_COMM_LEN (task_comm t),
      target_run_delay_ns := task_run_delay t\<rparr>\<rparr>"

definition first_woken :: "bpf_env \<Rightarrow> task_struct \<Rightarrow> trace_event_t" where
  "first_woken env t =
     (let event = set_waker env (zero_event\<lparr>te_target := zero_target
            \<lparr>target_pid := task_pid t, target_tgid := task_tgid t,
             target_comm := fill_buf TASK_COMM_LEN (task_comm t)\<rparr>\<rparr>)
      in event\<lparr>te_waker := (te_waker event)\<lparr>waker_t_pid := task_pid t,
           waker_t_comm := fill_buf TASK_COMM_LEN (task_comm t)\<rparr>\<rparr>)"

text \<open>A put into the start map: change the element, or insert one while there is room.\<close>

definition put :: "(u32, trace_event_t) bpf_hash \<Rightarrow> u32 \<Rightarrow> (trace_event_t \<Rightarrow> trace_event_t) \<Rightarrow>
    trace_event_t \<Rightarrow> (u32, trace_event_t) bpf_hash" where
  "put m k f v = (case bpf_map_lookup_elem m k of
     None \<Rightarrow> snd (bpf_map_update_elem m k v BPF_ANY) | Some _ \<Rightarrow> elem_write m k f)"

definition put_value :: "nat \<Rightarrow> trace_event_t option \<Rightarrow> (trace_event_t \<Rightarrow> trace_event_t) \<Rightarrow>
    trace_event_t \<Rightarrow> trace_event_t option" where
  "put_value room old f v = (case old of None \<Rightarrow> if 0 < room then Some v else None | Some ep \<Rightarrow> Some (f ep))"

lemma put_lookup:
  "bpf_map_lookup_elem (put m k f v) k'
     = (if k' = k then put_value (hash_free m) (bpf_map_lookup_elem m k) f v
        else bpf_map_lookup_elem m k')"
proof (cases "bpf_map_lookup_elem m k")
  case None
  then show ?thesis
    using hash_del.update_room [OF _ _ None, of BPF_ANY v] hash_del.update_full [OF _ None, of v BPF_ANY]
    by (cases "hash_free m") (auto simp: put_def put_value_def map_laws flag_defs)
next
  case (Some ep)
  then show ?thesis by (simp add: put_def put_value_def map_laws)
qed

lemma put_wf: "hash_wf m \<Longrightarrow> hash_wf (put m k f v)"
  by (simp add: put_def map_laws split: option.splits)

definition wake_applies :: "offcpu_state \<Rightarrow> task_struct \<Rightarrow> s32 \<Rightarrow> bool" where
  "wake_applies s t state \<longleftrightarrow> get_task_state t AND state \<noteq> 0 \<and> task_on_rq t \<noteq> 1 \<and>
     is_target_task s (task_tgid t) (task_pid t)"

lemma wake_start:
  "start (try_to_wake_up_hook env t state s) =
     (if wake_applies s t state then put (start s) (task_pid t) (set_waker env) (first_woken env t)
      else start s)"
  by (auto simp: try_to_wake_up_hook_def wake_applies_def put_def first_woken_def Let_def
      split: option.splits)

lemma prev_start:
  "start (record_prev env t s) =
     (if is_target_task s (task_tgid t) (task_pid t)
      then put (start s) (task_pid t) (departed env t) (first_departed env t) else start s)"
  by (simp add: record_prev_def put_def update_new_task_info_def first_departed_def departed_def [abs_def]
      bpf_ktime_get_ns_def bpf_get_smp_processor_id_def Let_def split: option.splits)

lemma switch_hook_ready:
  assumes "slots_ready s"
  shows "sched_switch_hook env cur pre s =
    record_cur env (args_map s ! 0) cur (record_prev env pre
      (if rq_dur_ms (args_map s ! 0) \<noteq> 0
       then sched_cache_update pre (env_ktime env) (env_cpu env) s else s))"
  using slots_lookup(1) [OF assms]
  by (simp add: sched_switch_hook_def bpf_ktime_get_ns_def bpf_get_smp_processor_id_def Let_def)

lemma cur_start:
  assumes "slots_ready s"
  shows "start (record_cur env args t s) =
    (if is_target_task s (task_tgid t) (task_pid t)
     then elem_write (start s) (task_pid t) (settled env t) else start s)"
proof -
  show ?thesis
    using assms
  proof (cases rule: record_cur_cases [of s env args t])
    case skip
    then show ?thesis by (simp add: elem_write_absent)
  next
    case (quiet ep)
    then show ?thesis using record_cur_quiet(1) [OF quiet] elem_write_const [OF quiet(2)] by simp
  next
    case (emit ep)
    then show ?thesis using record_cur_emit(1) [OF assms emit] elem_write_const [OF emit(2)] by simp
  qed
qed


section \<open>Invariants of a run\<close>

text \<open>The task filter as a function of the arguments alone.\<close>

definition target_filter :: "user_args \<Rightarrow> u32 \<Rightarrow> u32 \<Rightarrow> bool" where
  "target_filter args tgid pid \<longleftrightarrow>
     arg_tgid args = minus1 \<and> arg_pid args = minus1 \<or>
     arg_tgid args \<noteq> minus1 \<and> arg_tgid args = tgid \<or>
     arg_pid args \<noteq> minus1 \<and> arg_pid args = pid"

lemma is_target_filter: "slots_ready s \<Longrightarrow> is_target_task s = target_filter (args_map s ! 0)"
  by (intro ext) (simp add: is_target_ready target_filter_def)

definition entry_ok :: "user_args \<Rightarrow> u32 \<Rightarrow> trace_event_t \<Rightarrow> bool" where
  "entry_ok args k ep \<longleftrightarrow> target_pid (te_target ep) = k \<and> target_filter args (target_tgid (te_target ep)) k"

definition start_ok :: "user_args \<Rightarrow> (u32, trace_event_t) bpf_hash \<Rightarrow> bool" where
  "start_ok args m \<longleftrightarrow> hash_wf m \<and> (\<forall>k ep. bpf_map_lookup_elem m k = Some ep \<longrightarrow> entry_ok args k ep)"

definition event_ok :: "user_args \<Rightarrow> perf_event_t \<Rightarrow> bool" where
  "event_ok args pe \<longleftrightarrow>
     target_filter args (target_tgid (pe_target pe)) (target_pid (pe_target pe)) \<and>
     target_oncpu_ns (pe_target pe) = pe_ts_ns pe \<and>
     pe_dur_ms pe = scast (offcpu_delta (pe_ts_ns pe) (target_offcpu_ns (pe_target pe))) \<and>
     in_range args (offcpu_delta (pe_ts_ns pe) (target_offcpu_ns (pe_target pe)))
       (target_offcpu_ns (pe_target pe))"

definition offcpu_inv :: "user_args \<Rightarrow> offcpu_state \<Rightarrow> bool" where
  "offcpu_inv args s \<longleftrightarrow> slots_ready s \<and> args_map s ! 0 = args \<and> start_ok args (start s) \<and>
     (\<forall>pe \<in> set (perf_out s). event_ok args pe)"

lemma offcpu_inv_init: "offcpu_inv args (offcpu_init args)"
  by (simp add: offcpu_inv_def slots_ready_def start_ok_def offcpu_init_def)

lemma start_ok_put:
  assumes "start_ok args m" and "entry_ok args k v" and "\<And>ep. entry_ok args k ep \<Longrightarrow> entry_ok args k (f ep)"
  shows "start_ok args (put m k f v)"
  using assms
  by (auto simp: start_ok_def put_wf put_lookup put_value_def split: option.splits if_splits)

lemma start_ok_write:
  assumes "start_ok args m" and "\<And>ep. entry_ok args k ep \<Longrightarrow> entry_ok args k (f ep)"
  shows "start_ok args (elem_write m k f)"
  using assms by (auto simp: start_ok_def map_laws split: if_splits)

lemma entry_ok_updates [simp]:
  "entry_ok args k (set_waker env ep) = entry_ok args k ep"
  "entry_ok args k (departed env t ep) = entry_ok args k ep"
  "entry_ok args k (settled env t ep) = entry_ok args k ep"
  "entry_ok args (task_pid t) (first_woken env t) = target_filter args (task_tgid t) (task_pid t)"
  "entry_ok args (task_pid t) (first_departed env t) = target_filter args (task_tgid t) (task_pid t)"
  by (simp_all add: entry_ok_def set_waker_def departed_def settled_def first_woken_def
      first_departed_def Let_def)

lemma cur_perf_fields [simp]:
  "pe_ts_ns (cur_perf env args t ep pe) = env_ktime env"
  "pe_dur_ms (cur_perf env args t ep pe) = scast (cur_delta env ep)"
  "pe_rq_dur_ms (cur_perf env args t ep pe) = scast (runq_dur_of t ep)"
  "pe_waker (cur_perf env args t ep pe) = te_waker ep"
  "target_pid (pe_target (cur_perf env args t ep pe)) = target_pid (te_target ep)"
  "target_tgid (pe_target (cur_perf env args t ep pe)) = target_tgid (te_target ep)"
  "target_offcpu_ns (pe_target (cur_perf env args t ep pe)) = target_offcpu_ns (te_target ep)"
  "target_oncpu_ns (pe_target (cur_perf env args t ep pe)) = env_ktime env"
  "target_comm (pe_target (cur_perf env args t ep pe)) = bpf_get_current_comm TASK_COMM_LEN env"
  "pe_is_sched_cache_dump (cur_perf env args t ep pe) =
     (if wants_dump args (runq_dur_of t ep) then 1 else pe_is_sched_cache_dump pe)"
  by (simp_all add: cur_perf_def fill_perf_event_def bpf_ktime_get_ns_def Let_def)

lemma cur_perf_ok:
  assumes "entry_ok args k ep" and "in_range args (cur_delta env ep) (target_offcpu_ns (te_target ep))"
  shows "event_ok args (cur_perf env args t ep pe)"
  using assms by (simp add: event_ok_def entry_ok_def cur_delta_def)

lemma slots_ready_cur:
  assumes "slots_ready s"
  shows "slots_ready (record_cur env args t s) \<and> args_map (record_cur env args t s) = args_map s"
  using assms
proof (cases rule: record_cur_cases [of s env args t])
  case skip
  then show ?thesis using assms by simp
next
  case (quiet ep)
  show ?thesis
    by (subst (1 2) record_cur_quiet(2) [OF quiet]) (use assms in \<open>simp add: slots_ready_def\<close>)
next
  case (emit ep)
  have "length (sched_cache_map (sched_cache_dump (env_cpu env) s) c) = length (sched_cache_map s c)" for c
    by (auto simp: sched_cache_dump_def Let_def split: option.splits)
  then show ?thesis
    using assms record_cur_emit [OF assms emit] by (simp add: slots_ready_def)
qed

lemma offcpu_inv_cur:
  assumes inv: "offcpu_inv args s"
  shows "offcpu_inv args (record_cur env args t s)"
proof -
  have ready: "slots_ready s" using inv by (simp add: offcpu_inv_def)
  have "start_ok args (start (record_cur env args t s))"
    using inv by (simp add: cur_start [OF ready] start_ok_write offcpu_inv_def)
  moreover have "\<forall>pe \<in> set (perf_out (record_cur env args t s)). event_ok args pe"
    using ready
  proof (cases rule: record_cur_cases [of s env args t])
    case skip
    then show ?thesis using inv by (simp add: offcpu_inv_def)
  next
    case (quiet ep)
    show ?thesis by (subst record_cur_quiet(2) [OF quiet]) (use inv in \<open>simp add: offcpu_inv_def\<close>)
  next
    case (emit ep)
    then have "entry_ok args (task_pid t) ep" using inv by (auto simp: offcpu_inv_def start_ok_def)
    from cur_perf_ok [OF this emit(3)] inv show ?thesis
      by (simp add: record_cur_emit(2) [OF ready emit] offcpu_inv_def)
  qed
  ultimately show ?thesis using inv slots_ready_cur [OF ready] by (simp add: offcpu_inv_def)
qed

lemma offcpu_inv_prev:
  assumes "offcpu_inv args s"
  shows "offcpu_inv args (record_prev env t s)"
  using assms
  by (auto simp: offcpu_inv_def prev_start is_target_filter intro!: start_ok_put)

lemma offcpu_inv_step:
  assumes inv: "offcpu_inv args s"
  shows "offcpu_inv args (offcpu_step e s)"
proof (cases e)
  case (Wakeup env t state)
  then show ?thesis
    using inv
    by (auto simp: offcpu_inv_def slots_ready_def wake_start wake_applies_def is_target_filter
        intro!: start_ok_put)
next
  case (Switch env cur pre)
  let ?s = "if rq_dur_ms args \<noteq> 0
    then sched_cache_update pre (env_ktime env) (env_cpu env) s else s"
  have "offcpu_inv args ?s" using inv by (simp add: offcpu_inv_def slots_ready_cache_update)
  then have "offcpu_inv args (record_cur env args cur (record_prev env pre ?s))"
    by (intro offcpu_inv_cur offcpu_inv_prev)
  with Switch inv show ?thesis by (simp add: switch_hook_ready offcpu_inv_def)
qed

interpretation offcpu: handler_invariant offcpu_step "offcpu_inv args" for args
  by unfold_locales (rule offcpu_inv_step)


section \<open>The ring of recent switches\<close>

text \<open>
  A ring of \<open>n\<close> slots holds a log when every one of the last \<open>n\<close> entries is in the slot of
  its position. A push at the slot of the log's length extends the log.
\<close>

definition ring_holds :: "nat \<Rightarrow> 'r list \<Rightarrow> 'r list \<Rightarrow> bool" where
  "ring_holds n log rs \<longleftrightarrow> length rs = n \<and>
     (\<forall>j < length log. length log \<le> j + n \<longrightarrow> rs ! (j mod n) = log ! j)"

lemma mod_window_neq:
  fixes j m n :: nat
  assumes "j < m" and "m < j + n"
  shows "j mod n \<noteq> m mod n"
proof
  assume "j mod n = m mod n"
  then have "n dvd m - j" using assms(1) by (metis less_imp_le mod_eq_dvd_iff_nat)
  moreover have "0 < m - j" "m - j < n" using assms by auto
  ultimately show False by (auto dest: dvd_imp_le)
qed

lemma ring_holds_push:
  assumes "ring_holds n log rs" and "0 < n"
  shows "ring_holds n (log @ [r]) (rs[length log mod n := r])"
  using assms
  by (auto simp: ring_holds_def nth_append nth_list_update less_Suc_eq Suc_le_eq dest: mod_window_neq)

locale ring_log =
  fixes push :: "'r \<Rightarrow> 'c \<Rightarrow> 'c" and rs :: "'c \<Rightarrow> 'r list" and cnt :: "'c \<Rightarrow> u32"
    and on :: "'c \<Rightarrow> bool" and n :: nat
  assumes push_rs: "on c \<Longrightarrow> rs (push r c) = (rs c)[unat (cnt c) mod n := r]"
    and push_cnt: "on c \<Longrightarrow> cnt (push r c) = cnt c + 1"
    and push_on: "on c \<Longrightarrow> on (push r c)"
    and size_pos: "0 < n" and size_dvd: "n dvd 2 ^ 32"
begin

definition logged :: "'r list \<Rightarrow> 'c \<Rightarrow> bool" where
  "logged log c \<longleftrightarrow> on c \<and> cnt c = of_nat (length log) \<and> ring_holds n log (rs c)"

text \<open>The counter may wrap: the ring's size divides its range.\<close>

lemma cnt_mod: "unat (of_nat m :: u32) mod n = m mod n"
  using size_dvd by (simp add: unat_of_nat mod_mod_cancel)

lemma logged_push: "logged log c \<Longrightarrow> logged (log @ [r]) (push r c)"
  using ring_holds_push [OF _ size_pos, of log "rs c" r]
  by (simp add: logged_def push_rs push_cnt push_on cnt_mod)

end

definition push_record :: "u32 \<Rightarrow> sched_record \<Rightarrow> sched_cached \<Rightarrow> sched_cached" where
  "push_record cpu r cache = cache\<lparr>sc_cpu := cpu,
     sc_records := (sc_records cache)[unat (sc_id cache) mod SCHED_CACHE_SIZE := r],
     sc_id := sc_id cache + 1\<rparr>"

definition recording :: "sched_cached \<Rightarrow> bool" where
  "recording cache \<longleftrightarrow> sc_status cache = SCHED_CACHE_RECORD_ON"

lemma cache_push_record:
  assumes "recording cache"
  shows "cache_push t ts cpu cache = push_record cpu (task_record t ts) cache"
proof -
  have "unat (sc_id cache mod of_nat SCHED_CACHE_SIZE) = unat (sc_id cache) mod SCHED_CACHE_SIZE"
    by (simp add: SCHED_CACHE_SIZE_def unat_mod)
  moreover from this have "sc_id cache mod of_nat SCHED_CACHE_SIZE < of_nat SCHED_CACHE_SIZE"
    by (simp add: word_less_nat_alt SCHED_CACHE_SIZE_def)
  ultimately show ?thesis
    using assms by (simp add: cache_push_def push_record_def recording_def Let_def)
qed

interpretation ring: ring_log "push_record cpu" sc_records sc_id recording SCHED_CACHE_SIZE for cpu
  by unfold_locales (simp_all add: push_record_def recording_def SCHED_CACHE_SIZE_def)

fun switch_log :: "u32 \<Rightarrow> offcpu_ev list \<Rightarrow> sched_record list" where
  "switch_log c [] = []"
| "switch_log c (Wakeup env t state # es) = switch_log c es"
| "switch_log c (Switch env cur pre # es) =
     (if env_cpu env = c then [task_record pre (env_ktime env)] else []) @ switch_log c es"

lemma cur_cache:
  assumes "slots_ready s" and "recording (sched_cache_map s c ! 0)"
  shows "sched_cache_map (record_cur env args t s) c ! 0 = sched_cache_map s c ! 0"
  using assms(1)
proof (cases rule: record_cur_cases [of s env args t])
  case skip
  then show ?thesis by simp
next
  case (quiet ep)
  show ?thesis by (subst record_cur_quiet(2) [OF quiet]) simp
next
  case (emit ep)
  have "length (sched_cache_map s c) = 1" using assms by (simp add: slots_ready_def)
  then have "sched_cache_map (sched_cache_dump (env_cpu env) s) c ! 0 = sched_cache_map s c ! 0"
    using assms(2) slots_lookup(2) [OF assms(1)]
    by (auto simp: sched_cache_dump_def percpu_write_nth recording_def)
  then show ?thesis by (simp add: record_cur_emit(5) [OF assms(1) emit])
qed

lemma switch_cache:
  assumes ready: "slots_ready s" and rq: "rq_dur_ms (args_map s ! 0) \<noteq> 0"
    and "recording (sched_cache_map s c ! 0)"
  shows "sched_cache_map (sched_switch_hook env cur pre s) c ! 0 =
    (if env_cpu env = c
     then push_record c (task_record pre (env_ktime env)) (sched_cache_map s c ! 0)
     else sched_cache_map s c ! 0)"
proof -
  let ?s = "sched_cache_update pre (env_ktime env) (env_cpu env) s"
  have "length (sched_cache_map s c) = 1" using ready by (simp add: slots_ready_def)
  then have up: "sched_cache_map ?s c ! 0 = (if env_cpu env = c
      then push_record c (task_record pre (env_ktime env)) (sched_cache_map s c ! 0)
      else sched_cache_map s c ! 0)"
    using assms(3) slots_lookup(2) [OF ready]
    by (auto simp: sched_cache_update_def percpu_write_nth cache_push_record)
  then have "recording (sched_cache_map ?s c ! 0)"
    using assms(3) by (simp add: recording_def push_record_def)
  with cur_cache [of "record_prev env pre ?s" c env "args_map s ! 0" cur] up ready rq
  show ?thesis by (simp add: switch_hook_ready slots_ready_cache_update)
qed

lemma ring_run:
  assumes "offcpu_inv args s" and "rq_dur_ms args \<noteq> 0" and "ring.logged log (sched_cache_map s c ! 0)"
  shows "ring.logged (log @ switch_log c es) (sched_cache_map (run offcpu_step es s) c ! 0)"
  using assms
proof (induction es arbitrary: s log)
  case Nil
  then show ?case by simp
next
  case (Cons e es)
  have inv: "offcpu_inv args (offcpu_step e s)" by (rule offcpu_inv_step) fact
  show ?case
  proof (cases e)
    case (Wakeup env t state)
    with Cons.IH [OF inv Cons.prems(2), of log] Cons.prems show ?thesis by simp
  next
    case (Switch env cur pre)
    let ?l = "if env_cpu env = c then [task_record pre (env_ktime env)] else []"
    have "recording (sched_cache_map s c ! 0)" using Cons.prems(3) by (simp add: ring.logged_def)
    then have "ring.logged (log @ ?l) (sched_cache_map (offcpu_step e s) c ! 0)"
      using Switch Cons.prems by (simp add: switch_cache offcpu_inv_def ring.logged_push)
    from Cons.IH [OF inv Cons.prems(2) this] Switch show ?thesis by simp
  qed
qed

text \<open>Without a threshold the caches stay as they are.\<close>

lemma ring_off:
  assumes "offcpu_inv args s" and "rq_dur_ms args = 0"
  shows "sched_cache_map (run offcpu_step es s) = sched_cache_map s"
  using assms
proof (induction es arbitrary: s)
  case (Cons e es)
  have ready: "slots_ready s" and args: "args_map s ! 0 = args" using Cons.prems(1) by (simp_all add: offcpu_inv_def)
  have "sched_cache_map (offcpu_step e s) = sched_cache_map s"
  proof (cases e)
    case (Switch env cur pre)
    have "sched_cache_map (record_cur env args cur t) = sched_cache_map t" for t
      using Cons.prems(2) by (simp add: record_cur_def Let_def split: option.split)
    then show ?thesis
      using Cons.prems(2) args slots_lookup(1) [OF ready]
      by (simp add: Switch sched_switch_hook_def Let_def)
  qed simp
  with Cons offcpu_inv_step [OF Cons.prems(1), of e] show ?case by simp
qed simp

lemma ring_init: "ring.logged [] (sched_cache_map (offcpu_init args) c ! 0)"
  by (simp add: ring.logged_def ring_holds_def offcpu_init_def zero_cache_def recording_def
      SCHED_CACHE_RECORD_ON_def)


section \<open>A sleep from end to end\<close>

fun about :: "u32 \<Rightarrow> offcpu_ev \<Rightarrow> bool" where
  "about k (Wakeup env t state) \<longleftrightarrow> task_pid t = k"
| "about k (Switch env cur pre) \<longleftrightarrow> task_pid cur = k \<or> task_pid pre = k"

text \<open>The state in which the second half of the switch hook starts.\<close>

definition mid_switch :: "bpf_env \<Rightarrow> task_struct \<Rightarrow> offcpu_state \<Rightarrow> offcpu_state" where
  "mid_switch env pre s = record_prev env pre
     (if rq_dur_ms (args_map s ! 0) \<noteq> 0
      then sched_cache_update pre (env_ktime env) (env_cpu env) s else s)"

lemma mid_switch_frame [simp]:
  "args_map (mid_switch env pre s) = args_map s"
  "perf_event_cache_map (mid_switch env pre s) = perf_event_cache_map s"
  "perf_out (mid_switch env pre s) = perf_out s"
  by (simp_all add: mid_switch_def)

lemma mid_switch_ready: "slots_ready s \<Longrightarrow> slots_ready (mid_switch env pre s)"
  by (simp add: mid_switch_def slots_ready_cache_update)

lemma mid_switch_lookup:
  "bpf_map_lookup_elem (start (mid_switch env pre s)) k =
     (if task_pid pre = k \<and> is_target_task s (task_tgid pre) (task_pid pre)
      then put_value (hash_free (start s)) (bpf_map_lookup_elem (start s) k) (departed env pre)
        (first_departed env pre)
      else bpf_map_lookup_elem (start s) k)"
  by (auto simp: mid_switch_def prev_start put_lookup
      cong: is_target_cong [of _ "sched_cache_update pre (env_ktime env) (env_cpu env) s"])

lemma switch_mid:
  "slots_ready s \<Longrightarrow> sched_switch_hook env cur pre s
     = record_cur env (args_map s ! 0) cur (mid_switch env pre s)"
  by (simp add: switch_hook_ready mid_switch_def)

lemma about_frame:
  assumes "slots_ready s" and "\<not> about k e"
  shows "bpf_map_lookup_elem (start (offcpu_step e s)) k = bpf_map_lookup_elem (start s) k"
  using assms
  by (cases e) (auto simp: wake_start put_lookup switch_mid cur_start mid_switch_ready map_laws
      mid_switch_lookup)

lemma about_frame_run:
  assumes "offcpu_inv args s" and "\<forall>e \<in> set es. \<not> about k e"
  shows "bpf_map_lookup_elem (start (run offcpu_step es s)) k = bpf_map_lookup_elem (start s) k"
  using assms
proof (induction es arbitrary: s)
  case (Cons e es)
  have "slots_ready s" using Cons.prems by (simp add: offcpu_inv_def)
  then show ?case
    using Cons.IH [OF offcpu_inv_step [OF Cons.prems(1), of e]] Cons.prems about_frame [of s k e] by simp
qed simp

text \<open>The three hooks a sleeping target passes, each on any state of a run.\<close>

lemma depart_entry:
  assumes inv: "offcpu_inv args s" and "target_filter args (task_tgid t) (task_pid t)"
    and "0 < hash_free (start s)" and "task_pid c \<noteq> task_pid t"
  shows "\<exists>ep. bpf_map_lookup_elem (start (offcpu_step (Switch env c t) s)) (task_pid t) = Some ep \<and>
    target_offcpu_ns (te_target ep) = env_ktime env \<and> target_run_delay_ns (te_target ep) = task_run_delay t"
  using assms
  by (auto simp: offcpu_inv_def switch_mid cur_start mid_switch_ready map_laws mid_switch_lookup
      is_target_filter put_value_def departed_def first_departed_def split: option.splits)

lemma wake_entry:
  assumes inv: "offcpu_inv args s" and "target_filter args (task_tgid t) (task_pid t)"
    and "get_task_state t AND st \<noteq> 0" and "task_on_rq t \<noteq> 1"
    and "bpf_map_lookup_elem (start s) (task_pid t) = Some ep"
  shows "bpf_map_lookup_elem (start (offcpu_step (Wakeup env t st) s)) (task_pid t) = Some (set_waker env ep)"
  using assms
  by (simp add: offcpu_inv_def wake_start wake_applies_def is_target_filter put_lookup put_value_def)

lemma resume_emits:
  assumes inv: "offcpu_inv args s" and "target_filter args (task_tgid t) (task_pid t)"
    and "task_pid p \<noteq> task_pid t" and "bpf_map_lookup_elem (start s) (task_pid t) = Some ep"
    and "in_range args (cur_delta env ep) (target_offcpu_ns (te_target ep))"
  shows "perf_out (offcpu_step (Switch env t p) s)
    = perf_out s @ [cur_perf env args t ep (perf_event_cache_map s (env_cpu env) ! 0)]"
proof -
  have ready: "slots_ready s" and args: "args_map s ! 0 = args" using inv by (simp_all add: offcpu_inv_def)
  have "is_target_task (mid_switch env p s) (task_tgid t) (task_pid t)"
    using assms(2) ready args by (simp add: is_target_filter mid_switch_ready)
  moreover have "bpf_map_lookup_elem (start (mid_switch env p s)) (task_pid t) = Some ep"
    using assms(3,4) by (simp add: mid_switch_lookup)
  ultimately show ?thesis
    using record_cur_emit(2) [OF mid_switch_ready [OF ready, of env p] _ _ assms(5)] args ready
    by (simp add: switch_mid)
qed

lemma set_waker_fields:
  "waker_pid (te_waker (set_waker env ep)) = env_pid env"
  "waker_tgid (te_waker (set_waker env ep)) = env_tgid env"
  "waker_offcpu_ns (te_waker (set_waker env ep)) = env_ktime env"
  "target_offcpu_ns (te_target (set_waker env ep)) = target_offcpu_ns (te_target ep)"
  "target_run_delay_ns (te_target (set_waker env ep)) = target_run_delay_ns (te_target ep)"
  by (simp_all add: set_waker_def bpf_ktime_get_ns_def Let_def)

text \<open>What the start map holds when a sleeping target has been woken.\<close>

lemma sleep_entry:
  assumes inv: "offcpu_inv args s" and room: "0 < hash_free (start s)"
    and same: "task_pid t2 = task_pid t1" "task_tgid t2 = task_tgid t1"
    and target: "target_filter args (task_tgid t1) (task_pid t1)"
    and others: "task_pid c \<noteq> task_pid t1" "\<forall>e \<in> set (es1 @ es2). \<not> about (task_pid t1) e"
    and wakes: "get_task_state t2 AND st \<noteq> 0" "task_on_rq t2 \<noteq> 1"
  shows "\<exists>ep. bpf_map_lookup_elem (start (run offcpu_step
        ([Switch e1 c t1] @ es1 @ [Wakeup e2 t2 st] @ es2) s)) (task_pid t1) = Some (set_waker e2 ep) \<and>
      target_offcpu_ns (te_target (set_waker e2 ep)) = env_ktime e1 \<and>
      target_run_delay_ns (te_target (set_waker e2 ep)) = task_run_delay t1"
proof -
  let ?k = "task_pid t1"
  define s1 where "s1 = run offcpu_step es1 (offcpu_step (Switch e1 c t1) s)"
  have inv1: "offcpu_inv args (offcpu_step (Switch e1 c t1) s)" "offcpu_inv args s1"
    "offcpu_inv args (offcpu_step (Wakeup e2 t2 st) s1)"
    unfolding s1_def by (intro offcpu.run_inv offcpu_inv_step inv)+
  obtain ep where ep: "bpf_map_lookup_elem (start (offcpu_step (Switch e1 c t1) s)) ?k = Some ep"
    and off: "target_offcpu_ns (te_target ep) = env_ktime e1" "target_run_delay_ns (te_target ep) = task_run_delay t1"
    using depart_entry [OF inv target room others(1)] by blast
  have "bpf_map_lookup_elem (start s1) ?k = Some ep"
    unfolding s1_def using about_frame_run [OF inv1(1)] others ep by simp
  then have "bpf_map_lookup_elem (start (offcpu_step (Wakeup e2 t2 st) s1)) ?k = Some (set_waker e2 ep)"
    using wake_entry [OF inv1(2) _ wakes] target same by simp
  then have "bpf_map_lookup_elem (start (run offcpu_step es2 (offcpu_step (Wakeup e2 t2 st) s1))) ?k
      = Some (set_waker e2 ep)"
    using about_frame_run [OF inv1(3), of es2 ?k] others by simp
  moreover have "run offcpu_step ([Switch e1 c t1] @ es1 @ [Wakeup e2 t2 st] @ es2) s
      = run offcpu_step es2 (offcpu_step (Wakeup e2 t2 st) s1)"
    by (simp only: s1_def run_append run_Cons run_Nil)
  ultimately show ?thesis using off set_waker_fields(4,5) by metis
qed

lemma offcpu_delta_exact:
  assumes "(b - a) div 1000000 < (2 ^ 31 :: u64)"
  shows "scast (offcpu_delta b a) = (b - a) div 1000000"
    and "unat (offcpu_delta b a) = unat ((b - a) div 1000000)"
proof -
  show u: "unat (offcpu_delta b a) = unat ((b - a) div 1000000)"
    using assms by (simp add: offcpu_delta_def ucast_down_up)
  with assms have "offcpu_delta b a < 2 ^ 31" by (simp add: word_less_nat_alt)
  then show "scast (offcpu_delta b a) = (b - a) div 1000000"
    using assms by (simp add: scast_small) (simp add: offcpu_delta_def ucast_down_up)
qed

section \<open>The dump flag\<close>

definition dump_flag :: "offcpu_state \<Rightarrow> u32 \<Rightarrow> u32" where
  "dump_flag s c = pe_is_sched_cache_dump (perf_event_cache_map s c ! 0)"

lemma cur_flag:
  assumes "slots_ready s" and "dump_flag s c = 1"
  shows "dump_flag (record_cur env args t s) c = 1"
    and "env_cpu env = c \<Longrightarrow> pe \<in> set (drop (length (perf_out s)) (perf_out (record_cur env args t s)))
      \<Longrightarrow> pe_is_sched_cache_dump pe = 1"
proof -
  have len: "length (perf_event_cache_map s c) = 1" using assms(1) by (simp add: slots_ready_def)
  have "dump_flag (record_cur env args t s) c = 1 \<and> (env_cpu env = c \<longrightarrow>
     (\<forall>pe \<in> set (drop (length (perf_out s)) (perf_out (record_cur env args t s))).
        pe_is_sched_cache_dump pe = 1))"
    using assms(1)
  proof (cases rule: record_cur_cases [of s env args t])
    case skip
    then show ?thesis using assms by simp
  next
    case (quiet ep)
    show ?thesis
      by (subst (1 2) record_cur_quiet(2) [OF quiet]) (use assms in \<open>simp add: dump_flag_def\<close>)
  next
    case (emit ep)
    then show ?thesis
      using assms len record_cur_emit(2,3) [OF assms(1) emit]
      by (auto simp: dump_flag_def percpu_write_nth)
  qed
  then show "dump_flag (record_cur env args t s) c = 1"
    and "env_cpu env = c \<Longrightarrow> pe \<in> set (drop (length (perf_out s)) (perf_out (record_cur env args t s)))
      \<Longrightarrow> pe_is_sched_cache_dump pe = 1" by blast+
qed

definition flag_stuck :: "u32 \<Rightarrow> offcpu_state \<Rightarrow> bool" where
  "flag_stuck c s \<longleftrightarrow> slots_ready s \<and> dump_flag s c = 1"

lemma dump_flag_mid [simp]: "dump_flag (mid_switch env pre s) = dump_flag s"
  by (simp add: dump_flag_def fun_eq_iff)

lemma flag_stuck_step:
  assumes "flag_stuck c s"
  shows "flag_stuck c (offcpu_step e s)"
proof (cases e)
  case (Wakeup env t state)
  with assms show ?thesis by (simp add: flag_stuck_def slots_ready_def dump_flag_def)
next
  case (Switch env cur pre)
  from assms have "slots_ready s" "slots_ready (mid_switch env pre s)" "dump_flag s c = 1"
    by (simp_all add: flag_stuck_def mid_switch_ready)
  with Switch show ?thesis by (simp add: flag_stuck_def switch_mid slots_ready_cur cur_flag(1))
qed

interpretation flag: handler_invariant offcpu_step "flag_stuck c" for c
  by unfold_locales (rule flag_stuck_step)


lemma sleep_emits:
  assumes inv0: "offcpu_inv args s"
    and room: "0 < hash_free (start s)"
    and same: "task_pid t2 = task_pid t1" "task_pid t3 = task_pid t1"
      "task_tgid t2 = task_tgid t1" "task_tgid t3 = task_tgid t1"
    and target: "target_filter args (task_tgid t1) (task_pid t1)"
    and others: "task_pid c \<noteq> task_pid t1" "task_pid p \<noteq> task_pid t1"
      "\<forall>e \<in> set (es1 @ es2). \<not> about (task_pid t1) e"
    and wakes: "get_task_state t2 AND st \<noteq> 0" "task_on_rq t2 \<noteq> 1"
    and gap: "gap = (env_ktime e3 - env_ktime e1) div 1000000" "gap < 2 ^ 31"
      "unat (min_offcpu_ms args) \<le> unat gap" "unat gap \<le> unat (max_offcpu_ms args)"
    and clock: "env_ktime e1 \<noteq> 0"
  shows "\<exists>pe. perf_out (run offcpu_step
        ([Switch e1 c t1] @ es1 @ [Wakeup e2 t2 st] @ es2 @ [Switch e3 t3 p]) s)
      = perf_out (run offcpu_step ([Switch e1 c t1] @ es1 @ [Wakeup e2 t2 st] @ es2) s) @ [pe] \<and>
      target_pid (pe_target pe) = task_pid t1 \<and> pe_dur_ms pe = gap \<and> pe_ts_ns pe = env_ktime e3 \<and>
      waker_pid (pe_waker pe) = env_pid e2 \<and> waker_tgid (pe_waker pe) = env_tgid e2 \<and>
      waker_offcpu_ns (pe_waker pe) = env_ktime e2 \<and>
      pe_rq_dur_ms pe = scast (ucast ((task_run_delay t3 - task_run_delay t1) div 1000000) :: s32)"
proof -
  let ?pre = "[Switch e1 c t1] @ es1 @ [Wakeup e2 t2 st] @ es2" and ?k = "task_pid t1"
  define s2 where "s2 = run offcpu_step ?pre s"
  have inv: "offcpu_inv args s" "offcpu_inv args s2"
    unfolding s2_def using inv0 by (simp_all add: offcpu.run_inv del: run_Cons run_append)
  obtain ep where ep: "bpf_map_lookup_elem (start s2) ?k = Some (set_waker e2 ep)"
    and off: "target_offcpu_ns (te_target (set_waker e2 ep)) = env_ktime e1"
    and delay: "target_run_delay_ns (te_target (set_waker e2 ep)) = task_run_delay t1"
    unfolding s2_def
    using sleep_entry [OF inv(1) room same(1,3) target others(1,3) wakes] by blast
  have delta: "scast (cur_delta e3 (set_waker e2 ep)) = gap"
      "unat (cur_delta e3 (set_waker e2 ep)) = unat gap"
    using offcpu_delta_exact [of "env_ktime e3" "env_ktime e1"] gap off by (simp_all add: cur_delta_def)
  then have rng: "in_range args (cur_delta e3 (set_waker e2 ep)) (target_offcpu_ns (te_target (set_waker e2 ep)))"
    using gap clock off by (simp add: in_range_def word_le_nat_alt)
  have tgt: "target_pid (te_target (set_waker e2 ep)) = ?k"
    using inv(2) ep by (auto simp: offcpu_inv_def start_ok_def entry_ok_def)
  have "perf_out (offcpu_step (Switch e3 t3 p) s2)
      = perf_out s2 @ [cur_perf e3 args t3 (set_waker e2 ep) (perf_event_cache_map s2 (env_cpu e3) ! 0)]"
    using target same others(2) ep rng by (intro resume_emits [OF inv(2)]) simp_all
  moreover have "run offcpu_step (?pre @ [Switch e3 t3 p]) s = offcpu_step (Switch e3 t3 p) s2"
    unfolding s2_def by (simp only: run_append run_Cons run_Nil)
  ultimately show ?thesis
    using delta(1) tgt delay by (simp add: s2_def set_waker_fields runq_dur_of_def del: offcpu_step.simps)
qed

section \<open>Properties\<close>

text \<open>A small scene for the witnesses: two tasks on processor 0, a run-queue threshold of 1 ms.\<close>

definition sample_task :: "u32 \<Rightarrow> u64 \<Rightarrow> task_struct" where
  "sample_task pid run_delay = \<lparr>task_pid = pid, task_tgid = pid, task_on_rq = 0, task___state = Some 1,
     task_state = 0, task_comm = [], task_prio = 120, task_run_delay = run_delay\<rparr>"

definition sample_env :: "u32 \<Rightarrow> u64 \<Rightarrow> bpf_env" where
  "sample_env pid ts = \<lparr>env_ktime = ts, env_tgid = pid, env_pid = pid, env_comm = [], env_cpu = 0,
     env_stackid = (\<lambda>_. 5)\<rparr>"

definition sample_args :: user_args where
  "sample_args = \<lparr>arg_pid = 7, arg_tgid = minus1, min_offcpu_ms = 1, max_offcpu_ms = 100, rq_dur_ms = 1\<rparr>"

text \<open>Task 7 leaves the processor, is woken by task 9 and comes back: once with 5 ms of
  run-queue delay, once with none.\<close>

definition sample_sleep :: "u64 \<Rightarrow> u64 \<Rightarrow> u64 \<Rightarrow> offcpu_ev list" where
  "sample_sleep ts d0 d1 =
     [Switch (sample_env 9 ts) (sample_task 9 0) (sample_task 7 d0),
      Wakeup (sample_env 9 (ts + 1000000)) (sample_task 7 d0) 1,
      Switch (sample_env 7 (ts + 3000000)) (sample_task 7 d1) (sample_task 9 0)]"

lemmas sample_defs = sample_task_def sample_env_def sample_args_def sample_sleep_def

lemma zero_cache_fields [eval_defs]: "sc_status zero_cache = 0" "sc_id zero_cache = 0"
  by (simp_all add: zero_cache_def)

definition sample_out :: "perf_event_t list" where
  "sample_out = perf_out (run offcpu_step (sample_sleep 1000000 0 5000000) (offcpu_init sample_args))"

lemma sample_out_one: "\<exists>pe. sample_out = [pe] \<and> target_offcpu_ns (pe_target pe) = 1000000 \<and>
    pe_ts_ns pe = 4000000 \<and> pe_dur_ms pe = 3 \<and> pe_is_sched_cache_dump pe = 1"
  by (simp add: sample_out_def sample_defs eval_defs) (simp add: Let_def)

text \<open>C5. A sleep of a selected task is reported: the task leaves the processor, is woken, and gets the
  processor back, with any events of other tasks in between. The last record then carries the
  waker of that wake-up, the whole time off the processor, and the growth of the run-queue delay. This
  needs room in the start map when the task leaves, a clock other than zero there, a wake-up that
  matches the state of the task and finds it off the run queue, and a time off the processor of less than 2^31 ms
  inside the configured range.\<close>

theorem offcpu_sleep_reported:
  assumes s: "s = run offcpu_step es0 (offcpu_init args)"
    and room: "0 < hash_free (start s)"
    and same: "task_pid t2 = task_pid t1" "task_pid t3 = task_pid t1"
      "task_tgid t2 = task_tgid t1" "task_tgid t3 = task_tgid t1"
    and target: "target_filter args (task_tgid t1) (task_pid t1)"
    and others: "task_pid c \<noteq> task_pid t1" "task_pid p \<noteq> task_pid t1"
      "\<forall>e \<in> set (es1 @ es2). \<not> about (task_pid t1) e"
    and wakes: "get_task_state t2 AND st \<noteq> 0" "task_on_rq t2 \<noteq> 1"
    and gap: "gap = (env_ktime e3 - env_ktime e1) div 1000000" "gap < 2 ^ 31"
      "unat (min_offcpu_ms args) \<le> unat gap" "unat gap \<le> unat (max_offcpu_ms args)"
    and clock: "env_ktime e1 \<noteq> 0"
  shows "\<exists>pe. perf_out (run offcpu_step
        ([Switch e1 c t1] @ es1 @ [Wakeup e2 t2 st] @ es2 @ [Switch e3 t3 p]) s)
      = perf_out (run offcpu_step ([Switch e1 c t1] @ es1 @ [Wakeup e2 t2 st] @ es2) s) @ [pe] \<and>
      target_pid (pe_target pe) = task_pid t1 \<and> pe_dur_ms pe = gap \<and> pe_ts_ns pe = env_ktime e3 \<and>
      waker_pid (pe_waker pe) = env_pid e2 \<and> waker_tgid (pe_waker pe) = env_tgid e2 \<and>
      waker_offcpu_ns (pe_waker pe) = env_ktime e2 \<and>
      pe_rq_dur_ms pe = scast (ucast ((task_run_delay t3 - task_run_delay t1) div 1000000) :: s32)"
proof -
  have "offcpu_inv args s" unfolding s by (intro offcpu.run_inv offcpu_inv_init)
  then show ?thesis by (rule sleep_emits) fact+
qed

theorem offcpu_sleep_reported_witness:
  "\<exists>pe. last (perf_out (run offcpu_step (sample_sleep 1000000 0 0) (offcpu_init sample_args))) = pe \<and>
     pe_dur_ms pe = 3 \<and> waker_pid (pe_waker pe) = 9"
proof -
  have "\<exists>pe. perf_out (run offcpu_step
        ([Switch (sample_env 9 1000000) (sample_task 9 0) (sample_task 7 0)] @ [] @
         [Wakeup (sample_env 9 2000000) (sample_task 7 0) 1] @ [] @
         [Switch (sample_env 7 4000000) (sample_task 7 0) (sample_task 9 0)])
        (offcpu_init sample_args))
      = perf_out (run offcpu_step
        ([Switch (sample_env 9 1000000) (sample_task 9 0) (sample_task 7 0)] @ [] @
         [Wakeup (sample_env 9 2000000) (sample_task 7 0) 1] @ []) (offcpu_init sample_args)) @ [pe] \<and>
      target_pid (pe_target pe) = task_pid (sample_task 7 0) \<and> pe_dur_ms pe = 3 \<and>
      pe_ts_ns pe = env_ktime (sample_env 7 4000000) \<and>
      waker_pid (pe_waker pe) = env_pid (sample_env 9 2000000) \<and>
      waker_tgid (pe_waker pe) = env_tgid (sample_env 9 2000000) \<and>
      waker_offcpu_ns (pe_waker pe) = env_ktime (sample_env 9 2000000) \<and>
      pe_rq_dur_ms pe = scast (ucast ((task_run_delay (sample_task 7 0) - task_run_delay (sample_task 7 0))
        div 1000000) :: s32)"
    by (rule offcpu_sleep_reported [where ?es0.0 = "[]" and args = sample_args])
      (simp_all add: sample_defs target_filter_def offcpu_init_def MAX_ENTRIES_def get_task_state_def)
  then show ?thesis
    by (elim exE) (simp add: sample_sleep_def last_append sample_env_def del: offcpu_step.simps)
qed

text \<open>C2. With a run-queue threshold set, the cache of a processor is a faithful ring over its switches:
  after any run, each of the last 512 tasks that left the processor is in the slot of its
  position, recording stays on, and the position counter is the number of switches modulo 2^32. With
  the threshold 0 nothing is recorded: the cache stays as it was created.\<close>

theorem offcpu_ring_faithful:
  assumes "cache = sched_cache_map (run offcpu_step es (offcpu_init args)) c ! 0"
  shows "if rq_dur_ms args = 0 then cache = zero_cache
    else sc_status cache = SCHED_CACHE_RECORD_ON \<and> sc_id cache = of_nat (length (switch_log c es)) \<and>
    length (sc_records cache) = SCHED_CACHE_SIZE \<and>
    (\<forall>j < length (switch_log c es). length (switch_log c es) \<le> j + SCHED_CACHE_SIZE \<longrightarrow>
       sc_records cache ! (j mod SCHED_CACHE_SIZE) = switch_log c es ! j)"
  using ring_run [OF offcpu_inv_init _ ring_init, of args c es] ring_off [OF offcpu_inv_init, of args es] assms
  by (simp add: ring.logged_def recording_def ring_holds_def offcpu_init_def)

theorem offcpu_ring_faithful_witness:
  "map sr_pid (take 2 (sc_records (sched_cache_map
     (run offcpu_step (sample_sleep 1000000 0 0) (offcpu_init sample_args)) 0 ! 0))) = [7, 9]"
proof -
  let ?es = "sample_sleep 1000000 0 0"
  let ?rs = "sc_records (sched_cache_map (run offcpu_step ?es (offcpu_init sample_args)) 0 ! 0)"
  have log: "switch_log 0 ?es = [task_record (sample_task 7 0) 1000000, task_record (sample_task 9 0) 4000000]"
    by (simp add: sample_sleep_def sample_env_def)
  have "rq_dur_ms sample_args \<noteq> 0" by (simp add: sample_args_def)
  with offcpu_ring_faithful [OF refl, of sample_args ?es 0] have h:
    "length ?rs = SCHED_CACHE_SIZE" "\<forall>j < length (switch_log 0 ?es). length (switch_log 0 ?es) \<le> j + SCHED_CACHE_SIZE \<longrightarrow>
       ?rs ! (j mod SCHED_CACHE_SIZE) = switch_log 0 ?es ! j" by simp_all
  then have len: "length ?rs = 512" by (simp add: SCHED_CACHE_SIZE_def)
  have n: "?rs ! 0 = task_record (sample_task 7 0) 1000000" "?rs ! 1 = task_record (sample_task 9 0) 4000000"
    using h spec [of _ 0] by (auto simp: log SCHED_CACHE_SIZE_def All_less_Suc)
  have "take 2 ?rs = [?rs ! 0, ?rs ! 1]"
    using len by (simp add: list_eq_iff_nth_eq less_Suc_eq numeral_2_eq_2)
  with n show ?thesis by (simp add: task_record_def sample_task_def)
qed

text \<open>C32. The dump flag of a processor's event is never cleared: after one event that reported a dump,
  every later event of that processor reports one, whatever its own run-queue delay.\<close>

theorem offcpu_dump_flag_sticks:
  assumes "slots_ready s" and "dump_flag s (env_cpu env) = 1"
    and "t = run offcpu_step es s"
    and "pe \<in> set (drop (length (perf_out t)) (perf_out (offcpu_step (Switch env cur pre) t)))"
  shows "pe_is_sched_cache_dump pe = 1"
proof -
  have "flag_stuck (env_cpu env) t"
    unfolding assms(3) using assms(1,2) by (intro flag.run_inv) (simp add: flag_stuck_def)
  then have "slots_ready t" "slots_ready (mid_switch env pre t)" "dump_flag (mid_switch env pre t) (env_cpu env) = 1"
    by (simp_all add: flag_stuck_def mid_switch_ready)
  with cur_flag(2) [of "mid_switch env pre t" "env_cpu env" env pe "args_map t ! 0" cur] assms(4)
  show ?thesis by (simp add: switch_mid)
qed

theorem offcpu_dump_flag_sticks_witness:
  "\<exists>pe. pe_rq_dur_ms pe = 0 \<and> pe_is_sched_cache_dump pe = 1 \<and>
     pe \<in> set (perf_out (run offcpu_step (sample_sleep 1000000 0 5000000 @ sample_sleep 8000000 5000000 5000000)
       (offcpu_init sample_args)))"
proof -
  let ?env = "sample_env 7 11000000" and ?cur = "sample_task 7 5000000" and ?pre = "sample_task 9 0"
  let ?es = "[Switch (sample_env 9 8000000) (sample_task 9 0) (sample_task 7 5000000),
      Wakeup (sample_env 9 9000000) (sample_task 7 5000000) 1]"
  define s where "s = run offcpu_step (sample_sleep 1000000 0 5000000) (offcpu_init sample_args)"
  define t where "t = run offcpu_step ?es s"
  have inv: "offcpu_inv sample_args s" unfolding s_def by (intro offcpu.run_inv offcpu_inv_init)
  then have ready: "slots_ready s" by (simp add: offcpu_inv_def)
  have flag: "dump_flag s (env_cpu ?env) = 1" and room: "0 < hash_free (start s)"
    by (simp add: s_def dump_flag_def sample_defs eval_defs, simp add: Let_def)+
  have "\<exists>pe. perf_out (run offcpu_step ([Switch (sample_env 9 8000000) (sample_task 9 0) ?cur] @ [] @
        [Wakeup (sample_env 9 9000000) ?cur 1] @ [] @ [Switch ?env ?cur ?pre]) s)
      = perf_out (run offcpu_step ([Switch (sample_env 9 8000000) (sample_task 9 0) ?cur] @ [] @
        [Wakeup (sample_env 9 9000000) ?cur 1] @ []) s) @ [pe] \<and>
      target_pid (pe_target pe) = task_pid ?cur \<and> pe_dur_ms pe = 3 \<and> pe_ts_ns pe = env_ktime ?env \<and>
      waker_pid (pe_waker pe) = env_pid (sample_env 9 9000000) \<and>
      waker_tgid (pe_waker pe) = env_tgid (sample_env 9 9000000) \<and>
      waker_offcpu_ns (pe_waker pe) = env_ktime (sample_env 9 9000000) \<and>
      pe_rq_dur_ms pe = scast (ucast ((task_run_delay ?cur - task_run_delay ?cur) div 1000000) :: s32)"
    by (rule sleep_emits [OF inv room]) (simp_all add: sample_defs target_filter_def get_task_state_def)
  then obtain pe where pe: "perf_out (offcpu_step (Switch ?env ?cur ?pre) t) = perf_out t @ [pe]"
    and rq: "pe_rq_dur_ms pe = 0" by (auto simp: t_def simp del: offcpu_step.simps)
  have "pe_is_sched_cache_dump pe = 1"
    by (rule offcpu_dump_flag_sticks [OF ready flag t_def, of pe ?cur ?pre]) (simp add: pe del: offcpu_step.simps)
  moreover have "run offcpu_step (sample_sleep 1000000 0 5000000 @ sample_sleep 8000000 5000000 5000000)
      (offcpu_init sample_args) = offcpu_step (Switch ?env ?cur ?pre) t"
    by (simp add: run_append t_def s_def sample_sleep_def del: offcpu_step.simps)
  ultimately show ?thesis using rq pe by (auto simp del: offcpu_step.simps)
qed


end
