(* ===== verification/Oncpu.thy ===== *)
theory Oncpu
  imports Bpf_Map Bpf_Env
begin

text \<open>
  The sampling profiler \<open>oncpu.bpf.c\<close>: one perf-event handler that counts samples per process,
  name and pair of stacks. The handler is an instance of the accounting contract of
  \<^emph>\<open>Bpf_Map\<close>, which gives the count of every key after a run. The handler's key is a C struct
  with four bytes of padding after \<open>pid\<close>; the model compares keys by their fields.
\<close>

section \<open>Data\<close>

definition PROFILE_MAPS_SIZE :: nat where "PROFILE_MAPS_SIZE = 16384"

record profile_key_t =
  pk_pid :: u32
  kern_stack :: s64
  user_stack :: s64
  pk_comm :: bytes

record profile_bss_args_t =
  tgid_filter :: u32
  cpu_filter :: s32
  space_filter :: s32

record oncpu_state =
  counts :: "(profile_key_t, u32) bpf_hash"
  args :: "profile_bss_args_t bpf_array"

definition oncpu_init :: "profile_bss_args_t \<Rightarrow> oncpu_state" where
  "oncpu_init arg = \<lparr>counts = hash_empty PROFILE_MAPS_SIZE, args = [arg]\<rparr>"

section \<open>Handler\<close>

definition KERN_STACKID_FLAGS :: u64 where
  "KERN_STACKID_FLAGS = 0 OR BPF_F_FAST_STACK_CMP"

definition USER_STACKID_FLAGS :: u64 where
  "USER_STACKID_FLAGS = 0 OR BPF_F_FAST_STACK_CMP OR BPF_F_USER_STACK"

definition do_perf_event :: "bpf_env \<Rightarrow> oncpu_state \<Rightarrow> oncpu_state" where
  "do_perf_event env s =
     (let id = bpf_get_current_pid_tgid env; tgid = tgid_of id; pid = tid_of id
      in case array_lookup_elem (args s) 0 of
        None \<Rightarrow> s
      | Some arg \<Rightarrow>
          if tgid_filter arg \<noteq> 0 \<and> tgid \<noteq> tgid_filter arg then s
          else if pid = 0 \<and> space_filter arg = 0 then s
          else
            let key = \<lparr>pk_pid = tgid, kern_stack = bpf_get_stackid env KERN_STACKID_FLAGS,
                  user_stack = bpf_get_stackid env USER_STACKID_FLAGS,
                  pk_comm = bpf_get_current_comm 16 env\<rparr>
            in case bpf_map_lookup_elem (counts s) key of
              Some val \<Rightarrow> s\<lparr>counts := elem_write (counts s) key (\<lambda>v. v + 1)\<rparr>
            | None \<Rightarrow> s\<lparr>counts := snd (bpf_map_update_elem (counts s) key 1 BPF_NOEXIST)\<rparr>)"

lemmas [eval_defs] = PROFILE_MAPS_SIZE_def oncpu_init_def KERN_STACKID_FLAGS_def
  USER_STACKID_FLAGS_def do_perf_event_def

section \<open>The accounting contract\<close>

text \<open>The key a sample is counted under, or nothing when it is filtered out.\<close>

definition profile_key :: "bpf_env \<Rightarrow> profile_key_t" where
  "profile_key env = \<lparr>pk_pid = env_tgid env, kern_stack = bpf_get_stackid env KERN_STACKID_FLAGS,
     user_stack = bpf_get_stackid env USER_STACKID_FLAGS, pk_comm = bpf_get_current_comm 16 env\<rparr>"

definition sampled :: "profile_bss_args_t \<Rightarrow> bpf_env \<Rightarrow> bool" where
  "sampled arg env \<longleftrightarrow> (tgid_filter arg = 0 \<or> env_tgid env = tgid_filter arg) \<and>
     (env_pid env \<noteq> 0 \<or> space_filter arg \<noteq> 0)"

definition sample_key :: "oncpu_state \<Rightarrow> bpf_env \<Rightarrow> profile_key_t option" where
  "sample_key s env = (case args s of
     [] \<Rightarrow> None | arg # _ \<Rightarrow> if sampled arg env then Some (profile_key env) else None)"

lemma do_perf_event_skip: "sample_key s env = None \<Longrightarrow> do_perf_event env s = s"
  by (auto simp: sample_key_def sampled_def do_perf_event_def array_lookup_elem_def Let_def
      split: list.splits if_splits)

lemma do_perf_event_count:
  "sample_key s env = Some k \<Longrightarrow> do_perf_event env s =
     (case bpf_map_lookup_elem (counts s) k of
        Some v \<Rightarrow> s\<lparr>counts := elem_write (counts s) k (\<lambda>v. v + 1)\<rparr>
      | None \<Rightarrow> s\<lparr>counts := snd (bpf_map_update_elem (counts s) k 1 BPF_NOEXIST)\<rparr>)"
  by (auto simp: sample_key_def sampled_def do_perf_event_def array_lookup_elem_def Let_def
      profile_key_def split: list.splits if_splits option.splits)

lemma do_perf_event_args [simp]: "args (do_perf_event env s) = args s"
  by (auto simp: do_perf_event_def Let_def split: option.splits)

interpretation oncpu: accounting do_perf_event "\<lambda>s. bpf_map_lookup_elem (counts s)" sample_key
  "\<lambda>s. hash_free (counts s)" "\<lambda>_. 1" "\<lambda>_ v. v + 1"
proof (unfold_locales, goal_cases)
  case (1 e s)
  show ?case by (simp add: sample_key_def fun_eq_iff)
next
  case (2 s e)
  then show ?case by (simp add: do_perf_event_skip)
next
  case (3 s e k v)
  then show ?case by (simp add: do_perf_event_count map_laws)
next
  case (4 s e k)
  then show ?case
    by (simp add: do_perf_event_count insert_effect(1) flag_defs)
next
  case (5 s e k)
  then show ?case
    by (simp add: do_perf_event_count insert_effect(2) flag_defs)
qed

lemma fold_count: "fold (\<lambda>_ v. v + 1) es (v :: u32) = v + of_nat (length es)"
  by (induction es arbitrary: v) (simp_all add: ac_simps)

lemma accumulated_count:
  "accumulated (\<lambda>_. 1) (\<lambda>_ v. v + 1) None es
     = (if es = [] then None else Some (of_nat (length es) :: u32))"
  by (cases es) (simp_all add: fold_count)

section \<open>Properties\<close>

definition sample_sample :: "u32 \<Rightarrow> bpf_env" where
  "sample_sample pid = \<lparr>env_ktime = 0, env_tgid = pid, env_pid = pid, env_comm = [], env_cpu = 0,
     env_stackid = (\<lambda>_. 5)\<rparr>"

text \<open>C18. While the distinct keys of the accepted samples fit the map, every key's counter is the number
  of accepted samples with that key, modulo 2^32, and no other key has one.\<close>

theorem oncpu_counts_samples:
  assumes "card (profile_key ` {e \<in> set es. sampled arg e}) \<le> PROFILE_MAPS_SIZE"
    and "hits = filter (\<lambda>e. sampled arg e \<and> profile_key e = k) es"
  shows "bpf_map_lookup_elem (counts (run do_perf_event es (oncpu_init arg))) k
    = (if hits = [] then None else Some (of_nat (length hits)))"
proof -
  let ?s = "oncpu_init arg"
  have key: "sample_key ?s e = (if sampled arg e then Some (profile_key e) else None)" for e
    by (simp add: sample_key_def oncpu_init_def)
  have "oncpu.new_keys ?s es = profile_key ` {e \<in> set es. sampled arg e}"
    by (auto simp: oncpu.new_keys_def sample_key_def oncpu_init_def split: if_splits)
  with assms(1) have "card (oncpu.new_keys ?s es) \<le> hash_free (counts ?s)"
    by (simp add: oncpu_init_def)
  note c = oncpu.run_complete [OF this, of k]
  have "filter (\<lambda>e. sample_key ?s e = Some k) es = hits"
    unfolding assms(2) by (rule filter_cong) (auto simp: key)
  with c show ?thesis by (simp add: oncpu_init_def accumulated_count)
qed

theorem oncpu_counts_samples_witness:
  "bpf_map_lookup_elem (counts (run do_perf_event [sample_sample 3, sample_sample 4, sample_sample 3]
     (oncpu_init \<lparr>tgid_filter = 3, cpu_filter = 0, space_filter = 0\<rparr>))) (profile_key (sample_sample 3))
     = Some 2"
proof -
  let ?es = "[sample_sample 3, sample_sample 4, sample_sample 3]"
  let ?arg = "\<lparr>tgid_filter = 3, cpu_filter = 0, space_filter = 0\<rparr> :: profile_bss_args_t"
  have "{e \<in> set ?es. sampled ?arg e} = {sample_sample 3}"
    by (auto simp: sampled_def sample_sample_def)
  then have c: "card (profile_key ` {e \<in> set ?es. sampled ?arg e}) \<le> PROFILE_MAPS_SIZE"
    by (simp add: PROFILE_MAPS_SIZE_def)
  have h: "[sample_sample 3, sample_sample 3]
      = filter (\<lambda>e. sampled ?arg e \<and> profile_key e = profile_key (sample_sample 3)) ?es"
    by (simp add: sampled_def sample_sample_def)
  from oncpu_counts_samples [OF c h] show ?thesis by simp
qed

text \<open>A full map loses new keys only: a key that has a counter keeps counting every accepted sample,
  whatever else is sampled.\<close>

theorem oncpu_present_key_exact:
  assumes "args s = arg # rest" and "bpf_map_lookup_elem (counts s) k = Some v"
  shows "bpf_map_lookup_elem (counts (run do_perf_event es s)) k
    = Some (v + of_nat (length (filter (\<lambda>e. sampled arg e \<and> profile_key e = k) es)))"
proof -
  have "filter (\<lambda>e. sample_key s e = Some k) es = filter (\<lambda>e. sampled arg e \<and> profile_key e = k) es"
    by (rule filter_cong) (auto simp: sample_key_def assms(1))
  with oncpu.run_present [OF assms(2), of es] show ?thesis by (simp add: fold_count)
qed

theorem oncpu_present_key_exact_witness:
  "bpf_map_lookup_elem (counts (run do_perf_event [sample_sample 3]
     (do_perf_event (sample_sample 3) (oncpu_init \<lparr>tgid_filter = 0, cpu_filter = 0, space_filter = 0\<rparr>))))
     (profile_key (sample_sample 3)) = Some 2"
proof -
  let ?arg = "\<lparr>tgid_filter = 0, cpu_filter = 0, space_filter = 0\<rparr> :: profile_bss_args_t"
  let ?s = "do_perf_event (sample_sample 3) (oncpu_init ?arg)"
  have a: "args ?s = ?arg # []" by (simp add: oncpu_init_def)
  have v: "bpf_map_lookup_elem (counts ?s) (profile_key (sample_sample 3)) = Some 1"
    by (simp add: eval_defs profile_key_def sample_sample_def)
  from oncpu_present_key_exact [OF a v, of "[sample_sample 3]"] show ?thesis
    by (simp add: sampled_def sample_sample_def)
qed

end
