(* ===== verification/Syscall_Trace.thy ===== *)
theory Syscall_Trace
  imports Bpf_Map Bpf_Env
begin

text \<open>
  The system call latency tracer \<open>syscall.bpf.c\<close>: the entry hook stores a start record under the
  thread id, the exit hook turns it into an event when the duration lies in the configured
  window. Both run to completion before the next hook. The lemmas show what an event says, that
  an entry and an exit of a thread give exactly one event with their duration, and what happens
  when the start map, from which nothing is ever deleted, is full.
\<close>

section \<open>Data\<close>

definition MAX_ENTRIES :: nat where "MAX_ENTRIES = 10240"

record user_args =
  ua_pid :: u32
  ua_tid :: u32
  min_syscall_ms :: u32
  max_syscall_ms :: u32
  ua_stack :: bool
  ua_syscall_id :: u32

record syscall_event =
  se_pid :: u32
  se_tid :: u32
  ts_ns :: u64
  dur_us :: u64
  u_stack_id :: s64
  k_stack_id :: s64
  se_syscall_id :: u64
  se_comm :: bytes

record syscall_state =
  start :: "(u32, syscall_event) bpf_hash"
  args_map :: "user_args bpf_array"
  perf_out :: "syscall_event list"

definition zero_event :: syscall_event where
  "zero_event = \<lparr>se_pid = 0, se_tid = 0, ts_ns = 0, dur_us = 0, u_stack_id = 0, k_stack_id = 0,
     se_syscall_id = 0, se_comm = replicate 16 0\<rparr>"

definition zero_args :: user_args where
  "zero_args = \<lparr>ua_pid = 0, ua_tid = 0, min_syscall_ms = 0, max_syscall_ms = 0, ua_stack = False,
     ua_syscall_id = 0\<rparr>"

definition syscall_init :: "user_args \<Rightarrow> syscall_state" where
  "syscall_init args = \<lparr>start = hash_empty MAX_ENTRIES, args_map = args # replicate 7 zero_args,
     perf_out = []\<rparr>"

section \<open>Hooks\<close>

text \<open>The three guards both hooks share.\<close>

definition filtered_out :: "user_args \<Rightarrow> u32 \<Rightarrow> u32 \<Rightarrow> u32 \<Rightarrow> bool" where
  "filtered_out user_args pid tid syscall_id \<longleftrightarrow>
     (ua_pid user_args \<noteq> 0 \<and> ua_pid user_args \<noteq> pid) \<or>
     (ua_tid user_args \<noteq> 0 \<and> ua_tid user_args \<noteq> tid) \<or>
     (ua_syscall_id user_args \<noteq> minus1 \<and> ua_syscall_id user_args \<noteq> syscall_id)"

definition sys_enter :: "bpf_env \<Rightarrow> s64 \<Rightarrow> syscall_state \<Rightarrow> syscall_state" where
  "sys_enter env nr s =
     (let pid_tgid = bpf_get_current_pid_tgid env; pid = tgid_of pid_tgid; tid = tid_of pid_tgid
      in case array_lookup_elem (args_map s) 0 of
        None \<Rightarrow> s
      | Some user_args \<Rightarrow>
          let syscall_id = ucast nr
          in if filtered_out user_args pid tid syscall_id then s
             else
               let event = zero_event\<lparr>ts_ns := bpf_ktime_get_ns env, se_pid := pid, se_tid := tid\<rparr>
               in s\<lparr>start := snd (bpf_map_update_elem (start s) tid event 0)\<rparr>)"

definition sys_exit :: "bpf_env \<Rightarrow> s64 \<Rightarrow> syscall_state \<Rightarrow> syscall_state" where
  "sys_exit env nr s =
     (let pid_tgid = bpf_get_current_pid_tgid env; pid = tgid_of pid_tgid; tid = tid_of pid_tgid
      in if nr = - 1 then s
      else case array_lookup_elem (args_map s) 0 of
        None \<Rightarrow> s
      | Some user_args \<Rightarrow>
          let syscall_id = (ucast nr :: u32)
          in if filtered_out user_args pid tid syscall_id then s
             else case bpf_map_lookup_elem (start s) tid of
               None \<Rightarrow> s
             | Some eventp \<Rightarrow>
                 let dur = bpf_ktime_get_ns env - ts_ns eventp
                 in if dur div 1000000 \<ge> ucast (min_syscall_ms user_args) \<and>
                       dur div 1000000 \<le> ucast (max_syscall_ms user_args)
                    then
                      let event = eventp\<lparr>dur_us := dur div 1000\<rparr>;
                          event = (if ua_stack user_args
                            then event\<lparr>u_stack_id := bpf_get_stackid env
                                         (BPF_F_USER_STACK OR BPF_F_FAST_STACK_CMP),
                                       k_stack_id := bpf_get_stackid env BPF_F_FAST_STACK_CMP\<rparr>
                            else event);
                          event = event\<lparr>se_syscall_id := ucast syscall_id,
                                        se_comm := bpf_get_current_comm 16 env\<rparr>
                      in s\<lparr>perf_out := perf_out s @ [event]\<rparr>
                    else s)"

datatype syscall_ev = Sys_enter bpf_env s64 | Sys_exit bpf_env s64

fun syscall_step :: "syscall_ev \<Rightarrow> syscall_state \<Rightarrow> syscall_state" where
  "syscall_step (Sys_enter env nr) s = sys_enter env nr s"
| "syscall_step (Sys_exit env nr) s = sys_exit env nr s"

lemmas [eval_defs] = MAX_ENTRIES_def zero_event_def zero_args_def syscall_init_def filtered_out_def
  sys_enter_def sys_exit_def

section \<open>The hooks on a state with arguments\<close>

definition has_args :: "user_args \<Rightarrow> syscall_state \<Rightarrow> bool" where
  "has_args args s \<longleftrightarrow> array_lookup_elem (args_map s) 0 = Some args"

definition entered :: "bpf_env \<Rightarrow> syscall_event" where
  "entered env = zero_event\<lparr>ts_ns := env_ktime env, se_pid := env_tgid env, se_tid := env_pid env\<rparr>"

definition in_window :: "user_args \<Rightarrow> u64 \<Rightarrow> bool" where
  "in_window args dur \<longleftrightarrow> unat (min_syscall_ms args) \<le> unat dur div 1000000 \<and>
     unat dur div 1000000 \<le> unat (max_syscall_ms args)"

definition completed :: "user_args \<Rightarrow> bpf_env \<Rightarrow> s64 \<Rightarrow> syscall_event \<Rightarrow> syscall_event" where
  "completed args env nr ev = ev\<lparr>dur_us := (env_ktime env - ts_ns ev) div 1000,
     u_stack_id := (if ua_stack args then env_stackid env 768 else u_stack_id ev),
     k_stack_id := (if ua_stack args then env_stackid env 512 else k_stack_id ev),
     se_syscall_id := ucast (ucast nr :: u32), se_comm := bpf_get_current_comm 16 env\<rparr>"

definition passes :: "user_args \<Rightarrow> bpf_env \<Rightarrow> s64 \<Rightarrow> bool" where
  "passes args env nr \<longleftrightarrow> \<not> filtered_out args (env_tgid env) (env_pid env) (ucast nr)"

lemma in_window_word:
  "dur div 1000000 \<ge> ucast (min_syscall_ms args) \<and> dur div 1000000 \<le> ucast (max_syscall_ms args)
     \<longleftrightarrow> in_window args dur"
  by (simp add: in_window_def word_le_nat_alt unat_div unat_ucast_widen)

lemma sys_enter_eq:
  assumes "has_args args s"
  shows "sys_enter env nr s = (if passes args env nr
    then s\<lparr>start := snd (bpf_map_update_elem (start s) (env_pid env) (entered env) BPF_ANY)\<rparr> else s)"
  using assms
  by (simp add: sys_enter_def has_args_def passes_def entered_def bpf_ktime_get_ns_def BPF_ANY_def Let_def)

lemma sys_exit_eq:
  assumes "has_args args s"
  shows "sys_exit env nr s = (if nr \<noteq> - 1 \<and> passes args env nr
    then case bpf_map_lookup_elem (start s) (env_pid env) of
        None \<Rightarrow> s
      | Some ev \<Rightarrow> if in_window args (env_ktime env - ts_ns ev)
          then s\<lparr>perf_out := perf_out s @ [completed args env nr ev]\<rparr> else s
    else s)"
  using assms
  by (auto simp: sys_exit_def has_args_def passes_def completed_def bpf_ktime_get_ns_def in_window_word
      bpf_get_stackid_def BPF_F_USER_STACK_def BPF_F_FAST_STACK_CMP_def Let_def split: option.splits)

lemma perf_out_enter [simp]: "perf_out (sys_enter env nr s) = perf_out s"
  by (auto simp: sys_enter_def Let_def split: option.splits)

lemma sys_exit_cases:
  assumes "has_args args s"
  obtains (quiet) "sys_exit env nr s = s"
  | (emit) ev where "passes args env nr" "bpf_map_lookup_elem (start s) (env_pid env) = Some ev"
      "in_window args (env_ktime env - ts_ns ev)"
      "sys_exit env nr s = s\<lparr>perf_out := perf_out s @ [completed args env nr ev]\<rparr>"
  using sys_exit_eq [OF assms, of env nr] by (auto split: if_splits option.splits)

lemma has_args_step [simp]: "has_args args (syscall_step e s) = has_args args s"
proof -
  have "args_map (syscall_step e s) = args_map s"
    by (cases e) (auto simp: sys_enter_def sys_exit_def Let_def split: option.splits)
  then show ?thesis by (simp add: has_args_def)
qed

lemma has_args_run [simp]: "has_args args (run syscall_step es s) = has_args args s"
  by (induction es arbitrary: s) simp_all

lemma has_args_init: "has_args args (syscall_init args)"
  by (simp add: has_args_def syscall_init_def array_lookup_elem_def)

section \<open>What an event says\<close>

definition entry_ok :: "user_args \<Rightarrow> u32 \<Rightarrow> syscall_event \<Rightarrow> bool" where
  "entry_ok args tid ev \<longleftrightarrow> se_tid ev = tid \<and> (ua_pid args = 0 \<or> se_pid ev = ua_pid args) \<and>
     (ua_tid args = 0 \<or> se_tid ev = ua_tid args)"

definition event_ok :: "user_args \<Rightarrow> syscall_event \<Rightarrow> bool" where
  "event_ok args ev \<longleftrightarrow> entry_ok args (se_tid ev) ev \<and>
     (ua_syscall_id args = minus1 \<or> se_syscall_id ev = ucast (ua_syscall_id args)) \<and>
     unat (min_syscall_ms args) \<le> unat (dur_us ev) div 1000 \<and>
     unat (dur_us ev) div 1000 \<le> unat (max_syscall_ms args)"

definition syscall_inv :: "user_args \<Rightarrow> syscall_state \<Rightarrow> bool" where
  "syscall_inv args s \<longleftrightarrow> has_args args s \<and> hash_wf (start s) \<and>
     (\<forall>k ev. bpf_map_lookup_elem (start s) k = Some ev \<longrightarrow> entry_ok args k ev) \<and>
     (\<forall>ev \<in> set (perf_out s). event_ok args ev)"

lemma completed_ok:
  assumes "entry_ok args k ev" and "passes args env nr" and "in_window args (env_ktime env - ts_ns ev)"
  shows "event_ok args (completed args env nr ev)"
  using assms
  by (auto simp: event_ok_def entry_ok_def completed_def passes_def filtered_out_def in_window_def
      unat_div div_mult2_eq [symmetric])

lemma syscall_inv_step:
  assumes inv: "syscall_inv args s"
  shows "syscall_inv args (syscall_step e s)"
proof (cases e)
  case (Sys_enter env nr)
  have "passes args env nr \<Longrightarrow> entry_ok args (env_pid env) (entered env)"
    by (auto simp: entry_ok_def entered_def passes_def filtered_out_def)
  then show ?thesis
    using Sys_enter inv has_args_step [of args e s]
    by (auto simp: syscall_inv_def sys_enter_eq map_laws split: if_splits)
next
  case (Sys_exit env nr)
  have args: "has_args args s" using inv by (simp add: syscall_inv_def)
  then show ?thesis
  proof (cases rule: sys_exit_cases [of args s env nr])
    case quiet
    then show ?thesis using Sys_exit inv by simp
  next
    case (emit ev)
    have "entry_ok args (env_pid env) ev" using inv emit by (auto simp: syscall_inv_def)
    then have "event_ok args (completed args env nr ev)" using emit by (intro completed_ok)
    then show ?thesis
      using Sys_exit inv emit has_args_step [of args e s] by (auto simp: syscall_inv_def)
  qed
qed

lemma syscall_inv_init: "syscall_inv args (syscall_init args)"
  using has_args_init [of args] by (simp add: syscall_inv_def) (simp add: syscall_init_def)

interpretation syscalls: handler_invariant syscall_step "syscall_inv args" for args
  by unfold_locales (rule syscall_inv_step)

section \<open>One call of a thread\<close>

fun of_thread :: "u32 \<Rightarrow> syscall_ev \<Rightarrow> bool" where
  "of_thread tid (Sys_enter env nr) \<longleftrightarrow> env_pid env = tid"
| "of_thread tid (Sys_exit env nr) \<longleftrightarrow> env_pid env = tid"

lemma start_frame:
  assumes "has_args args s" and "\<forall>e \<in> set es. \<not> of_thread tid e"
  shows "bpf_map_lookup_elem (start (run syscall_step es s)) tid = bpf_map_lookup_elem (start s) tid"
  using assms
proof (induction es arbitrary: s)
  case (Cons e es)
  have "bpf_map_lookup_elem (start (syscall_step e s)) tid = bpf_map_lookup_elem (start s) tid"
    using Cons.prems
    by (cases e) (auto simp: sys_enter_eq sys_exit_eq map_laws split: option.splits)
  then show ?case using Cons by simp
qed simp

lemma enter_entry:
  assumes "has_args args s" and "passes args env nr"
    and "0 < hash_free (start s) \<or> bpf_map_lookup_elem (start s) (env_pid env) \<noteq> None"
  shows "bpf_map_lookup_elem (start (syscall_step (Sys_enter env nr) s)) (env_pid env) = Some (entered env)"
  using assms insert_effect(1) [of "start s" "env_pid env" BPF_ANY "entered env"]
  by (cases "bpf_map_lookup_elem (start s) (env_pid env)")
    (auto simp: sys_enter_eq map_laws)

section \<open>A full start map\<close>

text \<open>The threads that can still be reported once no room is left.\<close>

definition closed_world :: "user_args \<Rightarrow> u32 set \<Rightarrow> syscall_event list \<Rightarrow> syscall_state \<Rightarrow> bool" where
  "closed_world args T old s \<longleftrightarrow> syscall_inv args s \<and> hash_free (start s) = 0 \<and>
     dom (bpf_map_lookup_elem (start s)) = T \<and>
     (\<exists>new. perf_out s = old @ new \<and> se_tid ` set new \<subseteq> T)"

lemma full_update_dom:
  assumes "hash_free m = 0"
  shows "dom (bpf_map_lookup_elem (snd (bpf_map_update_elem m k v BPF_ANY))) = dom (bpf_map_lookup_elem m)"
  using assms by (cases "bpf_map_lookup_elem m k") (auto simp: map_laws hash_del.full_insert_dropped)

lemma closed_world_step:
  assumes cw: "closed_world args T old s"
  shows "closed_world args T old (syscall_step e s)"
proof -
  have inv: "syscall_inv args (syscall_step e s)"
    using cw by (intro syscall_inv_step) (simp add: closed_world_def)
  have args: "has_args args s" using cw by (simp add: closed_world_def syscall_inv_def)
  show ?thesis
  proof (cases e)
    case (Sys_enter env nr)
    then show ?thesis
      using cw inv args
      by (auto simp: closed_world_def sys_enter_eq full_update_dom hash_full_update split: if_splits)
  next
    case (Sys_exit env nr)
    have tid: "se_tid (completed args env nr ev) \<in> T"
      if "bpf_map_lookup_elem (start s) (env_pid env) = Some ev" for ev
      using that cw by (auto simp: closed_world_def syscall_inv_def entry_ok_def completed_def)
    from args show ?thesis
    proof (cases rule: sys_exit_cases [of args s env nr])
      case quiet
      then show ?thesis using Sys_exit cw by simp
    next
      case (emit ev)
      then show ?thesis using Sys_exit cw inv tid by (auto simp: closed_world_def)
    qed
  qed
qed

interpretation closed: handler_invariant syscall_step "closed_world args T old" for args T old
  by unfold_locales (rule closed_world_step)

section \<open>Properties\<close>

definition call_env :: "u32 \<Rightarrow> u64 \<Rightarrow> bpf_env" where
  "call_env tid ts = \<lparr>env_ktime = ts, env_tgid = 7, env_pid = tid, env_comm = [], env_cpu = 0,
     env_stackid = (\<lambda>_. 5)\<rparr>"

definition call_args :: user_args where
  "call_args = \<lparr>ua_pid = 7, ua_tid = 0, min_syscall_ms = 2, max_syscall_ms = 50, ua_stack = False,
     ua_syscall_id = minus1\<rparr>"

text \<open>C16. While the start map has room, a system call of a selected thread is timed exactly once and exactly: after
  its entry, any events of other threads and its exit, one event is appended if the duration lies in
  the window and none otherwise. The event carries the thread, the time of the entry, the duration in
  microseconds and the call's number. The number is one the filter lets through and not -1, which
  the exit hook ignores.\<close>

theorem syscall_pair_reported:
  assumes s: "s = run syscall_step es0 (syscall_init args)"
    and room: "0 < hash_free (start s)"
    and thread: "env_pid e2 = env_pid e1" "env_tgid e2 = env_tgid e1"
    and selected: "\<not> filtered_out args (env_tgid e1) (env_pid e1) (ucast nr)" "nr \<noteq> - 1"
    and others: "\<forall>e \<in> set es. \<not> of_thread (env_pid e1) e"
    and dur: "dur = env_ktime e2 - env_ktime e1"
  shows "\<exists>ev. perf_out (run syscall_step ([Sys_enter e1 nr] @ es @ [Sys_exit e2 nr]) s)
      = perf_out (run syscall_step ([Sys_enter e1 nr] @ es) s) @
        (if unat (min_syscall_ms args) \<le> unat dur div 1000000 \<and>
            unat dur div 1000000 \<le> unat (max_syscall_ms args) then [ev] else []) \<and>
      se_pid ev = env_tgid e1 \<and> se_tid ev = env_pid e1 \<and> ts_ns ev = env_ktime e1 \<and>
      dur_us ev = dur div 1000 \<and> se_syscall_id ev = ucast (ucast nr :: u32) \<and>
      se_comm ev = bpf_get_current_comm 16 e2"
proof -
  define t where "t = run syscall_step es (syscall_step (Sys_enter e1 nr) s)"
  have args: "has_args args s" "has_args args t"
    unfolding s t_def using has_args_init [of args] by (simp_all del: syscall_step.simps)
  have p: "passes args e1 nr" "passes args e2 nr" using selected thread by (simp_all add: passes_def)
  have "bpf_map_lookup_elem (start (syscall_step (Sys_enter e1 nr) s)) (env_pid e1) = Some (entered e1)"
    using args(1) p(1) room by (intro enter_entry) simp_all
  moreover have "has_args args (syscall_step (Sys_enter e1 nr) s)"
    using args(1) by (simp del: syscall_step.simps)
  ultimately have st: "bpf_map_lookup_elem (start t) (env_pid e2) = Some (entered e1)"
    unfolding t_def using start_frame [OF _ others] thread by simp
  have r: "run syscall_step ([Sys_enter e1 nr] @ es @ [Sys_exit e2 nr]) s = sys_exit e2 nr t"
    "run syscall_step ([Sys_enter e1 nr] @ es) s = t"
    by (simp_all add: run_append t_def)
  show ?thesis
    unfolding r
    by (rule exI [of _ "completed args e2 nr (entered e1)"])
      (use p selected st dur in \<open>simp add: sys_exit_eq [OF args(2)] in_window_def, simp add: completed_def entered_def\<close>)
qed

theorem syscall_pair_reported_witness:
  "\<exists>ev. perf_out (run syscall_step [Sys_enter (call_env 8 1000000) 0, Sys_enter (call_env 9 1000000) 0,
       Sys_exit (call_env 8 6000000) 0] (syscall_init call_args)) = [ev] \<and> dur_us ev = 5000"
proof -
  let ?s = "syscall_init call_args"
  have s: "?s = run syscall_step [] (syscall_init call_args)" by simp
  have room: "0 < hash_free (start ?s)" by (simp add: syscall_init_def MAX_ENTRIES_def)
  have th: "env_pid (call_env 8 6000000) = env_pid (call_env 8 1000000)"
    "env_tgid (call_env 8 6000000) = env_tgid (call_env 8 1000000)" by (simp_all add: call_env_def)
  have sel: "\<not> filtered_out call_args (env_tgid (call_env 8 1000000)) (env_pid (call_env 8 1000000)) (ucast (0 :: s64))"
    by (simp add: filtered_out_def call_args_def call_env_def)
  have nr: "(0 :: s64) \<noteq> - 1" by simp
  have oth: "\<forall>e \<in> set [Sys_enter (call_env 9 1000000) 0]. \<not> of_thread (env_pid (call_env 8 1000000)) e"
    by (simp add: call_env_def)
  have d: "5000000 = env_ktime (call_env 8 6000000) - env_ktime (call_env 8 1000000)"
    by (simp add: call_env_def)
  have out: "perf_out (run syscall_step [Sys_enter (call_env 8 1000000) 0, Sys_enter (call_env 9 1000000) 0] ?s) = []"
    by (simp add: perf_out_enter) (simp add: syscall_init_def)
  from syscall_pair_reported [OF s room th sel nr oth d] out
  show ?thesis by (auto simp: call_args_def simp del: syscall_step.simps)
qed

text \<open>C3. Every event of a run comes from a selected thread and call and has a duration inside the window,
  and every start record stands under its own thread id.\<close>

theorem syscall_events_sound:
  assumes "s = run syscall_step es (syscall_init args)"
  shows "(\<forall>ev \<in> set (perf_out s).
      (ua_pid args = 0 \<or> se_pid ev = ua_pid args) \<and> (ua_tid args = 0 \<or> se_tid ev = ua_tid args) \<and>
      (ua_syscall_id args = minus1 \<or> se_syscall_id ev = ucast (ua_syscall_id args)) \<and>
      unat (min_syscall_ms args) \<le> unat (dur_us ev) div 1000 \<and>
      unat (dur_us ev) div 1000 \<le> unat (max_syscall_ms args)) \<and>
    (\<forall>tid ev. bpf_map_lookup_elem (start s) tid = Some ev \<longrightarrow> se_tid ev = tid)"
  using syscalls.run_inv [OF syscall_inv_init, of args es]
  unfolding assms syscall_inv_def event_ok_def entry_ok_def by blast

definition call_run :: "syscall_ev list" where
  "call_run = [Sys_enter (call_env 8 1000000) 0, Sys_exit (call_env 8 6000000) 0]"

lemma call_run_out:
  "\<exists>ev. perf_out (run syscall_step call_run (syscall_init call_args)) = [ev] \<and> dur_us ev = 5000"
  by (simp add: call_run_def call_env_def call_args_def eval_defs)

theorem syscall_events_sound_witness:
  "\<exists>ev \<in> set (perf_out (run syscall_step call_run (syscall_init call_args))).
     se_pid ev = 7 \<and> 2 \<le> unat (dur_us ev) div 1000"
proof -
  obtain ev where "ev \<in> set (perf_out (run syscall_step call_run (syscall_init call_args)))"
    using call_run_out by (metis list.set_intros(1))
  with syscall_events_sound [OF refl, of call_run call_args] show ?thesis
    by (intro bexI [of _ ev]) (auto simp: call_args_def)
qed

text \<open>C33. Start records are never removed. Once the map holds 10240 threads, no thread outside them is ever
  reported again, however long the run goes on and however many of the recorded threads end.\<close>

theorem syscall_full_map_blind:
  assumes "s = run syscall_step es0 (syscall_init args)" and "hash_free (start s) = 0"
    and "ev \<in> set (drop (length (perf_out s)) (perf_out (run syscall_step es s)))"
  shows "se_tid ev \<in> dom (bpf_map_lookup_elem (start s))"
proof -
  have "syscall_inv args s" unfolding assms(1) by (rule syscalls.run_inv) (rule syscall_inv_init)
  with assms(2) have "closed_world args (dom (bpf_map_lookup_elem (start s))) (perf_out s) s"
    by (simp add: closed_world_def)
  from closed.run_inv [OF this, of es] assms(3) show ?thesis
    unfolding closed_world_def by fastforce
qed

text \<open>A run that fills the map: 10240 threads enter a call.\<close>

definition crowd :: "nat \<Rightarrow> syscall_ev list" where
  "crowd n = map (\<lambda>i. Sys_enter (call_env (of_nat i) 1000000) 0) [0..<n]"

definition crowded :: "nat \<Rightarrow> syscall_state" where
  "crowded n = run syscall_step (crowd n) (syscall_init call_args)"

lemma crowded_Suc: "crowded (Suc n) = sys_enter (call_env (of_nat n) 1000000) 0 (crowded n)"
  by (simp add: crowded_def crowd_def run_append)

lemma crowded_args: "has_args call_args (crowded n)"
  by (simp add: crowded_def has_args_init)

lemma crowded_fill:
  "n \<le> MAX_ENTRIES \<Longrightarrow> hash_free (start (crowded n)) = MAX_ENTRIES - n \<and>
     (\<forall>i < 2 ^ 32. bpf_map_lookup_elem (start (crowded n)) (of_nat i)
        = (if i < n then Some (entered (call_env (of_nat i) 1000000)) else None))"
proof (induction n)
  case 0
  show ?case by (simp add: crowded_def crowd_def syscall_init_def)
next
  case (Suc n)
  then have room: "0 < hash_free (start (crowded n))" and n: "n < 2 ^ 32"
    by (simp_all add: MAX_ENTRIES_def)
  then have none: "bpf_map_lookup_elem (start (crowded n)) (of_nat n) = None"
    using Suc by (metis Suc_leD less_irrefl)
  have inj: "(of_nat i :: u32) = of_nat n \<longleftrightarrow> i = n" if "i < 2 ^ 32" for i
    using that n by (simp add: of_nat_eq_iff word_of_nat_eq_iff take_bit_eq_mod)
  have "passes call_args (call_env (of_nat n) 1000000) 0"
    by (simp add: passes_def filtered_out_def call_args_def call_env_def)
  moreover have "env_pid (call_env (of_nat n) 1000000) = of_nat n" by (simp add: call_env_def)
  ultimately show ?case
    using insert_effect(1) [OF none any_le_noexist room, of "entered (call_env (of_nat n) 1000000)"] Suc inj
    by (auto simp: crowded_Suc sys_enter_eq [OF crowded_args] less_Suc_eq)
qed

theorem syscall_full_map_blind_witness:
  "\<exists>ev. ev \<in> set (perf_out (run syscall_step [Sys_exit (call_env 5 6000000) 0] (crowded 10240))) \<and>
     se_tid ev \<in> dom (bpf_map_lookup_elem (start (crowded 10240)))"
proof -
  let ?s = "crowded 10240" and ?e = "call_env 5 6000000"
  have free: "hash_free (start ?s) = 0" using crowded_fill [of 10240] by (simp add: MAX_ENTRIES_def)
  have "bpf_map_lookup_elem (start ?s) (env_pid ?e) = Some (entered (call_env 5 1000000))"
    using conjunct2 [OF crowded_fill [of 10240], THEN spec, of 5] by (simp add: MAX_ENTRIES_def call_env_def)
  then have out: "perf_out (run syscall_step [Sys_exit ?e 0] ?s)
      = perf_out ?s @ [completed call_args ?e 0 (entered (call_env 5 1000000))]"
    by (simp add: sys_exit_eq [OF crowded_args] in_window_def entered_def passes_def filtered_out_def
        call_args_def call_env_def)
  then have "completed call_args ?e 0 (entered (call_env 5 1000000))
      \<in> set (drop (length (perf_out ?s)) (perf_out (run syscall_step [Sys_exit ?e 0] ?s)))"
    by simp
  from syscall_full_map_blind [OF crowded_def free this] out show ?thesis by auto
qed

end
