(* ===== verification/Cachestat.thy ===== *)
theory Cachestat
  imports Bpf_Map Bpf_Env
begin

text \<open>
  The file cache tracer \<open>cachestat.bpf.c\<close>: two hooks on the entry of \<open>vfs_write\<close> and \<open>vfs_read\<close>
  that add the requested sizes per process and file name. Together they are an instance of the
  accounting contract of \<^emph>\<open>Bpf_Map\<close>. What a hook reads from kernel memory (the name pointer of
  the directory entry and the bytes behind it) and from its registers is the record \<open>vfs_call\<close>.
\<close>

section \<open>Data\<close>

definition CACHE_FILE_SIZE :: nat where "CACHE_FILE_SIZE = 64"
definition CACHESTAT_MAP_SIZE :: nat where "CACHESTAT_MAP_SIZE = 10240"

record user_args =
  ca_pid :: u32
  cache_type :: u32
  ca_cpu :: u32
  ca_pad :: u32

datatype CACHE_TYPE = READ_WRITE_CACHE | READ_CACHE | WRITE_CACHE

fun cache_type_code :: "CACHE_TYPE \<Rightarrow> u32" where
  "cache_type_code READ_WRITE_CACHE = 0"
| "cache_type_code READ_CACHE = 1"
| "cache_type_code WRITE_CACHE = 2"

record cache_key =
  ck_pid :: u64
  ck_file :: u64

record cache_info =
  ci_pid :: u32
  ci_cpu :: u32
  ci_comm :: bytes
  ci_file :: bytes
  read_size :: u64
  write_size :: u64
  ci_cnt :: u64

record vfs_call =
  dn_name :: u64
  name_bytes :: bytes
  parm3 :: u64

record cachestat_state =
  args_map :: "user_args bpf_array"
  cachestat_map :: "(cache_key, cache_info) bpf_hash"

definition zero_info :: cache_info where
  "zero_info = \<lparr>ci_pid = 0, ci_cpu = 0, ci_comm = replicate TASK_COMM_LEN 0,
     ci_file = replicate CACHE_FILE_SIZE 0, read_size = 0, write_size = 0, ci_cnt = 0\<rparr>"

definition zero_args :: user_args where
  "zero_args = \<lparr>ca_pid = 0, cache_type = 0, ca_cpu = 0, ca_pad = 0\<rparr>"

definition cachestat_init :: "user_args \<Rightarrow> cachestat_state" where
  "cachestat_init args = \<lparr>args_map = args # replicate 7 zero_args,
     cachestat_map = hash_empty CACHESTAT_MAP_SIZE\<rparr>"

section \<open>Hooks\<close>

text \<open>The name buffer: the bytes at the name pointer, or a question mark for a null pointer.\<close>

definition file_name :: "vfs_call \<Rightarrow> bytes" where
  "file_name ctx = (if dn_name ctx \<noteq> 0 then fill_buf CACHE_FILE_SIZE (name_bytes ctx)
     else (replicate CACHE_FILE_SIZE 0)[0 := 63])"

definition vfs_write_hook :: "bpf_env \<Rightarrow> vfs_call \<Rightarrow> cachestat_state \<Rightarrow> cachestat_state" where
  "vfs_write_hook env ctx s =
     (let pid_tgid = bpf_get_current_pid_tgid env; cpu = bpf_get_smp_processor_id env;
          key_pid = drop_bit 32 pid_tgid
      in case array_lookup_elem (args_map s) 0 of
        None \<Rightarrow> s
      | Some args \<Rightarrow>
          if ca_pid args \<noteq> minus1 \<and> ucast (ca_pid args) \<noteq> key_pid then s
          else if ca_cpu args \<noteq> minus1 \<and> ca_cpu args \<noteq> cpu then s
          else if cache_type args = cache_type_code READ_CACHE then s
          else
            let count = (ucast (parm3 ctx) :: s32); key = \<lparr>ck_pid = key_pid, ck_file = dn_name ctx\<rparr>
            in case bpf_map_lookup_elem (cachestat_map s) key of
              None \<Rightarrow>
                let cache_info = zero_info\<lparr>ci_pid := ucast key_pid, ci_cpu := cpu, ci_cnt := 1,
                      ci_comm := bpf_get_current_comm TASK_COMM_LEN env,
                      ci_file := file_name ctx, write_size := scast count\<rparr>
                in s\<lparr>cachestat_map := snd (bpf_map_update_elem (cachestat_map s) key cache_info 0)\<rparr>
            | Some info \<Rightarrow>
                s\<lparr>cachestat_map := elem_write (cachestat_map s) key (\<lambda>info. info\<lparr>ci_cpu := cpu,
                    write_size := write_size info + scast count, ci_cnt := ci_cnt info + 1\<rparr>)\<rparr>)"

definition vfs_read_hook :: "bpf_env \<Rightarrow> vfs_call \<Rightarrow> cachestat_state \<Rightarrow> cachestat_state" where
  "vfs_read_hook env ctx s =
     (let pid_tgid = bpf_get_current_pid_tgid env; cpu = bpf_get_smp_processor_id env;
          key_pid = drop_bit 32 pid_tgid
      in case array_lookup_elem (args_map s) 0 of
        None \<Rightarrow> s
      | Some args \<Rightarrow>
          if ca_pid args \<noteq> minus1 \<and> ucast (ca_pid args) \<noteq> key_pid then s
          else if ca_cpu args \<noteq> minus1 \<and> ca_cpu args \<noteq> cpu then s
          else if cache_type args = cache_type_code WRITE_CACHE then s
          else
            let count = (ucast (parm3 ctx) :: s32); key = \<lparr>ck_pid = key_pid, ck_file = dn_name ctx\<rparr>
            in case bpf_map_lookup_elem (cachestat_map s) key of
              None \<Rightarrow>
                let cache_info = zero_info\<lparr>ci_pid := ucast key_pid, ci_cpu := cpu, ci_cnt := 1,
                      ci_comm := bpf_get_current_comm TASK_COMM_LEN env,
                      ci_file := file_name ctx, read_size := scast count\<rparr>
                in s\<lparr>cachestat_map := snd (bpf_map_update_elem (cachestat_map s) key cache_info 0)\<rparr>
            | Some info \<Rightarrow>
                s\<lparr>cachestat_map := elem_write (cachestat_map s) key (\<lambda>info. info\<lparr>ci_cpu := cpu,
                    read_size := read_size info + scast count, ci_cnt := ci_cnt info + 1\<rparr>)\<rparr>)"

datatype vfs_ev = Vfs_write bpf_env vfs_call | Vfs_read bpf_env vfs_call

fun cachestat_step :: "vfs_ev \<Rightarrow> cachestat_state \<Rightarrow> cachestat_state" where
  "cachestat_step (Vfs_write env ctx) s = vfs_write_hook env ctx s"
| "cachestat_step (Vfs_read env ctx) s = vfs_read_hook env ctx s"

lemmas [eval_defs] = CACHE_FILE_SIZE_def CACHESTAT_MAP_SIZE_def zero_info_def zero_args_def
  cachestat_init_def file_name_def vfs_write_hook_def vfs_read_hook_def

section \<open>The accounting contract\<close>

fun ev_env :: "vfs_ev \<Rightarrow> bpf_env" where
  "ev_env (Vfs_write env ctx) = env"
| "ev_env (Vfs_read env ctx) = env"

fun ev_call :: "vfs_ev \<Rightarrow> vfs_call" where
  "ev_call (Vfs_write env ctx) = ctx"
| "ev_call (Vfs_read env ctx) = ctx"

fun wrong_kind :: "user_args \<Rightarrow> vfs_ev \<Rightarrow> bool" where
  "wrong_kind args (Vfs_write env ctx) \<longleftrightarrow> cache_type args = cache_type_code READ_CACHE"
| "wrong_kind args (Vfs_read env ctx) \<longleftrightarrow> cache_type args = cache_type_code WRITE_CACHE"

definition counted :: "user_args \<Rightarrow> vfs_ev \<Rightarrow> bool" where
  "counted args e \<longleftrightarrow> (ca_pid args = minus1 \<or> ca_pid args = env_tgid (ev_env e)) \<and>
     (ca_cpu args = minus1 \<or> ca_cpu args = env_cpu (ev_env e)) \<and> \<not> wrong_kind args e"

definition ev_key :: "vfs_ev \<Rightarrow> cache_key" where
  "ev_key e = \<lparr>ck_pid = ucast (env_tgid (ev_env e)), ck_file = dn_name (ev_call e)\<rparr>"

definition count_key :: "cachestat_state \<Rightarrow> vfs_ev \<Rightarrow> cache_key option" where
  "count_key s e = (case args_map s of
     [] \<Rightarrow> None | args # _ \<Rightarrow> if counted args e then Some (ev_key e) else None)"

text \<open>The request size as the hook adds it: through \<open>int\<close>, so with the sign of bit 31.\<close>

definition amount :: "vfs_ev \<Rightarrow> u64" where
  "amount e = scast (ucast (parm3 (ev_call e)) :: s32)"

fun written :: "vfs_ev \<Rightarrow> u64" where
  "written (Vfs_write env ctx) = amount (Vfs_write env ctx)"
| "written (Vfs_read env ctx) = 0"

fun was_read :: "vfs_ev \<Rightarrow> u64" where
  "was_read (Vfs_write env ctx) = 0"
| "was_read (Vfs_read env ctx) = amount (Vfs_read env ctx)"

text \<open>The size the caller asked for, all 64 bits of it.\<close>

fun asked_write :: "vfs_ev \<Rightarrow> u64" where
  "asked_write (Vfs_write env ctx) = parm3 ctx"
| "asked_write (Vfs_read env ctx) = 0"

fun asked_read :: "vfs_ev \<Rightarrow> u64" where
  "asked_read (Vfs_write env ctx) = 0"
| "asked_read (Vfs_read env ctx) = parm3 ctx"

definition first_info :: "vfs_ev \<Rightarrow> cache_info" where
  "first_info e = \<lparr>ci_pid = env_tgid (ev_env e), ci_cpu = env_cpu (ev_env e),
     ci_comm = bpf_get_current_comm TASK_COMM_LEN (ev_env e), ci_file = file_name (ev_call e),
     read_size = was_read e, write_size = written e, ci_cnt = 1\<rparr>"

definition next_info :: "vfs_ev \<Rightarrow> cache_info \<Rightarrow> cache_info" where
  "next_info e info = info\<lparr>ci_cpu := env_cpu (ev_env e), read_size := read_size info + was_read e,
     write_size := write_size info + written e, ci_cnt := ci_cnt info + 1\<rparr>"

lemma key_pid_tgid: "drop_bit 32 (bpf_get_current_pid_tgid env) = ucast (env_tgid env)"
  unfolding bpf_get_current_pid_tgid_def
  by (rule bit_word_eqI) (auto simp: bit_simps dest: bit_imp_le_length)

lemma cachestat_skip: "count_key s e = None \<Longrightarrow> cachestat_step e s = s"
  by (cases e) (auto simp: count_key_def counted_def vfs_write_hook_def vfs_read_hook_def key_pid_tgid
      ucast_u32_u64_inj bpf_get_smp_processor_id_def array_lookup_elem_def Let_def
      split: list.splits if_splits)

lemma cachestat_count:
  "count_key s e = Some k \<Longrightarrow> cachestat_step e s =
     (case bpf_map_lookup_elem (cachestat_map s) k of
        Some info \<Rightarrow> s\<lparr>cachestat_map := elem_write (cachestat_map s) k (next_info e)\<rparr>
      | None \<Rightarrow> s\<lparr>cachestat_map := snd (bpf_map_update_elem (cachestat_map s) k (first_info e) BPF_ANY)\<rparr>)"
  by (cases e) (auto simp: count_key_def counted_def ev_key_def vfs_write_hook_def vfs_read_hook_def key_pid_tgid
      ucast_u32_u64_inj ucast_up_down bpf_get_smp_processor_id_def array_lookup_elem_def Let_def
      first_info_def next_info_def [abs_def] zero_info_def amount_def BPF_ANY_def
      split: list.splits if_splits option.splits)

lemma cachestat_args [simp]: "args_map (cachestat_step e s) = args_map s"
  by (cases e) (auto simp: vfs_write_hook_def vfs_read_hook_def Let_def split: option.splits)

interpretation cache: accounting cachestat_step "\<lambda>s. bpf_map_lookup_elem (cachestat_map s)" count_key
  "\<lambda>s. hash_free (cachestat_map s)" first_info next_info
proof (unfold_locales, goal_cases)
  case (1 e s)
  show ?case by (simp add: count_key_def fun_eq_iff)
next
  case (2 s e)
  then show ?case by (simp add: cachestat_skip)
next
  case (3 s e k v)
  then show ?case by (simp add: cachestat_count map_laws)
next
  case (4 s e k)
  then show ?case by (simp add: cachestat_count insert_effect(1))
next
  case (5 s e k)
  then show ?case by (simp add: cachestat_count insert_effect(2))
qed

section \<open>Totals\<close>

lemma next_info_fields:
  "read_size (next_info e info) = read_size info + was_read e"
  "write_size (next_info e info) = write_size info + written e"
  "ci_cnt (next_info e info) = ci_cnt info + 1"
  "ci_cpu (next_info e info) = env_cpu (ev_env e)"
  "ci_pid (next_info e info) = ci_pid info"
  "ci_file (next_info e info) = ci_file info"
  by (simp_all add: next_info_def)

lemma fold_next_sizes:
  "read_size (fold next_info es info) = read_size info + sum_list (map was_read es)"
  "write_size (fold next_info es info) = write_size info + sum_list (map written es)"
  "ci_cnt (fold next_info es info) = ci_cnt info + of_nat (length es)"
  by (induction es arbitrary: info) (simp_all add: next_info_fields add.assoc)

lemma fold_next_rest:
  "ci_cpu (fold next_info es info) = (if es = [] then ci_cpu info else env_cpu (ev_env (last es)))"
  "ci_pid (fold next_info es info) = ci_pid info"
  "ci_file (fold next_info es info) = ci_file info"
  by (induction es arbitrary: info) (simp_all add: next_info_fields)

text \<open>What an element must hold after the given events of its key.\<close>

definition totals :: "vfs_ev list \<Rightarrow> cache_info \<Rightarrow> bool" where
  "totals es info \<longleftrightarrow> read_size info = sum_list (map was_read es) \<and>
     write_size info = sum_list (map written es) \<and> ci_cnt info = of_nat (length es) \<and>
     ci_pid info = env_tgid (ev_env (hd es)) \<and> ci_cpu info = env_cpu (ev_env (last es)) \<and>
     ci_file info = file_name (ev_call (hd es))"

lemma accumulated_totals:
  "es \<noteq> [] \<Longrightarrow> \<exists>info. accumulated first_info next_info None es = Some info \<and> totals es info"
  by (cases es) (simp_all add: totals_def fold_next_sizes fold_next_rest first_info_def)

lemma amount_small:
  assumes "parm3 (ev_call e) < 2 ^ 31"
  shows "amount e = parm3 (ev_call e)"
proof -
  have "unat (ucast (parm3 (ev_call e)) :: s32) = unat (parm3 (ev_call e))"
    using assms by (simp add: ucast_down_up)
  moreover have "unat (parm3 (ev_call e)) < 2 ^ 31" using assms by (simp add: word_less_nat_alt)
  ultimately have "(ucast (parm3 (ev_call e)) :: s32) < 2 ^ 31" by (simp add: word_less_nat_alt)
  then show ?thesis using assms by (simp add: amount_def scast_small ucast_down_up)
qed

lemma asked_small:
  assumes "parm3 (ev_call e) < 2 ^ 31"
  shows "written e = asked_write e" and "was_read e = asked_read e"
  using amount_small [OF assms] by (cases e; simp)+

lemma mod_sub_once: "(n :: int) \<le> k \<Longrightarrow> k < 2 * n \<Longrightarrow> k mod n = k - n"
  by (metis add_diff_cancel_left' diff_add_cancel diff_ge_0_iff_ge minus_mod_self2 mod_pos_pos_trivial mult_2 diff_less_eq)

lemma amount_large:
  assumes "2 ^ 31 \<le> parm3 (ev_call e)" and "parm3 (ev_call e) < 2 ^ 32"
  shows "amount e = parm3 (ev_call e) - 2 ^ 32"
proof -
  define p where "p = parm3 (ev_call e)"
  have p: "2 ^ 31 \<le> uint p" "uint p < 2 ^ 32"
    using assms by (simp_all add: p_def word_le_def word_less_def)
  have "uint (ucast p :: s32) = uint p"
    using p by (simp add: unsigned_ucast_eq take_bit_int_eq_self)
  then have "sint (ucast p :: s32) = uint p - 2 ^ 32"
    using p by (simp add: sint_uint signed_take_bit_eq_take_bit_shift take_bit_eq_mod mod_sub_once)
  then have "scast (ucast p :: s32) = (word_of_int (uint p - 2 ^ 32) :: u64)"
    by (simp add: scast_eq)
  also have "\<dots> = p - 2 ^ 32" by (simp add: word_of_int_minus)
  finally show ?thesis by (simp add: amount_def p_def)
qed

section \<open>Properties\<close>

definition vfs_env :: "u32 \<Rightarrow> bpf_env" where
  "vfs_env cpu = \<lparr>env_ktime = 0, env_tgid = 7, env_pid = 8, env_comm = [], env_cpu = cpu,
     env_stackid = (\<lambda>_. 5)\<rparr>"

definition vfs_args :: user_args where
  "vfs_args = \<lparr>ca_pid = 7, cache_type = 0, ca_cpu = minus1, ca_pad = 0\<rparr>"

definition vfs_req :: "u64 \<Rightarrow> vfs_call" where
  "vfs_req n = \<lparr>dn_name = 4096, name_bytes = [97], parm3 = n\<rparr>"

text \<open>C4. While the distinct pairs of process and file of the accepted calls fit the map, the element of a pair
  holds, modulo 2^64, the sum of its write sizes, the sum of its read sizes and the number of its
  calls, with the process and file name of the first call and the processor of the last. The sizes are added
  as signed 32-bit numbers; when no call asks for 2 GiB or more the two sums are those of the
  sizes asked for.\<close>

theorem cachestat_accounts_calls:
  assumes "card (ev_key ` {e \<in> set es. counted args e}) \<le> CACHESTAT_MAP_SIZE"
    and "hits = filter (\<lambda>e. counted args e \<and> ev_key e = k) es" and "hits \<noteq> []"
  shows "\<exists>info. bpf_map_lookup_elem (cachestat_map (run cachestat_step es (cachestat_init args))) k = Some info \<and>
     write_size info = sum_list (map written hits) \<and> read_size info = sum_list (map was_read hits) \<and>
     ((\<forall>e \<in> set hits. parm3 (ev_call e) < 2 ^ 31) \<longrightarrow>
        write_size info = sum_list (map asked_write hits) \<and> read_size info = sum_list (map asked_read hits)) \<and>
     ci_cnt info = of_nat (length hits) \<and> ci_pid info = env_tgid (ev_env (hd hits)) \<and>
     ci_cpu info = env_cpu (ev_env (last hits)) \<and> ci_file info = file_name (ev_call (hd hits))"
proof -
  let ?s = "cachestat_init args"
  have key: "count_key ?s e = (if counted args e then Some (ev_key e) else None)" for e
    by (simp add: count_key_def cachestat_init_def)
  have "cache.new_keys ?s es = ev_key ` {e \<in> set es. counted args e}"
    by (auto simp: cache.new_keys_def count_key_def cachestat_init_def split: if_splits)
  with assms(1) have "card (cache.new_keys ?s es) \<le> hash_free (cachestat_map ?s)"
    by (simp add: cachestat_init_def)
  note c = cache.run_complete [OF this, of k]
  have "filter (\<lambda>e. count_key ?s e = Some k) es = hits"
    unfolding assms(2) by (rule filter_cong) (auto simp: key)
  with c accumulated_totals [OF assms(3)] obtain info where
    info: "bpf_map_lookup_elem (cachestat_map (run cachestat_step es ?s)) k = Some info" "totals hits info"
    by (auto simp: cachestat_init_def)
  have "map written hits = map asked_write hits \<and> map was_read hits = map asked_read hits"
    if "\<forall>e \<in> set hits. parm3 (ev_call e) < 2 ^ 31"
    using that asked_small by simp
  with info show ?thesis unfolding totals_def by metis
qed

theorem cachestat_accounts_calls_witness:
  "\<exists>info. bpf_map_lookup_elem (cachestat_map (run cachestat_step
       [Vfs_write (vfs_env 0) (vfs_req 100), Vfs_read (vfs_env 1) (vfs_req 30), Vfs_write (vfs_env 2) (vfs_req 11)]
       (cachestat_init vfs_args))) \<lparr>ck_pid = 7, ck_file = 4096\<rparr> = Some info \<and>
     write_size info = 111 \<and> read_size info = 30 \<and> ci_cnt info = 3 \<and> ci_cpu info = 2"
proof -
  define es where "es = [Vfs_write (vfs_env 0) (vfs_req 100), Vfs_read (vfs_env 1) (vfs_req 30),
    Vfs_write (vfs_env 2) (vfs_req 11)]"
  define k where "k = (\<lparr>ck_pid = 7, ck_file = 4096\<rparr> :: cache_key)"
  have key: "\<forall>e \<in> set es. counted vfs_args e \<and> ev_key e = k"
    by (simp add: es_def k_def ev_key_def counted_def vfs_args_def vfs_env_def vfs_req_def)
  then have "ev_key ` {e \<in> set es. counted vfs_args e} \<subseteq> {k}" by blast
  then have "card (ev_key ` {e \<in> set es. counted vfs_args e}) \<le> 1"
    using card_mono [of "{k}"] by simp
  then have c: "card (ev_key ` {e \<in> set es. counted vfs_args e}) \<le> CACHESTAT_MAP_SIZE"
    by (simp add: CACHESTAT_MAP_SIZE_def)
  have h: "es = filter (\<lambda>e. counted vfs_args e \<and> ev_key e = k) es"
    using key by (rule filter_True [symmetric])
  have ne: "es \<noteq> []" by (simp add: es_def)
  have small: "\<forall>e \<in> set es. parm3 (ev_call e) < 2 ^ 31" by (simp add: es_def vfs_req_def)
  have "sum_list (map asked_write es) = 111" "sum_list (map asked_read es) = 30" "length es = 3"
    "env_cpu (ev_env (last es)) = 2"
    by (simp_all add: es_def vfs_env_def vfs_req_def)
  with cachestat_accounts_calls [OF c h ne] small show ?thesis
    unfolding es_def k_def by auto
qed

text \<open>C27. The requested size passes through a 32-bit signed variable. Below 2 GiB it is added as it is;
  from 2 GiB to 4 GiB a write makes the total shrink by what is missing to 4 GiB.\<close>

theorem cachestat_large_write_shrinks:
  assumes "count_key s (Vfs_write env ctx) = Some k"
    and "bpf_map_lookup_elem (cachestat_map s) k = Some info" and "parm3 ctx < 2 ^ 32"
  shows "\<exists>info'. bpf_map_lookup_elem (cachestat_map (vfs_write_hook env ctx s)) k = Some info' \<and>
     write_size info' = (if parm3 ctx < 2 ^ 31 then write_size info + parm3 ctx
       else write_size info - (2 ^ 32 - parm3 ctx)) \<and>
     read_size info' = read_size info \<and> ci_cnt info' = ci_cnt info + 1"
proof -
  have "bpf_map_lookup_elem (cachestat_map (cachestat_step (Vfs_write env ctx) s)) k
      = Some (next_info (Vfs_write env ctx) info)"
    using cache.hit [OF assms(1,2)] by simp
  then show ?thesis
    using amount_small [of "Vfs_write env ctx"] amount_large [of "Vfs_write env ctx"] assms(3)
    by (auto simp: next_info_fields not_less)
qed

theorem cachestat_large_write_shrinks_witness:
  "\<exists>info. bpf_map_lookup_elem (cachestat_map (vfs_write_hook (vfs_env 0) (vfs_req (2 ^ 32 - 1))
       (vfs_write_hook (vfs_env 0) (vfs_req 100) (cachestat_init vfs_args)))) \<lparr>ck_pid = 7, ck_file = 4096\<rparr>
       = Some info \<and> write_size info = 99"
proof -
  let ?k = "\<lparr>ck_pid = 7, ck_file = 4096\<rparr> :: cache_key" and ?s = "cachestat_init vfs_args"
  let ?t = "vfs_write_hook (vfs_env 0) (vfs_req 100) ?s"
  let ?e = "Vfs_write (vfs_env 0) (vfs_req 100)"
  have key: "count_key ?s (Vfs_write (vfs_env 0) (vfs_req n)) = Some ?k" for n
    by (simp add: count_key_def cachestat_init_def ev_key_def counted_def vfs_args_def vfs_env_def vfs_req_def)
  have "count_key ?t (Vfs_write (vfs_env 0) (vfs_req (2 ^ 32 - 1))) = Some ?k"
    using key cache.sel_const [of ?e ?s] by (simp add: fun_eq_iff)
  moreover have "bpf_map_lookup_elem (cachestat_map ?t) ?k = Some (first_info ?e)"
    using cache.miss [OF key] by (simp add: cachestat_init_def CACHESTAT_MAP_SIZE_def)
  moreover have "write_size (first_info ?e) = 100"
    by (simp add: first_info_def amount_small vfs_req_def)
  ultimately show ?thesis
    using cachestat_large_write_shrinks [of ?t "vfs_env 0" "vfs_req (2 ^ 32 - 1)" ?k "first_info ?e"]
    by (auto simp: vfs_req_def)
qed

end
