(* ===== verification/Syscall_Table.thy ===== *)
theory Syscall_Table
  imports Prelude
begin

text \<open>
  The system call names of \<open>syscall_table.h\<close> and the two functions of \<open>syscall.go\<close> that look into
  them: a number to its name, and a name to its number by a linear search. The x86 table has no
  repeated name, which is checked with a perfect hash of its names; the arm table repeats one placeholder.
\<close>

section \<open>Tables\<close>

definition syscall_table_x86_a :: "string list" where
  "syscall_table_x86_a = [
     ''read'', ''write'', ''open'', ''close'', ''stat'', ''fstat'', ''lstat'', ''poll'',
     ''lseek'', ''mmap'', ''mprotect'', ''munmap'', ''brk'', ''rt_sigaction'',
     ''rt_sigprocmask'', ''rt_sigreturn'', ''ioctl'', ''pread64'', ''pwrite64'', ''readv'',
     ''writev'', ''access'', ''pipe'', ''select'', ''sched_yield'', ''mremap'', ''msync'',
     ''mincore'', ''madvise'', ''shmget'', ''shmat'', ''shmctl'', ''dup'', ''dup2'', ''pause'',
     ''nanosleep'', ''getitimer'', ''alarm'', ''setitimer'', ''getpid'', ''sendfile'',
     ''socket'', ''connect'', ''accept'', ''sendto'', ''recvfrom'', ''sendmsg'', ''recvmsg'',
     ''shutdown'', ''bind'', ''listen'', ''getsockname'', ''getpeername'', ''socketpair'',
     ''setsockopt'', ''getsockopt'', ''clone'', ''fork'', ''vfork'', ''execve'', ''exit'',
     ''wait4'', ''kill'', ''uname'', ''semget'', ''semop'', ''semctl'', ''shmdt'', ''msgget'',
     ''msgsnd'', ''msgrcv'', ''msgctl'', ''fcntl'', ''flock'', ''fsync'', ''fdatasync'',
     ''truncate'', ''ftruncate'', ''getdents'', ''getcwd'', ''chdir'', ''fchdir'', ''rename'',
     ''mkdir'', ''rmdir'', ''creat'', ''link'', ''unlink'', ''symlink'', ''readlink'', ''chmod'',
     ''fchmod'', ''chown'', ''fchown'', ''lchown'', ''umask'', ''gettimeofday'', ''getrlimit'',
     ''getrusage'', ''sysinfo'', ''times'', ''ptrace'', ''getuid'', ''syslog'', ''getgid'',
     ''setuid'', ''setgid'', ''geteuid'', ''getegid'', ''setpgid'', ''getppid'', ''getpgrp'',
     ''setsid'', ''setreuid'', ''setregid'', ''getgroups'', ''setgroups'', ''setresuid'',
     ''getresuid'', ''setresgid'', ''getresgid'', ''getpgid'', ''setfsuid'', ''setfsgid'',
     ''getsid'', ''capget'', ''capset'', ''rt_sigpending'', ''rt_sigtimedwait'',
     ''rt_sigqueueinfo'', ''rt_sigsuspend'', ''sigaltstack'', ''utime'', ''mknod'', ''uselib'',
     ''personality'', ''ustat'', ''statfs'', ''fstatfs'', ''sysfs'', ''getpriority'',
     ''setpriority'', ''sched_setparam'', ''sched_getparam'', ''sched_setscheduler'',
     ''sched_getscheduler'', ''sched_get_priority_max'', ''sched_get_priority_min'',
     ''sched_rr_get_interval'', ''mlock'']"

definition syscall_table_x86_b :: "string list" where
  "syscall_table_x86_b = [
     ''munlock'', ''mlockall'', ''munlockall'', ''vhangup'', ''modify_ldt'', ''pivot_root'',
     ''_sysctl'', ''prctl'', ''arch_prctl'', ''adjtimex'', ''setrlimit'', ''chroot'', ''sync'',
     ''acct'', ''settimeofday'', ''mount'', ''umount2'', ''swapon'', ''swapoff'', ''reboot'',
     ''sethostname'', ''setdomainname'', ''iopl'', ''ioperm'', ''create_module'',
     ''init_module'', ''delete_module'', ''get_kernel_syms'', ''query_module'', ''quotactl'',
     ''nfsservctl'', ''getpmsg'', ''putpmsg'', ''afs_syscall'', ''tuxcall'', ''security'',
     ''gettid'', ''readahead'', ''setxattr'', ''lsetxattr'', ''fsetxattr'', ''getxattr'',
     ''lgetxattr'', ''fgetxattr'', ''listxattr'', ''llistxattr'', ''flistxattr'',
     ''removexattr'', ''lremovexattr'', ''fremovexattr'', ''tkill'', ''time'', ''futex'',
     ''sched_setaffinity'', ''sched_getaffinity'', ''set_thread_area'', ''io_setup'',
     ''io_destroy'', ''io_getevents'', ''io_submit'', ''io_cancel'', ''get_thread_area'',
     ''lookup_dcookie'', ''epoll_create'', ''epoll_ctl_old'', ''epoll_wait_old'',
     ''remap_file_pages'', ''getdents64'', ''set_tid_address'', ''restart_syscall'',
     ''semtimedop'', ''fadvise64'', ''timer_create'', ''timer_settime'', ''timer_gettime'',
     ''timer_getoverrun'', ''timer_delete'', ''clock_settime'', ''clock_gettime'',
     ''clock_getres'', ''clock_nanosleep'', ''exit_group'', ''epoll_wait'', ''epoll_ctl'',
     ''tgkill'', ''utimes'', ''vserver'', ''mbind'', ''set_mempolicy'', ''get_mempolicy'',
     ''mq_open'', ''mq_unlink'', ''mq_timedsend'', ''mq_timedreceive'', ''mq_notify'',
     ''mq_getsetattr'', ''kexec_load'', ''waitid'', ''add_key'', ''request_key'', ''keyctl'',
     ''ioprio_set'', ''ioprio_get'', ''inotify_init'', ''inotify_add_watch'',
     ''inotify_rm_watch'', ''migrate_pages'', ''openat'', ''mkdirat'', ''mknodat'', ''fchownat'',
     ''futimesat'', ''newfstatat'', ''unlinkat'', ''renameat'', ''linkat'', ''symlinkat'',
     ''readlinkat'', ''fchmodat'', ''faccessat'', ''pselect6'', ''ppoll'', ''unshare'',
     ''set_robust_list'', ''get_robust_list'', ''splice'', ''tee'', ''sync_file_range'',
     ''vmsplice'', ''move_pages'', ''utimensat'', ''epoll_pwait'', ''signalfd'',
     ''timerfd_create'', ''eventfd'', ''fallocate'', ''timerfd_settime'', ''timerfd_gettime'',
     ''accept4'', ''signalfd4'', ''eventfd2'', ''epoll_create1'', ''dup3'', ''pipe2'',
     ''inotify_init1'', ''preadv'', ''pwritev'', ''rt_tgsigqueueinfo'', ''perf_event_open'',
     ''recvmmsg'']"

definition syscall_table_x86_c :: "string list" where
  "syscall_table_x86_c = [
     ''fanotify_init'', ''fanotify_mark'', ''prlimit64'', ''name_to_handle_at'',
     ''open_by_handle_at'', ''clock_adjtime'', ''syncfs'', ''sendmmsg'', ''setns'', ''getcpu'',
     ''process_vm_readv'', ''process_vm_writev'', ''kcmp'', ''finit_module'', ''sched_setattr'',
     ''sched_getattr'', ''renameat2'', ''seccomp'', ''getrandom'', ''memfd_create'',
     ''kexec_file_load'', ''bpf'', ''execveat'', ''userfaultfd'', ''membarrier'', ''mlock2'',
     ''copy_file_range'', ''preadv2'', ''pwritev2'', ''pkey_mprotect'', ''pkey_alloc'',
     ''pkey_free'', ''statx'']"

definition syscall_table_x86 :: "string list" where
  "syscall_table_x86 = syscall_table_x86_a @ syscall_table_x86_b @ syscall_table_x86_c"

definition syscall_table_arm_a :: "string list" where
  "syscall_table_arm_a = [
     ''io_setup'', ''io_destroy'', ''io_submit'', ''io_cancel'', ''io_getevents'', ''setxattr'',
     ''lsetxattr'', ''fsetxattr'', ''getxattr'', ''lgetxattr'', ''fgetxattr'', ''listxattr'',
     ''llistxattr'', ''flistxattr'', ''removexattr'', ''lremovexattr'', ''fremovexattr'',
     ''getcwd'', ''lookup_dcookie'', ''eventfd2'', ''epoll_create1'', ''epoll_ctl'',
     ''epoll_pwait'', ''dup'', ''dup3'', ''fcntl'', ''inotify_init1'', ''inotify_add_watch'',
     ''inotify_rm_watch'', ''ioctl'', ''ioprio_set'', ''ioprio_get'', ''flock'', ''mknodat'',
     ''mkdirat'', ''unlinkat'', ''symlinkat'', ''linkat'', ''renameat'', ''umount2'', ''mount'',
     ''pivot_root'', ''nfsservctl'', ''statfs'', ''fstatfs'', ''truncate'', ''ftruncate'',
     ''fallocate'', ''faccessat'', ''chdir'', ''fchdir'', ''chroot'', ''fchmod'', ''fchmodat'',
     ''fchownat'', ''fchown'', ''openat'', ''close'', ''vhangup'', ''pipe2'', ''quotactl'',
     ''getdents64'', ''lseek'', ''read'', ''write'', ''readv'', ''writev'', ''pread64'',
     ''pwrite64'', ''preadv'', ''pwritev'', ''sendfile'', ''pselect6'', ''ppoll'', ''signalfd4'',
     ''vmsplice'', ''splice'', ''tee'', ''readlinkat'', ''fstatat'', ''fstat'', ''sync'',
     ''fsync'', ''fdatasync'', ''sync_file_range'', ''timerfd_create'', ''timerfd_settime'',
     ''timerfd_gettime'', ''utimensat'', ''acct'', ''capget'', ''capset'', ''personality'',
     ''exit'', ''exit_group'', ''waitid'', ''set_tid_address'', ''unshare'', ''futex'',
     ''set_robust_list'', ''get_robust_list'', ''nanosleep'', ''getitimer'', ''setitimer'',
     ''kexec_load'', ''init_module'', ''delete_module'', ''timer_create'', ''timer_gettime'',
     ''timer_getoverrun'', ''timer_settime'', ''timer_delete'', ''clock_settime'',
     ''clock_gettime'', ''clock_getres'', ''clock_nanosleep'', ''syslog'', ''ptrace'',
     ''sched_setparam'', ''sched_setscheduler'', ''sched_getscheduler'', ''sched_getparam'',
     ''sched_setaffinity'', ''sched_getaffinity'', ''sched_yield'', ''sched_get_priority_max'',
     ''sched_get_priority_min'', ''sched_rr_get_interval'', ''restart_syscall'', ''kill'',
     ''tkill'', ''tgkill'', ''sigaltstack'', ''rt_sigsuspend'', ''rt_sigaction'',
     ''rt_sigprocmask'', ''rt_sigpending'', ''rt_sigtimedwait'', ''rt_sigqueueinfo'',
     ''rt_sigreturn'', ''setpriority'', ''getpriority'', ''reboot'', ''setregid'', ''setgid'',
     ''setreuid'', ''setuid'', ''setresuid'', ''getresuid'', ''setresgid'']"

definition syscall_table_arm_b :: "string list" where
  "syscall_table_arm_b = [
     ''getresgid'', ''setfsuid'', ''setfsgid'', ''times'', ''setpgid'', ''getpgid'', ''getsid'',
     ''setsid'', ''getgroups'', ''setgroups'', ''uname'', ''sethostname'', ''setdomainname'',
     ''getrlimit'', ''setrlimit'', ''getrusage'', ''umask'', ''prctl'', ''getcpu'',
     ''gettimeofday'', ''settimeofday'', ''adjtimex'', ''getpid'', ''getppid'', ''getuid'',
     ''geteuid'', ''getgid'', ''getegid'', ''gettid'', ''sysinfo'', ''mq_open'', ''mq_unlink'',
     ''mq_timedsend'', ''mq_timedreceive'', ''mq_notify'', ''mq_getsetattr'', ''msgget'',
     ''msgctl'', ''msgrcv'', ''msgsnd'', ''semget'', ''semctl'', ''semtimedop'', ''semop'',
     ''shmget'', ''shmctl'', ''shmat'', ''shmdt'', ''socket'', ''socketpair'', ''bind'',
     ''listen'', ''accept'', ''connect'', ''getsockname'', ''getpeername'', ''sendto'',
     ''recvfrom'', ''setsockopt'', ''getsockopt'', ''shutdown'', ''sendmsg'', ''recvmsg'',
     ''readahead'', ''brk'', ''munmap'', ''mremap'', ''add_key'', ''request_key'', ''keyctl'',
     ''clone'', ''execve'', ''mmap'', ''fadvise64'', ''swapon'', ''swapoff'', ''mprotect'',
     ''msync'', ''mlock'', ''munlock'', ''mlockall'', ''munlockall'', ''mincore'', ''madvise'',
     ''remap_file_pages'', ''mbind'', ''get_mempolicy'', ''set_mempolicy'', ''migrate_pages'',
     ''move_pages'', ''rt_tgsigqueueinfo'', ''perf_event_open'', ''accept4'', ''recvmmsg'',
     ''arch_specific_syscall'', ''arch_specific_syscall'', ''arch_specific_syscall'',
     ''arch_specific_syscall'', ''arch_specific_syscall'', ''arch_specific_syscall'',
     ''arch_specific_syscall'', ''arch_specific_syscall'', ''arch_specific_syscall'',
     ''arch_specific_syscall'', ''arch_specific_syscall'', ''arch_specific_syscall'',
     ''arch_specific_syscall'', ''arch_specific_syscall'', ''arch_specific_syscall'',
     ''arch_specific_syscall'', ''wait4'', ''prlimit64'', ''fanotify_init'', ''fanotify_mark'',
     ''name_to_handle_at'', ''open_by_handle_at'', ''clock_adjtime'', ''syncfs'', ''setns'',
     ''sendmmsg'', ''process_vm_readv'', ''process_vm_writev'', ''kcmp'', ''finit_module'',
     ''sched_setattr'', ''sched_getattr'', ''renameat2'', ''seccomp'', ''getrandom'',
     ''memfd_create'', ''bpf'', ''execveat'', ''userfaultfd'', ''membarrier'', ''mlock2'',
     ''copy_file_range'', ''preadv2'', ''pwritev2'', ''pkey_mprotect'', ''pkey_alloc'',
     ''pkey_free'', ''statx'']"

definition syscall_table_arm :: "string list" where
  "syscall_table_arm = syscall_table_arm_a @ syscall_table_arm_b"

section \<open>Lookups\<close>

datatype goarch = Amd64 | Arm | Arm64 | Other_arch

text \<open>The decimal digits of \<open>strconv.Itoa\<close>.\<close>

fun itoa :: "nat \<Rightarrow> string" where
  "itoa n = (if n < 10 then [char_of (48 + n)] else itoa (n div 10) @ [char_of (48 + n mod 10)])"

declare itoa.simps [simp del]

definition table_name :: "string list \<Rightarrow> u32 \<Rightarrow> string" where
  "table_name tbl nr = (if unat nr \<ge> length tbl then ''unknown_'' @ itoa (unat nr) else tbl ! unat nr)"

fun SyscallIdToName :: "goarch \<Rightarrow> u32 \<Rightarrow> string" where
  "SyscallIdToName Amd64 nr = table_name syscall_table_x86 nr"
| "SyscallIdToName Arm nr = table_name syscall_table_arm nr"
| "SyscallIdToName Arm64 nr = table_name syscall_table_arm nr"
| "SyscallIdToName Other_arch nr = ''unknown''"

text \<open>The loop over the table, which returns at the first match.\<close>

fun name_index :: "string \<Rightarrow> string list \<Rightarrow> nat \<Rightarrow> nat option" where
  "name_index name [] i = None"
| "name_index name (t # ts) i = (if name = t then Some i else name_index name ts (i + 1))"

definition table_id :: "string list \<Rightarrow> string \<Rightarrow> u32" where
  "table_id tbl name = (case name_index name tbl 0 of Some i \<Rightarrow> of_nat i | None \<Rightarrow> - 1)"

fun SyscallNameToId :: "goarch \<Rightarrow> string \<Rightarrow> u32" where
  "SyscallNameToId Amd64 name = table_id syscall_table_x86 name"
| "SyscallNameToId Arm name = table_id syscall_table_arm name"
| "SyscallNameToId Arm64 name = table_id syscall_table_arm name"
| "SyscallNameToId Other_arch name = - 1"

section \<open>Lemmas\<close>

lemmas x86_defs = syscall_table_x86_def syscall_table_x86_a_def syscall_table_x86_b_def syscall_table_x86_c_def
lemmas arm_defs = syscall_table_arm_def syscall_table_arm_a_def syscall_table_arm_b_def

lemma length_tables: "length syscall_table_x86 = 333" "length syscall_table_arm = 292"
  by (simp_all add: x86_defs arm_defs)

lemma name_index_Some:
  "name_index name tbl k = Some i \<longleftrightarrow>
     (\<exists>j < length tbl. i = k + j \<and> tbl ! j = name \<and> (\<forall>j' < j. tbl ! j' \<noteq> name))"
proof (induction tbl arbitrary: k)
  case Nil
  then show ?case by simp
next
  case (Cons t ts)
  show ?case
  proof (cases "name = t")
    case True
    have "j = 0" if "\<forall>j' < j. (t # ts) ! j' \<noteq> name" for j
      using that True by (metis gr0I nth_Cons_0)
    with True show ?thesis by auto
  next
    case False
    show ?thesis
    proof
      assume "name_index name (t # ts) k = Some i"
      then obtain j where "j < length ts" "i = k + 1 + j" "ts ! j = name" "\<forall>j' < j. ts ! j' \<noteq> name"
        using False Cons.IH [of "k + 1"] by auto
      then show "\<exists>j < length (t # ts). i = k + j \<and> (t # ts) ! j = name \<and> (\<forall>j' < j. (t # ts) ! j' \<noteq> name)"
        using False by (intro exI [of _ "Suc j"]) (auto simp: less_Suc_eq_0_disj)
    next
      assume "\<exists>j < length (t # ts). i = k + j \<and> (t # ts) ! j = name \<and> (\<forall>j' < j. (t # ts) ! j' \<noteq> name)"
      then obtain j where j: "j < length (t # ts)" "i = k + j" "(t # ts) ! j = name"
        "\<forall>j' < j. (t # ts) ! j' \<noteq> name" by blast
      with False obtain m where m: "j = Suc m" by (cases j) auto
      have "\<forall>j' < m. ts ! j' \<noteq> name" using j(4) m by auto
      with j m show "name_index name (t # ts) k = Some i" using False Cons.IH [of "k + 1"] by auto
    qed
  qed
qed

lemma name_index_None: "name_index name tbl k = None \<longleftrightarrow> name \<notin> set tbl"
  by (induction tbl arbitrary: k) auto

lemma table_id_found:
  assumes "name \<in> set tbl" and "length tbl < 2 ^ 32"
  shows "unat (table_id tbl name) < length tbl \<and> tbl ! unat (table_id tbl name) = name \<and>
    (\<forall>j < unat (table_id tbl name). tbl ! j \<noteq> name)"
proof -
  obtain i where i: "name_index name tbl 0 = Some i"
    using assms(1) name_index_None [of name tbl 0] by fastforce
  then have "i < length tbl" "tbl ! i = name" "\<forall>j < i. tbl ! j \<noteq> name"
    using name_index_Some [of name tbl 0 i] by auto
  with i assms(2) show ?thesis by (simp add: table_id_def unat_of_nat)
qed

text \<open>A hash without collisions on the x86 names reduces the comparison of all pairs of names to one
  of small numbers.\<close>

primrec name_hash :: "string \<Rightarrow> nat \<Rightarrow> nat" where
  "name_hash [] h = h"
| "name_hash (c # cs) h = name_hash cs ((h * 37 + of_char c) mod 7503)"

definition hashes_a :: "nat list" where
  "hashes_a = [
     4036, 1197, 2348, 7344, 210, 3198, 1167, 6871, 3280, 1831, 3689, 750, 3433, 4328, 255, 1101,
     5834, 4350, 6389, 6893, 6892, 2336, 6301, 3913, 1128, 7323, 6887, 5981, 5869, 90, 1009,
     2664, 6287, 76, 443, 569, 2203, 6333, 4141, 4468, 2246, 5620, 3311, 2226, 6935, 5491, 7167,
     5499, 6895, 2366, 3970, 2567, 4927, 996, 6785, 2606, 7159, 3263, 3336, 5029, 2122, 2892,
     494, 636, 4857, 7127, 7431, 1120, 1439, 3178, 1420, 4013, 3058, 1991, 3004, 2961, 1365,
     2832, 1366, 2195, 6903, 4914, 1328, 415, 3740, 4304, 6202, 5451, 5272, 560, 4426, 2437,
     7470, 5481, 5364, 2732, 1099, 3635, 6658, 392, 5202, 4704, 3810, 6586, 7153, 3576, 6919,
     7499, 3339, 4145, 2615, 5645, 838, 5570, 1410, 3071, 5009, 1449, 7014, 4792, 2854, 5300,
     5989, 1829, 1072, 919, 2341, 1224, 1520, 4754, 1673, 5558, 380, 6810, 6992, 6922, 1872,
     6265, 199, 160, 2745, 7308, 6641, 4358, 2139, 5877, 7310, 93, 283, 5874]"

definition hashes_b :: "nat list" where
  "hashes_b = [
     3392, 6100, 5622, 6293, 1067, 7175, 7195, 4113, 7004, 1340, 5573, 4885, 16, 3132, 4864,
     1397, 1087, 3853, 7313, 5484, 7306, 6577, 5089, 6304, 1432, 4621, 1137, 2112, 5768, 1321,
     4563, 6384, 829, 533, 4191, 7119, 2441, 4967, 2560, 4996, 4027, 277, 2713, 1744, 4247, 4343,
     6005, 5294, 1664, 3533, 3745, 6221, 7117, 4999, 436, 4542, 4364, 4416, 1064, 1010, 6844,
     7251, 1342, 1632, 3955, 7366, 662, 3857, 2674, 7055, 698, 3619, 5492, 1628, 2783, 5663,
     4774, 1733, 2888, 1251, 4218, 6359, 5497, 3889, 2132, 6672, 3442, 1734, 1318, 4570, 3139,
     395, 4634, 378, 4975, 2231, 4006, 4023, 3400, 1291, 5179, 5909, 4487, 1853, 2071, 1631,
     2295, 6833, 1612, 366, 4194, 486, 5370, 639, 6011, 847, 3187, 5039, 1123, 6878, 3578, 1472,
     2426, 5441, 647, 6901, 5079, 2299, 3228, 1266, 4601, 4610, 582, 4905, 2899, 5259, 2418,
     3573, 7384, 6580, 2271, 409, 77, 594, 1083, 2208, 6116, 1154, 3522, 718]"

definition hashes_c :: "nat list" where
  "hashes_c = [
     1713, 6780, 6422, 145, 730, 6870, 3284, 2410, 1670, 1953, 19, 153, 7327, 2860, 6036, 7191,
     4870, 6530, 7171, 2399, 1130, 3354, 652, 3397, 2256, 7304, 1247, 6716, 1252, 4630, 3240,
     2340, 387]"

lemma hashes_a_ok: "map (\<lambda>s. name_hash s 0) syscall_table_x86_a = hashes_a"
  by (simp add: syscall_table_x86_a_def hashes_a_def)

lemma hashes_b_ok: "map (\<lambda>s. name_hash s 0) syscall_table_x86_b = hashes_b"
  by (simp add: syscall_table_x86_b_def hashes_b_def)

lemma hashes_c_ok: "map (\<lambda>s. name_hash s 0) syscall_table_x86_c = hashes_c"
  by (simp add: syscall_table_x86_c_def hashes_c_def)

lemma hashes_distinct: "distinct (hashes_a @ hashes_b @ hashes_c)"
  by (simp add: hashes_a_def hashes_b_def hashes_c_def)

lemma x86_distinct: "distinct syscall_table_x86"
proof -
  have "map (\<lambda>s. name_hash s 0) syscall_table_x86 = hashes_a @ hashes_b @ hashes_c"
    by (simp add: syscall_table_x86_def hashes_a_ok hashes_b_ok hashes_c_ok)
  with hashes_distinct show ?thesis by (metis distinct_map)
qed

section \<open>Properties\<close>

text \<open>On x86, number to name and back is the identity on all 333 calls. On every architecture the
  number found for a known name leads back to that name.\<close>

theorem syscall_names_round_trip:
  "(unat nr < 333 \<longrightarrow> SyscallNameToId Amd64 (SyscallIdToName Amd64 nr) = nr) \<and>
   (name \<in> set syscall_table_x86 \<longrightarrow> SyscallIdToName Amd64 (SyscallNameToId Amd64 name) = name) \<and>
   (name \<in> set syscall_table_arm \<longrightarrow> SyscallIdToName Arm64 (SyscallNameToId Arm64 name) = name)"
proof -
  have "SyscallNameToId Amd64 (SyscallIdToName Amd64 nr) = nr" if nr: "unat nr < 333"
  proof -
    let ?n = "syscall_table_x86 ! unat nr"
    have "?n \<in> set syscall_table_x86" using nr by (simp add: length_tables)
    from table_id_found [OF this] have "syscall_table_x86 ! unat (table_id syscall_table_x86 ?n) = ?n"
      "unat (table_id syscall_table_x86 ?n) < 333" by (simp_all add: length_tables)
    then have "unat (table_id syscall_table_x86 ?n) = unat nr"
      using nr nth_eq_iff_index_eq [OF x86_distinct] by (simp add: length_tables)
    then show ?thesis using nr by (simp add: table_name_def length_tables word_unat_eq_iff)
  qed
  moreover have "table_name tbl (table_id tbl name) = name" if "name \<in> set tbl" "length tbl < 2 ^ 32" for tbl
    using table_id_found [OF that] by (simp add: table_name_def)
  ultimately show ?thesis by (simp add: length_tables)
qed

theorem syscall_names_round_trip_witness:
  "SyscallNameToId Amd64 (SyscallIdToName Amd64 202) = 202 \<and>
   SyscallIdToName Arm64 (SyscallNameToId Arm64 ''futex'') = ''futex''"
proof -
  have "''futex'' \<in> set syscall_table_arm" by (simp add: arm_defs)
  with syscall_names_round_trip [of 202 "''futex''"] show ?thesis by simp
qed

end
