(* ===== verification/Bpf_Tracing.thy ===== *)
theory Bpf_Tracing
  imports Prelude
begin

text \<open>
  The register access of \<open>bpf_tracing.h\<close>, in the two versions the repository carries: libbpf's
  current header under \<open>headers/bpf/\<close> and the older one under \<open>headers/\<close> that the uprobe program
  includes. The choice of the target from the predefined macros, the register tables of every
  architecture, the access macros, and the wrapper macros that turn a context into the arguments
  of a handler. A register is the field accessor the macro expands to; using an accessor the
  header leaves undefined does not compile, which the model gives as no value.
\<close>

section \<open>Targets\<close>

datatype target = T_x86 | T_s390 | T_arm | T_arm64 | T_mips | T_powerpc | T_sparc | T_riscv | T_arc
  | T_loongarch

definition target_macros :: "(string \<times> target) list" where
  "target_macros = [(''__TARGET_ARCH_x86'', T_x86), (''__TARGET_ARCH_s390'', T_s390),
     (''__TARGET_ARCH_arm'', T_arm), (''__TARGET_ARCH_arm64'', T_arm64), (''__TARGET_ARCH_mips'', T_mips),
     (''__TARGET_ARCH_powerpc'', T_powerpc), (''__TARGET_ARCH_sparc'', T_sparc),
     (''__TARGET_ARCH_riscv'', T_riscv), (''__TARGET_ARCH_arc'', T_arc),
     (''__TARGET_ARCH_loongarch'', T_loongarch)]"

definition compiler_macros :: "(string \<times> target) list" where
  "compiler_macros = [(''__x86_64__'', T_x86), (''__s390__'', T_s390), (''__arm__'', T_arm),
     (''__aarch64__'', T_arm64), (''__mips__'', T_mips), (''__powerpc__'', T_powerpc),
     (''__sparc__'', T_sparc), (''__riscv'', T_riscv), (''__arc__'', T_arc),
     (''__loongarch__'', T_loongarch)]"

text \<open>The first defined macro decides; the explicit target wins over the compiler's. A RISC-V
  compiler counts only with 64-bit registers.\<close>

definition compiler_defines :: "string list \<Rightarrow> nat \<Rightarrow> string \<Rightarrow> bool" where
  "compiler_defines defs xlen m \<longleftrightarrow> m \<in> set defs \<and> (m = ''__riscv'' \<longrightarrow> xlen = 64)"

definition bpf_target :: "string list \<Rightarrow> nat \<Rightarrow> target option" where
  "bpf_target defs xlen =
     (case find (\<lambda>(m, t). m \<in> set defs) target_macros of
        Some (m, t) \<Rightarrow> Some t
      | None \<Rightarrow> map_option snd (find (\<lambda>(m, t). compiler_defines defs xlen m) compiler_macros))"

text \<open>The older header knows neither ARC nor LoongArch.\<close>

definition old_bpf_target :: "string list \<Rightarrow> nat \<Rightarrow> target option" where
  "old_bpf_target defs xlen =
     (case find (\<lambda>(m, t). m \<in> set defs) (take 8 target_macros) of
        Some (m, t) \<Rightarrow> Some t
      | None \<Rightarrow> map_option snd (find (\<lambda>(m, t). compiler_defines defs xlen m) (take 8 compiler_macros)))"

section \<open>Register tables\<close>

datatype accessor = Reg string | Zero | Unsupported

record abi =
  parms :: "accessor list"
  sys_parms :: "accessor list"
  ret_reg :: accessor
  fp_reg :: accessor
  rc_reg :: accessor
  sp_reg :: accessor
  ip_reg :: accessor

record build =
  kernel_types :: bool
  i386 :: bool
  arch64 :: bool

definition regs :: "string list \<Rightarrow> accessor list" where
  "regs = map Reg"

definition x86_kernel_abi :: abi where
  "x86_kernel_abi = \<lparr>parms = regs [''di'', ''si'', ''dx'', ''cx'', ''r8'', ''r9''],
     sys_parms = regs [''di'', ''si'', ''dx'', ''r10'', ''r8'', ''r9''],
     ret_reg = Reg ''sp'', fp_reg = Reg ''bp'', rc_reg = Reg ''ax'', sp_reg = Reg ''sp'', ip_reg = Reg ''ip''\<rparr>"

definition i386_abi :: abi where
  "i386_abi = \<lparr>parms = regs [''eax'', ''edx'', ''ecx''],
     sys_parms = regs [''ebx'', ''ecx'', ''edx'', ''esi'', ''edi'', ''ebp''],
     ret_reg = Reg ''esp'', fp_reg = Reg ''ebp'', rc_reg = Reg ''eax'', sp_reg = Reg ''esp'', ip_reg = Reg ''eip''\<rparr>"

definition x86_64_abi :: abi where
  "x86_64_abi = \<lparr>parms = regs [''rdi'', ''rsi'', ''rdx'', ''rcx'', ''r8'', ''r9''],
     sys_parms = regs [''rdi'', ''rsi'', ''rdx'', ''r10'', ''r8'', ''r9''],
     ret_reg = Reg ''rsp'', fp_reg = Reg ''rbp'', rc_reg = Reg ''rax'', sp_reg = Reg ''rsp'', ip_reg = Reg ''rip''\<rparr>"

definition s390_abi :: abi where
  "s390_abi = \<lparr>parms = regs [''gprs[2]'', ''gprs[3]'', ''gprs[4]'', ''gprs[5]'', ''gprs[6]''],
     sys_parms = regs [''orig_gpr2'', ''gprs[3]'', ''gprs[4]'', ''gprs[5]'', ''gprs[6]'', ''gprs[7]''],
     ret_reg = Reg ''gprs[14]'', fp_reg = Reg ''gprs[11]'', rc_reg = Reg ''gprs[2]'', sp_reg = Reg ''gprs[15]'',
     ip_reg = Reg ''psw.addr''\<rparr>"

definition arm_abi :: abi where
  "arm_abi = \<lparr>parms = regs [''uregs[0]'', ''uregs[1]'', ''uregs[2]'', ''uregs[3]''],
     sys_parms = regs [''uregs[0]'', ''uregs[1]'', ''uregs[2]'', ''uregs[3]'', ''uregs[4]'', ''uregs[5]'', ''uregs[6]''],
     ret_reg = Reg ''uregs[14]'', fp_reg = Reg ''uregs[11]'', rc_reg = Reg ''uregs[0]'', sp_reg = Reg ''uregs[13]'',
     ip_reg = Reg ''uregs[12]''\<rparr>"

definition arm64_abi :: abi where
  "arm64_abi = \<lparr>parms = regs [''regs[0]'', ''regs[1]'', ''regs[2]'', ''regs[3]'', ''regs[4]'', ''regs[5]'',
       ''regs[6]'', ''regs[7]''],
     sys_parms = regs [''orig_x0'', ''regs[1]'', ''regs[2]'', ''regs[3]'', ''regs[4]'', ''regs[5]''],
     ret_reg = Reg ''regs[30]'', fp_reg = Reg ''regs[29]'', rc_reg = Reg ''regs[0]'', sp_reg = Reg ''sp'',
     ip_reg = Reg ''pc''\<rparr>"

definition mips_abi :: abi where
  "mips_abi = \<lparr>parms = regs [''regs[4]'', ''regs[5]'', ''regs[6]'', ''regs[7]'', ''regs[8]'', ''regs[9]'',
       ''regs[10]'', ''regs[11]''],
     sys_parms = regs [''regs[4]'', ''regs[5]'', ''regs[6]'', ''regs[7]'', ''regs[8]'', ''regs[9]''],
     ret_reg = Reg ''regs[31]'', fp_reg = Reg ''regs[30]'', rc_reg = Reg ''regs[2]'', sp_reg = Reg ''regs[29]'',
     ip_reg = Reg ''cp0_epc''\<rparr>"

definition powerpc_abi :: "build \<Rightarrow> abi" where
  "powerpc_abi b = \<lparr>parms = regs [''gpr[3]'', ''gpr[4]'', ''gpr[5]'', ''gpr[6]'', ''gpr[7]'', ''gpr[8]'',
       ''gpr[9]'', ''gpr[10]''],
     sys_parms = regs ([''orig_gpr3'', ''gpr[4]'', ''gpr[5]'', ''gpr[6]'', ''gpr[7]'', ''gpr[8]''] @
       (if arch64 b then [] else [''gpr[9]''])),
     ret_reg = Reg ''regs[31]'', fp_reg = Unsupported, rc_reg = Reg ''gpr[3]'', sp_reg = Reg ''sp'',
     ip_reg = Reg ''nip''\<rparr>"

definition sparc_abi :: "build \<Rightarrow> abi" where
  "sparc_abi b = \<lparr>parms = regs [''u_regs[UREG_I0]'', ''u_regs[UREG_I1]'', ''u_regs[UREG_I2]'',
       ''u_regs[UREG_I3]'', ''u_regs[UREG_I4]'', ''u_regs[UREG_I5]''],
     sys_parms = regs [''u_regs[UREG_I0]'', ''u_regs[UREG_I1]'', ''u_regs[UREG_I2]'',
       ''u_regs[UREG_I3]'', ''u_regs[UREG_I4]'', ''u_regs[UREG_I5]''],
     ret_reg = Reg ''u_regs[UREG_I7]'', fp_reg = Unsupported, rc_reg = Reg ''u_regs[UREG_I0]'',
     sp_reg = Reg ''u_regs[UREG_FP]'', ip_reg = (if arch64 b then Reg ''tpc'' else Reg ''pc'')\<rparr>"

definition riscv_abi :: abi where
  "riscv_abi = \<lparr>parms = regs [''a0'', ''a1'', ''a2'', ''a3'', ''a4'', ''a5'', ''a6'', ''a7''],
     sys_parms = regs [''a0'', ''a1'', ''a2'', ''a3'', ''a4'', ''a5''],
     ret_reg = Reg ''ra'', fp_reg = Reg ''s0'', rc_reg = Reg ''a0'', sp_reg = Reg ''sp'', ip_reg = Reg ''pc''\<rparr>"

definition arc_abi :: abi where
  "arc_abi = \<lparr>parms = regs [''scratch.r0'', ''scratch.r1'', ''scratch.r2'', ''scratch.r3'', ''scratch.r4'',
       ''scratch.r5'', ''scratch.r6'', ''scratch.r7''],
     sys_parms = regs [''scratch.r0'', ''scratch.r1'', ''scratch.r2'', ''scratch.r3'', ''scratch.r4'',
       ''scratch.r5''],
     ret_reg = Reg ''scratch.blink'', fp_reg = Reg ''scratch.fp'', rc_reg = Reg ''scratch.r0'',
     sp_reg = Reg ''scratch.sp'', ip_reg = Reg ''scratch.ret''\<rparr>"

definition loongarch_abi :: abi where
  "loongarch_abi = \<lparr>parms = regs [''regs[4]'', ''regs[5]'', ''regs[6]'', ''regs[7]'', ''regs[8]'', ''regs[9]'',
       ''regs[10]'', ''regs[11]''],
     sys_parms = regs [''regs[4]'', ''regs[5]'', ''regs[6]'', ''regs[7]'', ''regs[8]'', ''regs[9]''],
     ret_reg = Reg ''regs[1]'', fp_reg = Reg ''regs[22]'', rc_reg = Reg ''regs[4]'', sp_reg = Reg ''regs[3]'',
     ip_reg = Reg ''csr_era''\<rparr>"

fun abi_of :: "build \<Rightarrow> target \<Rightarrow> abi" where
  "abi_of b T_x86 = (if kernel_types b then x86_kernel_abi else if i386 b then i386_abi else x86_64_abi)"
| "abi_of b T_s390 = s390_abi"
| "abi_of b T_arm = arm_abi"
| "abi_of b T_arm64 = arm64_abi"
| "abi_of b T_mips = mips_abi"
| "abi_of b T_powerpc = powerpc_abi b"
| "abi_of b T_sparc = sparc_abi b"
| "abi_of b T_riscv = riscv_abi"
| "abi_of b T_arc = arc_abi"
| "abi_of b T_loongarch = loongarch_abi"

section \<open>Access macros\<close>

text \<open>Parameters a table does not list are \<open>__unsupported__\<close>.\<close>

definition parm_of :: "accessor list \<Rightarrow> nat \<Rightarrow> accessor" where
  "parm_of rs n = (if 0 < n \<and> n \<le> length rs then rs ! (n - 1) else Unsupported)"

type_synonym pt_regs = "string \<Rightarrow> u64"

fun access :: "accessor \<Rightarrow> pt_regs \<Rightarrow> u64 option" where
  "access (Reg f) ctx = Some (ctx f)"
| "access Zero ctx = Some 0"
| "access Unsupported ctx = None"

definition PT_REGS_PARM :: "abi \<Rightarrow> nat \<Rightarrow> pt_regs \<Rightarrow> u64 option" where
  "PT_REGS_PARM a n ctx = access (parm_of (parms a) n) ctx"

definition PT_REGS_PARM_SYSCALL :: "abi \<Rightarrow> nat \<Rightarrow> pt_regs \<Rightarrow> u64 option" where
  "PT_REGS_PARM_SYSCALL a n ctx = access (parm_of (sys_parms a) n) ctx"

definition PT_REGS_RET :: "abi \<Rightarrow> pt_regs \<Rightarrow> u64 option" where "PT_REGS_RET a ctx = access (ret_reg a) ctx"
definition PT_REGS_FP :: "abi \<Rightarrow> pt_regs \<Rightarrow> u64 option" where "PT_REGS_FP a ctx = access (fp_reg a) ctx"
definition PT_REGS_RC :: "abi \<Rightarrow> pt_regs \<Rightarrow> u64 option" where "PT_REGS_RC a ctx = access (rc_reg a) ctx"
definition PT_REGS_SP :: "abi \<Rightarrow> pt_regs \<Rightarrow> u64 option" where "PT_REGS_SP a ctx = access (sp_reg a) ctx"
definition PT_REGS_IP :: "abi \<Rightarrow> pt_regs \<Rightarrow> u64 option" where "PT_REGS_IP a ctx = access (ip_reg a) ctx"

text \<open>The return address: the link register on PowerPC, the return register on SPARC, and memory
  behind the return register (on entry) or above the frame pointer (on return) elsewhere.\<close>

definition BPF_KPROBE_READ_RET_IP ::
    "build \<Rightarrow> target \<Rightarrow> (u64 \<Rightarrow> u64 option) \<Rightarrow> pt_regs \<Rightarrow> u64 option" where
  "BPF_KPROBE_READ_RET_IP b t mem ctx =
     (if t = T_powerpc then Some (ctx ''link'')
      else if t = T_sparc then PT_REGS_RET (abi_of b t) ctx
      else Option.bind (PT_REGS_RET (abi_of b t) ctx) mem)"

definition BPF_KRETPROBE_READ_RET_IP ::
    "build \<Rightarrow> target \<Rightarrow> (u64 \<Rightarrow> u64 option) \<Rightarrow> pt_regs \<Rightarrow> u64 option" where
  "BPF_KRETPROBE_READ_RET_IP b t mem ctx =
     (if t = T_powerpc \<or> t = T_sparc then BPF_KPROBE_READ_RET_IP b t mem ctx
      else Option.bind (PT_REGS_FP (abi_of b t) ctx) (\<lambda>fp. mem (fp + 8)))"

section \<open>Wrapper macros\<close>

text \<open>\<open>___bpf_kprobe_args0\<close> to \<open>___bpf_kprobe_args8\<close>, each extending the one before.\<close>

primrec bpf_kprobe_args :: "nat \<Rightarrow> abi \<Rightarrow> pt_regs \<Rightarrow> u64 option list" where
  "bpf_kprobe_args 0 a ctx = []"
| "bpf_kprobe_args (Suc n) a ctx = bpf_kprobe_args n a ctx @ [PT_REGS_PARM a (Suc n) ctx]"

primrec bpf_syscall_args :: "nat \<Rightarrow> abi \<Rightarrow> pt_regs \<Rightarrow> u64 option list" where
  "bpf_syscall_args 0 a rs = []"
| "bpf_syscall_args (Suc n) a rs = bpf_syscall_args n a rs @ [PT_REGS_PARM_SYSCALL a (Suc n) rs]"

definition bpf_kretprobe_args :: "nat \<Rightarrow> abi \<Rightarrow> pt_regs \<Rightarrow> u64 option list" where
  "bpf_kretprobe_args n a ctx = (if n = 1 then [PT_REGS_RC a ctx] else [])"

text \<open>\<open>BPF_KSYSCALL\<close>: with a system call wrapper the registers of the call stand behind the first
  parameter, without one the context holds them.\<close>

definition BPF_KSYSCALL :: "abi \<Rightarrow> bool \<Rightarrow> (u64 \<Rightarrow> pt_regs) \<Rightarrow> nat \<Rightarrow> pt_regs \<Rightarrow> u64 option list option" where
  "BPF_KSYSCALL a has_syscall_wrapper regs_at n ctx =
     (if has_syscall_wrapper
      then map_option (\<lambda>p. bpf_syscall_args n a (regs_at p)) (PT_REGS_PARM a 1 ctx)
      else Some (bpf_syscall_args n a ctx))"

text \<open>\<open>___bpf_ctx_cast0\<close> to \<open>___bpf_ctx_cast12\<close>: the arguments of \<open>BPF_PROG\<close>.\<close>

primrec bpf_ctx_cast :: "nat \<Rightarrow> (nat \<Rightarrow> u64) \<Rightarrow> u64 list" where
  "bpf_ctx_cast 0 ctx = []"
| "bpf_ctx_cast (Suc n) ctx = bpf_ctx_cast n ctx @ [ctx n]"

text \<open>\<open>BPF_PROG2\<close>: an argument of 16 bytes takes two slots of the context, a smaller one takes one;
  other sizes do not compile. The slot of an argument is computed from the end of the list.\<close>

definition bpf_treg_cnt :: "nat \<Rightarrow> nat option" where
  "bpf_treg_cnt sz = (if sz \<in> {1, 2, 4, 8} then Some 1 else if sz = 16 then Some 2 else None)"

fun bpf_reg_cnt :: "nat list \<Rightarrow> nat option" where
  "bpf_reg_cnt [] = Some 0"
| "bpf_reg_cnt (t # ts) =
     (case (bpf_reg_cnt ts, bpf_treg_cnt t) of (Some n, Some k) \<Rightarrow> Some (n + k) | _ \<Rightarrow> None)"

definition bpf_union_arg :: "byte_order \<Rightarrow> nat \<Rightarrow> (nat \<Rightarrow> u64) \<Rightarrow> nat \<Rightarrow> bytes" where
  "bpf_union_arg order sz ctx n =
     (if sz = 16 then store_bytes order 8 (ctx n) @ store_bytes order 8 (ctx (n + 1))
      else store_bytes order sz (ctx n))"

fun bpf_ctx_arg :: "byte_order \<Rightarrow> nat \<Rightarrow> nat list \<Rightarrow> (nat \<Rightarrow> u64) \<Rightarrow> bytes list option" where
  "bpf_ctx_arg order n [] ctx = Some []"
| "bpf_ctx_arg order n (t # ts) ctx =
     (case (bpf_reg_cnt (t # ts), bpf_ctx_arg order n ts ctx) of
        (Some k, Some rest) \<Rightarrow> Some (bpf_union_arg order t ctx (n - k) # rest)
      | _ \<Rightarrow> None)"

definition BPF_PROG2 :: "byte_order \<Rightarrow> nat list \<Rightarrow> (nat \<Rightarrow> u64) \<Rightarrow> bytes list option" where
  "BPF_PROG2 order ts ctx = (case bpf_reg_cnt ts of None \<Rightarrow> None | Some n \<Rightarrow> bpf_ctx_arg order n ts ctx)"

section \<open>The older header\<close>

datatype role = Parm nat | Ret | Fp | Rc | Sp | Ip

definition old_x86_kernel :: "role \<Rightarrow> accessor" where
  "old_x86_kernel r = (case r of Parm n \<Rightarrow> parm_of (regs [''di'', ''si'', ''dx'', ''cx'', ''r8'']) n
     | Ret \<Rightarrow> Reg ''sp'' | Fp \<Rightarrow> Reg ''bp'' | Rc \<Rightarrow> Reg ''ax'' | Sp \<Rightarrow> Reg ''sp'' | Ip \<Rightarrow> Reg ''ip'')"

definition old_i386 :: "role \<Rightarrow> accessor" where
  "old_i386 r = (case r of Parm n \<Rightarrow> parm_of (regs [''eax'', ''edx'', ''ecx''] @ [Zero, Zero]) n
     | Ret \<Rightarrow> Reg ''esp'' | Fp \<Rightarrow> Reg ''ebp'' | Rc \<Rightarrow> Reg ''eax'' | Sp \<Rightarrow> Reg ''esp'' | Ip \<Rightarrow> Reg ''eip'')"

definition old_x86_64 :: "role \<Rightarrow> accessor" where
  "old_x86_64 r = (case r of Parm n \<Rightarrow> parm_of (regs [''rdi'', ''rsi'', ''rdx'', ''rcx'', ''r8'']) n
     | Ret \<Rightarrow> Reg ''rsp'' | Fp \<Rightarrow> Reg ''rbp'' | Rc \<Rightarrow> Reg ''rax'' | Sp \<Rightarrow> Reg ''rsp'' | Ip \<Rightarrow> Reg ''rip'')"

definition old_s390 :: "role \<Rightarrow> accessor" where
  "old_s390 r = (case r of
       Parm n \<Rightarrow> parm_of (regs [''gprs[2]'', ''gprs[3]'', ''gprs[4]'', ''gprs[5]'', ''gprs[6]'']) n
     | Ret \<Rightarrow> Reg ''gprs[14]'' | Fp \<Rightarrow> Reg ''gprs[11]'' | Rc \<Rightarrow> Reg ''gprs[2]'' | Sp \<Rightarrow> Reg ''gprs[15]''
     | Ip \<Rightarrow> Reg ''psw.addr'')"

definition old_arm :: "role \<Rightarrow> accessor" where
  "old_arm r = (case r of
       Parm n \<Rightarrow> parm_of (regs [''uregs[0]'', ''uregs[1]'', ''uregs[2]'', ''uregs[3]'', ''uregs[4]'']) n
     | Ret \<Rightarrow> Reg ''uregs[14]'' | Fp \<Rightarrow> Reg ''uregs[11]'' | Rc \<Rightarrow> Reg ''uregs[0]'' | Sp \<Rightarrow> Reg ''uregs[13]''
     | Ip \<Rightarrow> Reg ''uregs[12]'')"

definition old_arm64 :: "role \<Rightarrow> accessor" where
  "old_arm64 r = (case r of
       Parm n \<Rightarrow> parm_of (regs [''regs[0]'', ''regs[1]'', ''regs[2]'', ''regs[3]'', ''regs[4]'']) n
     | Ret \<Rightarrow> Reg ''regs[30]'' | Fp \<Rightarrow> Reg ''regs[29]'' | Rc \<Rightarrow> Reg ''regs[0]'' | Sp \<Rightarrow> Reg ''sp'' | Ip \<Rightarrow> Reg ''pc'')"

definition old_mips :: "role \<Rightarrow> accessor" where
  "old_mips r = (case r of
       Parm n \<Rightarrow> parm_of (regs [''regs[4]'', ''regs[5]'', ''regs[6]'', ''regs[7]'', ''regs[8]'']) n
     | Ret \<Rightarrow> Reg ''regs[31]'' | Fp \<Rightarrow> Reg ''regs[30]'' | Rc \<Rightarrow> Reg ''regs[2]'' | Sp \<Rightarrow> Reg ''regs[29]''
     | Ip \<Rightarrow> Reg ''cp0_epc'')"

definition old_powerpc :: "role \<Rightarrow> accessor" where
  "old_powerpc r = (case r of
       Parm n \<Rightarrow> parm_of (regs [''gpr[3]'', ''gpr[4]'', ''gpr[5]'', ''gpr[6]'', ''gpr[7]'']) n
     | Ret \<Rightarrow> Unsupported | Fp \<Rightarrow> Unsupported | Rc \<Rightarrow> Reg ''gpr[3]'' | Sp \<Rightarrow> Reg ''sp'' | Ip \<Rightarrow> Reg ''nip'')"

definition old_sparc :: "build \<Rightarrow> role \<Rightarrow> accessor" where
  "old_sparc b r = (case r of
       Parm n \<Rightarrow> parm_of (regs [''u_regs[UREG_I0]'', ''u_regs[UREG_I1]'', ''u_regs[UREG_I2]'',
         ''u_regs[UREG_I3]'', ''u_regs[UREG_I4]'']) n
     | Ret \<Rightarrow> Reg ''u_regs[UREG_I7]'' | Fp \<Rightarrow> Unsupported | Rc \<Rightarrow> Reg ''u_regs[UREG_I0]''
     | Sp \<Rightarrow> Reg ''u_regs[UREG_FP]'' | Ip \<Rightarrow> if arch64 b then Reg ''tpc'' else Reg ''pc'')"

definition old_riscv :: "role \<Rightarrow> accessor" where
  "old_riscv r = (case r of Parm n \<Rightarrow> parm_of (regs [''a0'', ''a1'', ''a2'', ''a3'', ''a4'']) n
     | Ret \<Rightarrow> Reg ''ra'' | Fp \<Rightarrow> Reg ''s5'' | Rc \<Rightarrow> Reg ''a5'' | Sp \<Rightarrow> Reg ''sp'' | Ip \<Rightarrow> Reg ''epc'')"

text \<open>The \<open>_CORE\<close> variants name the same fields, except for the frame pointer of RISC-V.\<close>

definition old_riscv_core :: "role \<Rightarrow> accessor" where
  "old_riscv_core r = (if r = Fp then Reg ''fp'' else old_riscv r)"

fun old_reg :: "build \<Rightarrow> target \<Rightarrow> role \<Rightarrow> accessor" where
  "old_reg b T_x86 r = (if kernel_types b then old_x86_kernel r else if i386 b then old_i386 r else old_x86_64 r)"
| "old_reg b T_s390 r = old_s390 r"
| "old_reg b T_arm r = old_arm r"
| "old_reg b T_arm64 r = old_arm64 r"
| "old_reg b T_mips r = old_mips r"
| "old_reg b T_powerpc r = old_powerpc r"
| "old_reg b T_sparc r = old_sparc b r"
| "old_reg b T_riscv r = old_riscv r"
| "old_reg b T_arc r = Unsupported"
| "old_reg b T_loongarch r = Unsupported"

primrec old_kprobe_args :: "nat \<Rightarrow> build \<Rightarrow> target \<Rightarrow> pt_regs \<Rightarrow> u64 option list" where
  "old_kprobe_args 0 b t ctx = []"
| "old_kprobe_args (Suc n) b t ctx = old_kprobe_args n b t ctx @ [access (old_reg b t (Parm (Suc n))) ctx]"

lemmas abi_defs = x86_kernel_abi_def i386_abi_def x86_64_abi_def s390_abi_def arm_abi_def arm64_abi_def
  mips_abi_def powerpc_abi_def sparc_abi_def riscv_abi_def arc_abi_def loongarch_abi_def

lemmas old_defs = old_x86_kernel_def old_i386_def old_x86_64_def old_s390_def old_arm_def old_arm64_def
  old_mips_def old_powerpc_def old_sparc_def old_riscv_def

section \<open>Lemmas\<close>

lemma kprobe_args_nth:
  "length (bpf_kprobe_args n a ctx) = n \<and>
     (\<forall>i < n. bpf_kprobe_args n a ctx ! i = PT_REGS_PARM a (Suc i) ctx)"
  by (induction n) (auto simp: nth_append less_Suc_eq)

lemma syscall_args_nth:
  "length (bpf_syscall_args n a rs) = n \<and>
     (\<forall>i < n. bpf_syscall_args n a rs ! i = PT_REGS_PARM_SYSCALL a (Suc i) rs)"
  by (induction n) (auto simp: nth_append less_Suc_eq)

text \<open>The slots the arguments take, counted from the front.\<close>

definition slots_of :: "nat \<Rightarrow> nat" where
  "slots_of sz = (if sz = 16 then 2 else 1)"

definition arg_sizes :: "nat list \<Rightarrow> bool" where
  "arg_sizes ts \<longleftrightarrow> set ts \<subseteq> {1, 2, 4, 8, 16}"

lemma treg_cnt_slots: "sz \<in> {1, 2, 4, 8, 16} \<Longrightarrow> bpf_treg_cnt sz = Some (slots_of sz)"
  by (auto simp: bpf_treg_cnt_def slots_of_def)

lemma reg_cnt_sum: "arg_sizes ts \<Longrightarrow> bpf_reg_cnt ts = Some (sum_list (map slots_of ts))"
  by (induction ts) (auto simp: arg_sizes_def treg_cnt_slots)

lemma ctx_arg_slots:
  assumes "arg_sizes ts" and "k + sum_list (map slots_of ts) = n"
  shows "\<exists>args. bpf_ctx_arg order n ts ctx = Some args \<and> length args = length ts \<and>
    (\<forall>i < length ts. args ! i = bpf_union_arg order (ts ! i) ctx (k + sum_list (map slots_of (take i ts))))"
  using assms
proof (induction ts arbitrary: k)
  case Nil
  then show ?case by simp
next
  case (Cons t ts)
  have ok: "arg_sizes ts" using Cons.prems(1) by (simp add: arg_sizes_def)
  obtain rest where rest: "bpf_ctx_arg order n ts ctx = Some rest" "length rest = length ts"
    "\<forall>i < length ts. rest ! i = bpf_union_arg order (ts ! i) ctx (k + slots_of t + sum_list (map slots_of (take i ts)))"
    using Cons.IH [OF ok, of "k + slots_of t"] Cons.prems(2) by auto
  have "n - sum_list (map slots_of (t # ts)) = k" using Cons.prems(2) by simp
  then have "bpf_ctx_arg order n (t # ts) ctx = Some (bpf_union_arg order t ctx k # rest)"
    using rest(1) reg_cnt_sum [OF Cons.prems(1)] by simp
  with rest(2,3) show ?case by (auto simp: nth_Cons add.assoc split: nat.split)
qed

text \<open>The roles both headers define, and the current header's register for a role.\<close>

definition roles :: "role list" where
  "roles = map Parm [1, 2, 3, 4, 5] @ [Ret, Fp, Rc, Sp, Ip]"

fun new_reg :: "build \<Rightarrow> target \<Rightarrow> role \<Rightarrow> accessor" where
  "new_reg b t (Parm n) = parm_of (parms (abi_of b t)) n"
| "new_reg b t Ret = ret_reg (abi_of b t)"
| "new_reg b t Fp = fp_reg (abi_of b t)"
| "new_reg b t Rc = rc_reg (abi_of b t)"
| "new_reg b t Sp = sp_reg (abi_of b t)"
| "new_reg b t Ip = ip_reg (abi_of b t)"

text \<open>Where the headers differ: i386 and ARM parameters beyond the registers, the PowerPC return
  register, and the frame pointer, return value and program counter of RISC-V.\<close>

definition differs :: "build \<Rightarrow> target \<Rightarrow> role \<Rightarrow> bool" where
  "differs b t r \<longleftrightarrow>
     t = T_x86 \<and> \<not> kernel_types b \<and> i386 b \<and> r \<in> {Parm 4, Parm 5} \<or>
     t = T_arm \<and> r = Parm 5 \<or> t = T_powerpc \<and> r = Ret \<or> t = T_riscv \<and> r \<in> {Fp, Rc, Ip}"

section \<open>Properties\<close>

text \<open>On every architecture the arguments of a kprobe handler and of a system call handler come from
  the registers of the calling convention in order, no two from the same register, and an
  argument beyond the registers has no value.\<close>

theorem tracing_args_in_order:
  "(\<forall>i < n. bpf_kprobe_args n (abi_of b t) ctx ! i =
      (if i < length (parms (abi_of b t)) then access (parms (abi_of b t) ! i) ctx else None)) \<and>
   (\<forall>i < n. bpf_syscall_args n (abi_of b t) ctx ! i =
      (if i < length (sys_parms (abi_of b t)) then access (sys_parms (abi_of b t) ! i) ctx else None)) \<and>
   distinct (parms (abi_of b t)) \<and> distinct (sys_parms (abi_of b t))"
proof -
  have "distinct (parms (abi_of b t))" "distinct (sys_parms (abi_of b t))"
    by (cases t; simp add: abi_defs regs_def)+
  then show ?thesis
    using kprobe_args_nth [of n "abi_of b t" ctx] syscall_args_nth [of n "abi_of b t" ctx]
    by (auto simp: PT_REGS_PARM_def PT_REGS_PARM_SYSCALL_def parm_of_def)
qed

theorem tracing_args_in_order_witness:
  "bpf_syscall_args 4 (abi_of \<lparr>kernel_types = True, i386 = False, arch64 = True\<rparr> T_x86)
     ((\<lambda>_. 0)(''r10'' := 9)) ! 3 = Some 9"
proof -
  let ?b = "\<lparr>kernel_types = True, i386 = False, arch64 = True\<rparr>"
  have "bpf_syscall_args 4 (abi_of ?b T_x86) ((\<lambda>_. 0)(''r10'' := 9)) ! 3 =
      (if 3 < length (sys_parms (abi_of ?b T_x86))
       then access (sys_parms (abi_of ?b T_x86) ! 3) ((\<lambda>_. 0)(''r10'' := 9)) else None)"
    using tracing_args_in_order [of 4 ?b T_x86 "(\<lambda>_. 0)(''r10'' := 9)"] by simp
  then show ?thesis by (simp add: abi_defs regs_def)
qed

text \<open>The slot arithmetic of \<open>BPF_PROG2\<close>, which counts from the end of the argument list, hands every
  argument the slots that follow those of the arguments before it.\<close>

theorem tracing_prog2_slots:
  assumes "set ts \<subseteq> {1, 2, 4, 8, 16}"
  shows "\<exists>args. BPF_PROG2 order ts ctx = Some args \<and> length args = length ts \<and>
    (\<forall>i < length ts. args ! i = bpf_union_arg order (ts ! i) ctx
       (sum_list (map (\<lambda>sz. if sz = 16 then 2 else 1) (take i ts))))"
proof -
  have ok: "arg_sizes ts" using assms by (simp add: arg_sizes_def)
  from ctx_arg_slots [OF ok, of 0 _ order ctx] reg_cnt_sum [OF ok] show ?thesis
    by (simp add: BPF_PROG2_def slots_of_def [abs_def])
qed

theorem tracing_prog2_slots_witness:
  "\<exists>args. BPF_PROG2 Little [4, 16, 1] (\<lambda>n. of_nat n) = Some args \<and> args ! 2 = [3]"
proof -
  have "set [4, 16, 1 :: nat] \<subseteq> {1, 2, 4, 8, 16}" by simp
  from tracing_prog2_slots [OF this, of Little "\<lambda>n. of_nat n"] obtain args where
    "BPF_PROG2 Little [4, 16, 1] (\<lambda>n. of_nat n) = Some args" and
    "args ! 2 = bpf_union_arg Little 1 (\<lambda>n. of_nat n) 3"
    by (auto simp: numeral_2_eq_2 numeral_3_eq_3 All_less_Suc)
  then show ?thesis by (simp add: bpf_union_arg_def store_bytes_def le_bytes_def)
qed

text \<open>The older header names the same register as libbpf's for every role on every architecture it knows,
  except at the places listed. The return value and frame pointer of RISC-V are among them.\<close>

theorem tracing_headers_agree:
  assumes "t \<notin> {T_arc, T_loongarch}" and "r \<in> set roles"
  shows "old_reg b t r = new_reg b t r \<longleftrightarrow> \<not> differs b t r"
  using assms
  by (cases t)
    (auto simp: roles_def old_defs abi_defs regs_def parm_of_def differs_def eval_nat_numeral)

theorem tracing_headers_agree_witness:
  "old_reg \<lparr>kernel_types = False, i386 = False, arch64 = True\<rparr> T_riscv Rc
     \<noteq> new_reg \<lparr>kernel_types = False, i386 = False, arch64 = True\<rparr> T_riscv Rc"
  using tracing_headers_agree [of T_riscv Rc "\<lparr>kernel_types = False, i386 = False, arch64 = True\<rparr>"]
  by (simp add: roles_def differs_def)

end
