(* ===== verification/Core_Read.thy ===== *)
theory Core_Read
  imports Prelude
begin

text \<open>
  The relocatable reads of \<open>bpf_core_read.h\<close>: pointer chasing with the recursive macros behind
  \<open>BPF_CORE_READ\<close>, the argument-counting macros they dispatch on, and the two bitfield readers.
  Kernel memory is a partial map from addresses to bytes. A read that the kernel refuses has no
  value: its destination is unspecified by the helper's documentation. The relocation values that
  libbpf patches in (offset, size, signedness, shifts) are parameters of the definitions.
\<close>

section \<open>Memory\<close>

type_synonym memory = "u64 \<Rightarrow> u8 option"

definition EFAULT :: int where "EFAULT = 14"

definition mem_bytes :: "memory \<Rightarrow> nat \<Rightarrow> u64 \<Rightarrow> bytes option" where
  "mem_bytes mem n a = those (map (\<lambda>i. mem (a + of_nat i)) [0..<n])"

definition bpf_probe_read_kernel :: "memory \<Rightarrow> nat \<Rightarrow> u64 \<Rightarrow> int \<times> bytes option" where
  "bpf_probe_read_kernel mem n a =
     (case mem_bytes mem n a of Some bs \<Rightarrow> (0, Some bs) | None \<Rightarrow> (- EFAULT, None))"

text \<open>A store of bytes, used to build memories.\<close>

definition mem_store :: "memory \<Rightarrow> u64 \<Rightarrow> bytes \<Rightarrow> memory" where
  "mem_store mem a bs = (\<lambda>x. if unat (x - a) < length bs then Some (bs ! unat (x - a)) else mem x)"

lemma those_map_Some: "those (map (\<lambda>x. Some (f x)) xs) = Some (map f xs)"
  by (induction xs) simp_all

lemma those_length: "those xs = Some ys \<Longrightarrow> length ys = length xs"
  by (induction xs arbitrary: ys) (auto split: option.splits)

lemma length_mem_bytes: "mem_bytes mem n a = Some bs \<Longrightarrow> length bs = n"
  unfolding mem_bytes_def by (auto dest: those_length)

lemma mem_bytes_store:
  assumes "length bs < 2 ^ 64"
  shows "mem_bytes (mem_store mem a bs) (length bs) a = Some bs"
proof -
  have "mem_store mem a bs (a + of_nat i) = Some (bs ! i)" if "i < length bs" for i
    using that assms by (simp add: mem_store_def unat_of_nat)
  then have "map (\<lambda>i. mem_store mem a bs (a + of_nat i)) [0..<length bs]
      = map (\<lambda>i. Some (bs ! i)) [0..<length bs]"
    by (intro map_cong) auto
  then show ?thesis by (simp only: mem_bytes_def those_map_Some map_nth)
qed

section \<open>Counting macro arguments\<close>

text \<open>
  \<open>___nth\<close> returns its twelfth argument; \<open>___narg\<close> prefixes the arguments with a placeholder
  and appends the numbers from ten down to zero. \<open>___empty\<close> appends ten markers and a zero.
\<close>

definition macro_nth :: "'a list \<Rightarrow> 'a" where
  "macro_nth xs = xs ! 11"

definition narg :: "'a list \<Rightarrow> nat" where
  "narg args = macro_nth (0 # map (\<lambda>_. 0) args @ [10, 9, 8, 7, 6, 5, 4, 3, 2, 1, 0])"

datatype arity = Arity0 | ArityN

definition empty_args :: "'a list \<Rightarrow> arity" where
  "empty_args args = macro_nth (Arity0 # map (\<lambda>_. Arity0) args @ replicate 10 ArityN @ [Arity0])"

definition macro_last :: "'a list \<Rightarrow> 'a" where
  "macro_last args = args ! (narg args - 1)"

definition macro_nolast :: "'a list \<Rightarrow> 'a list" where
  "macro_nolast args = take (narg args - 1) args"

section \<open>Pointer chasing\<close>

text \<open>
  A read through one accessor: the field's offset from the base pointer. Intermediate fields are
  pointers of eight bytes, loaded in the byte order of the machine.
\<close>

definition rd_ptr :: "byte_order \<Rightarrow> memory \<Rightarrow> u64 \<Rightarrow> u64 \<Rightarrow> u64 option" where
  "rd_ptr order mem base off = map_option (load_bytes order) (snd (bpf_probe_read_kernel mem 8 (base + off)))"

text \<open>
  \<open>___rd_p1\<close> to \<open>___rd_p9\<close>: the first accessor is read from the source, every further one from
  the pointer read before, the macros peeling accessors off the end. How a pointer is read is a
  parameter, as in the macros.
\<close>

type_synonym ptr_reader = "u64 \<Rightarrow> u64 \<Rightarrow> u64 option"

fun rd_p :: "nat \<Rightarrow> ptr_reader \<Rightarrow> u64 \<Rightarrow> u64 list \<Rightarrow> u64 option" where
  "rd_p 0 rd src accs = None"
| "rd_p (Suc 0) rd src accs = rd src (hd accs)"
| "rd_p (Suc (Suc n)) rd src accs =
     (case rd_p (Suc n) rd src (macro_nolast accs) of
        None \<Rightarrow> None
      | Some t \<Rightarrow> rd t (macro_last accs))"

definition read_ptrs :: "ptr_reader \<Rightarrow> u64 \<Rightarrow> u64 list \<Rightarrow> u64 option" where
  "read_ptrs rd src accs = rd_p (narg accs) rd src accs"

text \<open>\<open>___core_read\<close>: one accessor is read at once, several through the pointers before the last.\<close>

definition core_read :: "(u64 \<Rightarrow> 'b option) \<Rightarrow> ptr_reader \<Rightarrow> u64 \<Rightarrow> u64 \<Rightarrow> u64 list \<Rightarrow> 'b option" where
  "core_read fn rd src a acs =
     (case empty_args acs of
        Arity0 \<Rightarrow> fn (src + a)
      | ArityN \<Rightarrow>
          (case read_ptrs rd src (macro_nolast (a # acs)) of
             None \<Rightarrow> None
           | Some t \<Rightarrow> fn (t + macro_last (a # acs))))"

definition BPF_CORE_READ :: "byte_order \<Rightarrow> memory \<Rightarrow> nat \<Rightarrow> u64 \<Rightarrow> u64 list \<Rightarrow> 'a::len word option" where
  "BPF_CORE_READ order mem sz src accs =
     (case accs of [] \<Rightarrow> None
      | a # acs \<Rightarrow> map_option (load_bytes order)
          (core_read (\<lambda>p. snd (bpf_probe_read_kernel mem sz p)) (rd_ptr order mem) src a acs))"

section \<open>Bitfields\<close>

record field_relo =
  BYTE_OFFSET :: u64
  BYTE_SIZE :: nat
  SIGNED :: bool
  LSHIFT_U64 :: nat
  RSHIFT_U64 :: nat

definition shift_out :: "field_relo \<Rightarrow> u64 \<Rightarrow> u64" where
  "shift_out r val =
     (let val = push_bit (LSHIFT_U64 r) val
      in if SIGNED r then signed_drop_bit (RSHIFT_U64 r) val else drop_bit (RSHIFT_U64 r) val)"

text \<open>
  The probed reader: the field's storage is copied into a zeroed 64-bit variable, at its start on
  little-endian and at its end on big-endian machines.
\<close>

definition bitfield_dst :: "byte_order \<Rightarrow> bytes \<Rightarrow> bytes" where
  "bitfield_dst order bs = (case order of
     Little \<Rightarrow> bs @ replicate (8 - length bs) 0 | Big \<Rightarrow> replicate (8 - length bs) 0 @ bs)"

definition BPF_CORE_READ_BITFIELD_PROBED :: "byte_order \<Rightarrow> memory \<Rightarrow> u64 \<Rightarrow> field_relo \<Rightarrow> u64 option" where
  "BPF_CORE_READ_BITFIELD_PROBED order mem s r =
     map_option (\<lambda>bs. shift_out r (load_bytes order (bitfield_dst order bs)))
       (snd (bpf_probe_read_kernel mem (BYTE_SIZE r) (s + BYTE_OFFSET r)))"

text \<open>The direct reader: a load of the width that the size selects; no case for other sizes.\<close>

definition BPF_CORE_READ_BITFIELD :: "byte_order \<Rightarrow> memory \<Rightarrow> u64 \<Rightarrow> field_relo \<Rightarrow> u64 option" where
  "BPF_CORE_READ_BITFIELD order mem s r =
     (let p = s + BYTE_OFFSET r;
          val = (if BYTE_SIZE r = 1 then map_option (\<lambda>bs. ucast (load_bytes order bs :: u8)) (mem_bytes mem 1 p)
            else if BYTE_SIZE r = 2 then map_option (\<lambda>bs. ucast (load_bytes order bs :: u16)) (mem_bytes mem 2 p)
            else if BYTE_SIZE r = 4 then map_option (\<lambda>bs. ucast (load_bytes order bs :: u32)) (mem_bytes mem 4 p)
            else if BYTE_SIZE r = 8 then map_option (load_bytes order) (mem_bytes mem 8 p)
            else None)
      in map_option (shift_out r) val)"

section \<open>The macros compute what their names say\<close>

lemma macro_nth_Cons: "macro_nth (x # xs) = xs ! 10"
  by (simp add: macro_nth_def)

lemma narg_length:
  assumes "length args \<le> 10"
  shows "narg args = length args"
proof -
  have countdown: "[10, 9, 8, 7, 6, 5, 4, 3, 2, 1, 0] = rev [0..<11 :: nat]" by (simp add: upt_rec)
  have "narg args = (map (\<lambda>_. 0) args @ rev [0..<11]) ! 10"
    unfolding narg_def macro_nth_Cons countdown ..
  then show ?thesis using assms by (simp add: nth_append rev_nth)
qed

lemma macro_last_last: "args \<noteq> [] \<Longrightarrow> length args \<le> 10 \<Longrightarrow> macro_last args = last args"
  by (simp add: macro_last_def narg_length last_conv_nth)

lemma macro_nolast_butlast: "length args \<le> 10 \<Longrightarrow> macro_nolast args = butlast args"
  by (simp add: macro_nolast_def narg_length butlast_conv_take)

lemma empty_args_iff:
  assumes "length args \<le> 10"
  shows "empty_args args = (if args = [] then Arity0 else ArityN)"
proof -
  have "(map (\<lambda>_. Arity0) args @ replicate 10 ArityN @ [Arity0]) ! 10
      = (replicate 10 ArityN @ [Arity0]) ! (10 - length args)"
    using assms by (simp add: nth_append)
  then show ?thesis
    using assms by (cases args) (simp_all add: empty_args_def macro_nth_def nth_append)
qed

text \<open>The meaning of a chain of arrows: load pointer after pointer from the left.\<close>

fun chase :: "ptr_reader \<Rightarrow> u64 \<Rightarrow> u64 list \<Rightarrow> u64 option" where
  "chase rd t [] = Some t"
| "chase rd t (a # as) = (case rd t a of None \<Rightarrow> None | Some t' \<Rightarrow> chase rd t' as)"

lemma chase_snoc:
  "chase rd t (as @ [a]) =
     (case chase rd t as of None \<Rightarrow> None | Some t' \<Rightarrow> rd t' a)"
  by (induction as arbitrary: t) (auto split: option.splits)

lemma rd_p_chase:
  "length accs = Suc n \<Longrightarrow> Suc n \<le> 10 \<Longrightarrow> rd_p (Suc n) rd src accs = chase rd src accs"
proof (induction n arbitrary: accs)
  case 0
  then show ?case by (cases accs) (auto split: option.splits)
next
  case (Suc n)
  then have ne: "accs \<noteq> []" and len: "length (butlast accs) = Suc n" by auto
  have m: "macro_last accs = last accs" "macro_nolast accs = butlast accs"
    using ne Suc.prems by (simp_all add: macro_last_last macro_nolast_butlast)
  have "chase rd src accs = chase rd src (butlast accs @ [last accs])" using ne by simp
  also have "\<dots> = rd_p (Suc (Suc n)) rd src accs"
    using Suc.IH [OF len] Suc.prems by (simp only: chase_snoc) (simp add: m split: option.split)
  finally show ?case by simp
qed

lemma core_read_chase:
  assumes "length acs < 10"
  shows "core_read fn rd src a acs =
    (case chase rd src (butlast (a # acs)) of
       None \<Rightarrow> None
     | Some t \<Rightarrow> fn (t + last (a # acs)))"
proof (cases "acs = []")
  case True
  then show ?thesis by (simp add: core_read_def empty_args_iff)
next
  case False
  let ?accs = "butlast (a # acs)"
  have len: "length ?accs = length acs" by simp
  then obtain n where n: "length ?accs = Suc n" using False by (metis length_0_conv not0_implies_Suc)
  have small: "length ?accs \<le> 10" using len assms by simp
  then have "read_ptrs rd src ?accs = chase rd src ?accs"
    using rd_p_chase [OF n] n by (simp only: read_ptrs_def narg_length)
  moreover have "macro_nolast (a # acs) = ?accs" "macro_last (a # acs) = last (a # acs)"
    using assms by (intro macro_nolast_butlast macro_last_last; simp)+
  ultimately show ?thesis using False assms by (simp add: core_read_def empty_args_iff split: option.split)
qed

section \<open>Bitfields are extracted\<close>

lemma of_le_bytes_pad: "of_le_bytes (bs @ replicate n 0) = of_le_bytes bs"
proof (induction bs)
  case Nil
  have "of_le_bytes (replicate n 0) = (0 :: 'a word)" by (induction n) simp_all
  then show ?case by simp
qed simp

lemma load_bitfield_dst: "load_bytes order (bitfield_dst order bs) = load_bytes order bs"
  by (cases order) (simp_all add: load_bytes_def bitfield_dst_def of_le_bytes_pad)

lemma ucast_load_bytes:
  assumes "8 * length bs \<le> LENGTH('a)"
  shows "ucast (load_bytes order bs :: 'a::len word) = (load_bytes order bs :: u64)"
proof -
  have "ucast (of_le_bytes cs :: 'a word) = (of_le_bytes cs :: u64)" if "8 * length cs \<le> LENGTH('a)" for cs
    using that by (intro bit_word_eqI) (auto simp: bit_simps bit_of_le_bytes div_less_iff_less_mult)
  from this [of bs] this [of "rev bs"] assms show ?thesis by (cases order) (simp_all add: load_bytes_def)
qed

text \<open>The shifts that libbpf computes for a field of \<open>w\<close> bits at bit \<open>o\<close> of its storage.\<close>

definition relo_for :: "nat \<Rightarrow> nat \<Rightarrow> field_relo \<Rightarrow> bool" where
  "relo_for pos w r \<longleftrightarrow> 0 < w \<and> pos + w \<le> 64 \<and> LSHIFT_U64 r = 64 - (pos + w) \<and> RSHIFT_U64 r = 64 - w"

lemma shift_out_unsigned:
  assumes "relo_for pos w r" and "\<not> SIGNED r"
  shows "shift_out r val = take_bit w (drop_bit pos val)"
  using assms
  by (intro bit_word_eqI) (auto simp: shift_out_def relo_for_def bit_simps add.commute
      intro: arg_cong [where f = "bit val"] dest: bit_imp_le_length)

lemma shift_out_signed:
  assumes "relo_for pos w r" and "SIGNED r"
  shows "shift_out r val = signed_take_bit (w - 1) (drop_bit pos val)"
proof (rule bit_word_eqI)
  fix n assume "n < LENGTH(64)"
  then have n: "n < 64" by simp
  have r: "0 < w" "pos + w \<le> 64" "LSHIFT_U64 r = 64 - (pos + w)" "RSHIFT_U64 r = 64 - w"
    using assms(1) by (simp_all add: relo_for_def)
  consider "n < w - 1" | "n = w - 1" | "w \<le> n" by linarith
  then show "bit (shift_out r val) n = bit (signed_take_bit (w - 1) (drop_bit pos val)) n"
    using n r assms(2)
    by cases (auto simp: shift_out_def bit_simps min_def add.commute)
qed

section \<open>Properties\<close>

text \<open>A relocatable read of up to nine accessors is a chain of loads from the left: every accessor but
  the last loads a pointer from the one before, and the last field is loaded from the final
  pointer. It has a value exactly when every load is allowed.\<close>

theorem core_read_follows_pointers:
  assumes "accs \<noteq> []" and "length accs \<le> 9"
  shows "BPF_CORE_READ order mem sz src accs =
    (case chase (rd_ptr order mem) src (butlast accs) of
       None \<Rightarrow> None
     | Some t \<Rightarrow> map_option (load_bytes order) (mem_bytes mem sz (t + last accs)))"
proof -
  obtain a acs where accs: "accs = a # acs" using assms(1) by (cases accs) auto
  with assms(2) have "length acs < 10" by simp
  from core_read_chase [OF this, of "\<lambda>p. snd (bpf_probe_read_kernel mem sz p)" "rd_ptr order mem" src a] show ?thesis
    by (simp add: BPF_CORE_READ_def accs bpf_probe_read_kernel_def split: option.splits)
qed

text \<open>A chain of two objects: the pointer at 16 leads to 256, whose field at offset 4 holds 77.\<close>

definition two_objects :: memory where
  "two_objects = mem_store (mem_store (\<lambda>_. None) 16 (le_bytes 8 (256 :: u64))) 260 (le_bytes 4 (77 :: u32))"

lemma two_objects_bytes:
  "mem_bytes two_objects 8 16 = Some (le_bytes 8 (256 :: u64))"
  "mem_bytes two_objects 4 260 = Some (le_bytes 4 (77 :: u32))"
proof -
  have "two_objects x = mem_store (\<lambda>_. None) 16 (le_bytes 8 (256 :: u64)) x" if "unat (x - 260) \<ge> 4" for x
    using that by (simp add: two_objects_def mem_store_def)
  then have "mem_bytes two_objects 8 16 = mem_bytes (mem_store (\<lambda>_. None) 16 (le_bytes 8 (256 :: u64))) 8 16"
    by (simp add: mem_bytes_def upt_rec)
  then show "mem_bytes two_objects 8 16 = Some (le_bytes 8 (256 :: u64))"
    using mem_bytes_store [of "le_bytes 8 (256 :: u64)"] by simp
  show "mem_bytes two_objects 4 260 = Some (le_bytes 4 (77 :: u32))"
    unfolding two_objects_def using mem_bytes_store [of "le_bytes 4 (77 :: u32)"] by simp
qed

theorem core_read_follows_pointers_witness:
  "BPF_CORE_READ Little two_objects 4 0 [16, 4] = Some (77 :: u32)"
proof -
  have "chase (rd_ptr Little two_objects) 0 [16] = Some 256"
    by (simp add: rd_ptr_def bpf_probe_read_kernel_def two_objects_bytes load_bytes_def of_le_bytes_le_bytes)
  with core_read_follows_pointers [of "[16, 4]" Little two_objects 4 0, where 'a = 32] show ?thesis
    by (simp add: two_objects_bytes load_bytes_def of_le_bytes_le_bytes)
qed

text \<open>Both bitfield readers extract the field: for a field of \<open>w\<close> bits at bit \<open>pos\<close> of storage of 1,
  2, 4 or 8 bytes, on either byte order, the result is the field's bits, zero- or sign-extended to
  64 bits as the field's signedness says.\<close>

theorem core_read_bitfield_extracts:
  assumes "relo_for pos w r" and "BYTE_SIZE r \<in> {1, 2, 4, 8}"
    and "mem_bytes mem (BYTE_SIZE r) (s + BYTE_OFFSET r) = Some bs"
    and "field = drop_bit pos (load_bytes order bs :: u64)"
  shows "BPF_CORE_READ_BITFIELD_PROBED order mem s r
      = Some (if SIGNED r then signed_take_bit (w - 1) field else take_bit w field) \<and>
    BPF_CORE_READ_BITFIELD order mem s r = BPF_CORE_READ_BITFIELD_PROBED order mem s r"
proof -
  have len: "length bs = BYTE_SIZE r" by (rule length_mem_bytes) fact
  have "BPF_CORE_READ_BITFIELD_PROBED order mem s r = Some (shift_out r (load_bytes order bs))"
    using assms(3) by (simp add: BPF_CORE_READ_BITFIELD_PROBED_def bpf_probe_read_kernel_def load_bitfield_dst)
  moreover have "BPF_CORE_READ_BITFIELD order mem s r = Some (shift_out r (load_bytes order bs))"
    using assms(2,3) len
    by (auto simp: BPF_CORE_READ_BITFIELD_def ucast_load_bytes)
  ultimately show ?thesis
    using assms(1,4) by (simp add: shift_out_signed shift_out_unsigned)
qed

theorem core_read_bitfield_extracts_witness:
  "BPF_CORE_READ_BITFIELD_PROBED Little two_objects 256
     \<lparr>BYTE_OFFSET = 4, BYTE_SIZE = 4, SIGNED = True, LSHIFT_U64 = 60, RSHIFT_U64 = 62\<rparr> = Some (- 1)"
proof -
  let ?r = "\<lparr>BYTE_OFFSET = 4, BYTE_SIZE = 4, SIGNED = True, LSHIFT_U64 = 60, RSHIFT_U64 = 62\<rparr>"
  have "relo_for 2 2 ?r" by (simp add: relo_for_def)
  moreover have "BYTE_SIZE ?r \<in> {1, 2, 4, 8}" by simp
  moreover have "mem_bytes two_objects (BYTE_SIZE ?r) (256 + BYTE_OFFSET ?r) = Some (le_bytes 4 (77 :: u32))"
    by (simp add: two_objects_bytes)
  moreover have "(19 :: u64) = drop_bit 2 (load_bytes Little (le_bytes 4 (77 :: u32)))"
    by (simp add: load_bytes_def le_bytes_def upt_rec drop_bit_eq_div)
  ultimately have "BPF_CORE_READ_BITFIELD_PROBED Little two_objects 256 ?r
      = Some (if SIGNED ?r then signed_take_bit (2 - 1) 19 else take_bit 2 19)"
    by (rule conjunct1 [OF core_read_bitfield_extracts])
  then show ?thesis by (simp add: signed_take_bit_eq_if_negative)
qed

end
