(* ===== verification/Kprobe_Uprobe.thy ===== *)
theory Kprobe_Uprobe
  imports Bpf_Map Bpf_Env Bpf_Tracing Core_Read
begin

text \<open>
  The two small programs: \<open>kprobe.c\<close>, which counts calls of \<open>execve\<close> in an array element, and
  \<open>uretprobe.c\<close>, which reports every line that \<open>bash\<close> reads. The second reads the returned
  pointer through the register tables of \<^emph>\<open>Bpf_Tracing\<close> and the line through the memory of
  \<^emph>\<open>Core_Read\<close>.
\<close>

section \<open>Counting calls\<close>

type_synonym kprobe_map = "u64 bpf_array"

definition kprobe_init :: kprobe_map where
  "kprobe_init = [0]"

definition kprobe_execve :: "unit \<Rightarrow> kprobe_map \<Rightarrow> kprobe_map" where
  "kprobe_execve ctx m =
     (case array_lookup_elem m 0 of
        None \<Rightarrow> snd (array_update_elem m 0 1 BPF_ANY)
      | Some v \<Rightarrow> array_elem_write m 0 (\<lambda>v. v + 1))"

section \<open>Reporting lines\<close>

record event =
  ev_pid :: u32
  ev_tgid :: u32
  ev_ts :: u64
  ev_comm :: bytes
  ev_line :: bytes

text \<open>
  The event on the handler's stack is not initialised; \<open>stale\<close> is what its line buffer holds
  when the read of the line fails.
\<close>

definition uretprobe_bash_readline ::
    "bpf_env \<Rightarrow> abi \<Rightarrow> memory \<Rightarrow> bytes \<Rightarrow> pt_regs \<Rightarrow> event list \<Rightarrow> event list" where
  "uretprobe_bash_readline env a mem stale ctx out =
     (case PT_REGS_RC a ctx of
        None \<Rightarrow> out
      | Some rc \<Rightarrow>
          let line = (case snd (bpf_probe_read_kernel mem 80 rc) of Some bs \<Rightarrow> bs | None \<Rightarrow> stale)
          in out @ [\<lparr>ev_pid = tid_of (bpf_get_current_pid_tgid env),
               ev_tgid = tgid_of (bpf_get_current_pid_tgid env), ev_ts = bpf_ktime_get_ns env,
               ev_comm = bpf_get_current_comm 16 env, ev_line = line\<rparr>])"

section \<open>Properties\<close>

lemma kprobe_step: "kprobe_execve ctx [v] = [v + 1]"
  by (simp add: kprobe_execve_def array_lookup_elem_def array_elem_write_def)

text \<open>After any number of calls the counter holds that number modulo 2^64; the branch that would
  initialise it to one is never taken, because the element of an array map always exists.\<close>

theorem kprobe_counts_calls:
  "run kprobe_execve calls kprobe_init = [of_nat (length calls)]"
proof -
  have "run kprobe_execve calls [v] = [v + of_nat (length calls)]" for v
    by (induction calls arbitrary: v) (simp_all add: kprobe_step ac_simps)
  from this [of 0] show ?thesis by (simp add: kprobe_init_def)
qed

text \<open>Every return of \<open>readline\<close> is reported once with the thread, the process, and the 80 bytes at the
  pointer in the ABI's return register; the registers of the arguments play no part.\<close>

theorem uretprobe_reports_line:
  assumes "rc_reg a = Reg f" and "mem_bytes mem 80 (ctx f) = Some line"
  shows "\<exists>ev. uretprobe_bash_readline env a mem stale ctx out = out @ [ev] \<and>
    ev_pid ev = env_pid env \<and> ev_tgid ev = env_tgid env \<and> ev_line ev = line \<and> length (ev_line ev) = 80"
  using assms length_mem_bytes [OF assms(2)]
  by (simp add: uretprobe_bash_readline_def PT_REGS_RC_def bpf_probe_read_kernel_def)

theorem uretprobe_reports_line_witness:
  "\<exists>ev. uretprobe_bash_readline \<lparr>env_ktime = 1, env_tgid = 7, env_pid = 8, env_comm = [], env_cpu = 0,
       env_stackid = (\<lambda>_. 0)\<rparr> x86_64_abi (mem_store (\<lambda>_. None) 4096 (replicate 80 65)) []
       ((\<lambda>_. 0)(''rax'' := 4096)) [] = [ev] \<and> ev_tgid ev = 7 \<and> hd (ev_line ev) = 65"
proof -
  have "mem_bytes (mem_store (\<lambda>_. None) 4096 (replicate 80 65)) 80 (((\<lambda>_. 0)(''rax'' := 4096)) ''rax'')
      = Some (replicate 80 65)"
    using mem_bytes_store [of "replicate 80 65" "\<lambda>_. None" 4096] by simp
  then show ?thesis
    using uretprobe_reports_line [of x86_64_abi "''rax''" "mem_store (\<lambda>_. None) 4096 (replicate 80 65)"
        "(\<lambda>_. 0)(''rax'' := 4096)" "replicate 80 65"
        "\<lparr>env_ktime = 1, env_tgid = 7, env_pid = 8, env_comm = [], env_cpu = 0, env_stackid = (\<lambda>_. 0)\<rparr>" "[]" "[]"]
    by (auto simp: x86_64_abi_def)
qed

end
