(* ===== verification/Wire.thy ===== *)
theory Wire
  imports Futexsnoop Offcpu Syscall_Trace Cachestat
begin

text \<open>
  The boundary between the kernel programs and the Go side. The kernel writes C structs, with the
  padding of natural alignment; the Go side reads perf records with \<open>binary.Read\<close>, which knows no
  padding, and writes the argument maps as Go structs, which are laid out like C structs. The
  theory encodes the structs of the programs, decodes them with the Go declarations, and shows
  where the two agree and where they do not. Integers are little-endian, as \<open>binary.LittleEndian\<close>
  says.
\<close>

section \<open>Struct layout\<close>

text \<open>A field: its alignment and the bytes of its value.\<close>

type_synonym field = "nat \<times> bytes"

definition pad_to :: "nat \<Rightarrow> nat \<Rightarrow> nat" where
  "pad_to a off = (a - off mod a) mod a"

text \<open>The memory image of a struct up to the end of its last field, starting at an offset.\<close>

fun c_struct :: "nat \<Rightarrow> field list \<Rightarrow> bytes" where
  "c_struct off [] = []"
| "c_struct off ((a, bs) # fs) =
     replicate (pad_to a off) 0 @ bs @ c_struct (off + pad_to a off + length bs) fs"

text \<open>\<open>binary.Read\<close> into a struct with fields of the given sizes; too few bytes are an error.\<close>

fun binary_read :: "nat list \<Rightarrow> bytes \<Rightarrow> bytes list option" where
  "binary_read [] data = Some []"
| "binary_read (n # ns) data =
     (if length data < n then None
      else map_option ((#) (take n data)) (binary_read ns (drop n data)))"

text \<open>Reading a struct back at the C offsets.\<close>

fun c_read :: "nat \<Rightarrow> (nat \<times> nat) list \<Rightarrow> bytes \<Rightarrow> bytes list" where
  "c_read off [] data = []"
| "c_read off ((a, n) # fs) data =
     take n (drop (pad_to a off) data) #
       c_read (off + pad_to a off + n) fs (drop (pad_to a off + n) data)"

fun no_padding :: "nat \<Rightarrow> field list \<Rightarrow> bool" where
  "no_padding off [] \<longleftrightarrow> True"
| "no_padding off ((a, bs) # fs) \<longleftrightarrow> pad_to a off = 0 \<and> no_padding (off + length bs) fs"

lemma binary_read_no_padding:
  "no_padding off fs \<Longrightarrow>
     binary_read (map (length \<circ> snd) fs) (c_struct off fs @ rest) = Some (map snd fs)"
  by (induction fs arbitrary: off rest) auto

lemma c_read_struct: "c_read off (map (\<lambda>(a, bs). (a, length bs)) fs) (c_struct off fs @ rest) = map snd fs"
  by (induction fs arbitrary: off rest) auto

definition u32f :: "u32 \<Rightarrow> field" where "u32f w = (4, le_bytes 4 w)"
definition u64f :: "u64 \<Rightarrow> field" where "u64f w = (8, le_bytes 8 w)"
definition boolf :: "bool \<Rightarrow> field" where "boolf b = (1, [if b then 1 else 0])"
definition charsf :: "bytes \<Rightarrow> field" where "charsf bs = (1, bs)"

declare pad_to_def [layout_simps]

lemmas field_defs [layout_simps] = u32f_def u64f_def boolf_def charsf_def

section \<open>The records the programs send\<close>

definition lock_stat_fields :: "lock_stat \<Rightarrow> field list" where
  "lock_stat_fields e = [u32f (user_cnt e), u32f (max_user_cnt e), u64f (lock_uaddr e),
     charsf (lock_comm e), u64f (lock_pid_tgid e), u64f (lock_ts e)]"

definition hist_fields :: "hist \<Rightarrow> field list" where
  "hist_fields e = map u32f (slots e) @ [charsf (hist_comm e), u64f (hist_pid_tgid e),
     u64f (hist_uaddr e), u32f (hist_user_stack_id e), u32f (hist_pad e), u64f (contended e),
     u64f (total_elapsed e), u64f (min_dur e), u64f (max_dur e), u64f (delta_dur e), u64f (max_dur_ts e)]"

definition waker_fields :: "waker_t \<Rightarrow> field list" where
  "waker_fields w = [u32f (waker_pid w), u32f (waker_tgid w), u32f (waker_t_pid w), u32f (waker_pad w),
     charsf (waker_t_comm w), u32f (waker_user_stack_id w), u32f (waker_kern_stack_id w),
     charsf (waker_comm w), u64f (waker_oncpu_ns w), u64f (waker_offcpu_ns w), u64f (waker_onrq_ns w),
     u32f (waker_offcpu_id w), u32f (waker_oncpu_id w), u64f (waker_run_delay_ns w)]"

definition target_fields :: "target_t \<Rightarrow> field list" where
  "target_fields t = [u32f (target_pid t), u32f (target_tgid t), u32f (target_w_pid t), u32f (target_pad t),
     charsf (target_w_comm t), u32f (target_user_stack_id t), u32f (target_kern_stack_id t),
     charsf (target_comm t), u64f (target_oncpu_ns t), u64f (target_offcpu_ns t), u64f (target_onrq_ns t),
     u32f (target_offcpu_id t), u32f (target_oncpu_id t), u64f (target_run_delay_ns t)]"

definition perf_event_fields :: "perf_event_t \<Rightarrow> field list" where
  "perf_event_fields e = waker_fields (pe_waker e) @ target_fields (pe_target e) @
     [u64f (pe_dur_ms e), u64f (pe_rq_dur_ms e), u64f (pe_ts_ns e), u32f (pe_is_sched_cache_dump e),
      u32f (pe_cpu e)]"

definition cache_key_fields :: "cache_key \<Rightarrow> field list" where
  "cache_key_fields k = [u64f (ck_pid k), u64f (ck_file k)]"

definition cache_info_fields :: "cache_info \<Rightarrow> field list" where
  "cache_info_fields c = [u32f (ci_pid c), u32f (ci_cpu c), charsf (ci_comm c), charsf (ci_file c),
     u64f (read_size c), u64f (write_size c), u64f (ci_cnt c)]"

definition syscall_event_fields :: "syscall_event \<Rightarrow> field list" where
  "syscall_event_fields e = [u32f (se_pid e), u32f (se_tid e), u64f (ts_ns e), u64f (dur_us e),
     u64f (u_stack_id e), u64f (k_stack_id e), u64f (se_syscall_id e), charsf (se_comm e)]"

section \<open>The Go declarations\<close>

definition LockStat :: "nat list" where
  "LockStat = [4, 4, 8, 16, 8, 8]"

definition TaskLockStat :: "nat list" where
  "TaskLockStat = replicate 24 4 @ [16, 8, 8, 4, 4, 8, 8, 8, 8, 8, 8]"

definition Waker_Target :: "nat list" where
  "Waker_Target = [4, 4, 4, 4, 16, 4, 4, 16, 8, 8, 8, 4, 4, 8]"

definition OffCpuEvent :: "nat list" where
  "OffCpuEvent = Waker_Target @ Waker_Target @ [8, 8, 8, 4, 4]"

definition CacheStat :: "nat list" where
  "CacheStat = [4, 4, 16, 64, 8, 8, 8]"

text \<open>\<open>HandleEvent\<close> of futexsnoop tells the two kinds of record apart by their size; the
  declarations have no padding, so \<open>unsafe.Sizeof\<close> is the sum of the field sizes. None is a record
  for which the event is sent with no attributes.\<close>

datatype futex_msg = Lock_msg "bytes list" | Task_msg "bytes list"

definition futex_HandleEvent :: "bytes \<Rightarrow> futex_msg option" where
  "futex_HandleEvent data =
     (let sizeLock = sum_list LockStat; sizeTask = sum_list TaskLockStat; sizeData = length data
      in if sizeLock \<le> sizeData \<and> sizeData < sizeTask then map_option Lock_msg (binary_read LockStat data)
         else if sizeTask \<le> sizeData then map_option Task_msg (binary_read TaskLockStat data)
         else None)"

text \<open>\<open>SyscallEvent\<close> declares \<open>SyscallId\<close> with 32 bits, the kernel's struct with 64.\<close>

definition SyscallEvent :: "nat list" where
  "SyscallEvent = [4, 4, 8, 8, 8, 8, 4, 16]"

text \<open>The argument struct that \<open>initArgsMap\<close> of futexsnoop stores: \<open>Tid\<close> comes before \<open>Pid\<close>, and
  the lock address and the stack flag keep their zero values.\<close>

record FutexSnoopArgs =
  Tid :: u32
  Pid :: u32
  TargetLock :: u64
  Stack :: bool
  MinDurMs :: u32
  MaxDurMs :: u32
  MaxLockHoldUsers :: u32

definition futex_initArgsMap :: "FutexSnoopArgs \<Rightarrow> FutexSnoopArgs" where
  "futex_initArgsMap a = \<lparr>Tid = Tid a, Pid = Pid a, TargetLock = 0, Stack = False, MinDurMs = MinDurMs a,
     MaxDurMs = MaxDurMs a, MaxLockHoldUsers = MaxLockHoldUsers a\<rparr>"

definition FutexSnoopArgs_fields :: "FutexSnoopArgs \<Rightarrow> field list" where
  "FutexSnoopArgs_fields a = [u32f (Tid a), u32f (Pid a), u64f (TargetLock a), boolf (Stack a),
     u32f (MinDurMs a), u32f (MaxDurMs a), u32f (MaxLockHoldUsers a)]"

text \<open>The kernel program's view of the same bytes.\<close>

definition read_futex_args :: "bytes \<Rightarrow> Futexsnoop.user_args" where
  "read_futex_args data =
     (let r = c_read 0 [(4, 4), (4, 4), (8, 8), (1, 1), (4, 4), (4, 4), (4, 4)] data
      in \<lparr>targ_pid = of_le_bytes (r ! 0), targ_tid = of_le_bytes (r ! 1), targ_lock = of_le_bytes (r ! 2),
          stack = (r ! 3 \<noteq> [0]), min_dur_ms = of_le_bytes (r ! 4), max_dur_ms = of_le_bytes (r ! 5),
          max_lock_hold_users = of_le_bytes (r ! 6)\<rparr>)"

text \<open>The argument struct of syscall (\<open>syscall.go\<close>), which \<open>initArgsMap\<close> copies field by field, and the kernel program's view of
  it.\<close>

record SyscallArgs =
  sa_Pid :: u32
  sa_Tid :: u32
  sa_MinDurMs :: u32
  sa_MaxDurMs :: u32
  sa_Stack :: bool
  sa_SyscallId :: u32

definition syscall_initArgsMap :: "SyscallArgs \<Rightarrow> SyscallArgs" where
  "syscall_initArgsMap a = \<lparr>sa_Pid = sa_Pid a, sa_Tid = sa_Tid a, sa_MinDurMs = sa_MinDurMs a, sa_MaxDurMs = sa_MaxDurMs a,
     sa_Stack = sa_Stack a, sa_SyscallId = sa_SyscallId a\<rparr>"

definition SyscallArgs_fields :: "SyscallArgs \<Rightarrow> field list" where
  "SyscallArgs_fields a = [u32f (sa_Pid a), u32f (sa_Tid a), u32f (sa_MinDurMs a), u32f (sa_MaxDurMs a), boolf (sa_Stack a),
     u32f (sa_SyscallId a)]"

definition read_syscall_args :: "bytes \<Rightarrow> Syscall_Trace.user_args" where
  "read_syscall_args data =
     (let r = c_read 0 [(4, 4), (4, 4), (4, 4), (4, 4), (1, 1), (4, 4)] data
      in \<lparr>ua_pid = of_le_bytes (r ! 0), ua_tid = of_le_bytes (r ! 1), min_syscall_ms = of_le_bytes (r ! 2),
          max_syscall_ms = of_le_bytes (r ! 3), ua_stack = (r ! 4 \<noteq> [0]), ua_syscall_id = of_le_bytes (r ! 5)\<rparr>)"

section \<open>Agreement\<close>

lemma pad_to_eq_0: "a dvd off \<Longrightarrow> pad_to a off = 0"
  by (auto simp: pad_to_def)

lemma slots_packed:
  "4 dvd off \<Longrightarrow> no_padding off (map u32f ws @ fs) = no_padding (off + 4 * length ws) fs"
  by (induction ws arbitrary: off) (simp_all add: u32f_def pad_to_eq_0 add.assoc)

lemma map_length_slots: "map (length \<circ> snd) (map u32f ws) = replicate (length ws) 4"
  by (induction ws) (simp_all add: u32f_def)

lemma lock_stat_packed:
  assumes "length (lock_comm e) = 16"
  shows "no_padding 0 (lock_stat_fields e)" and "map (length \<circ> snd) (lock_stat_fields e) = LockStat"
  using assms by (simp_all add: lock_stat_fields_def layout_simps LockStat_def)

lemma hist_packed:
  assumes "length (slots e) = 24" and "length (hist_comm e) = 16"
  shows "no_padding 0 (hist_fields e)" and "map (length \<circ> snd) (hist_fields e) = TaskLockStat"
  using assms map_length_slots [of "slots e"]
  by (simp_all add: hist_fields_def slots_packed TaskLockStat_def) (simp_all add: layout_simps)

lemma cache_info_packed:
  assumes "length (ci_comm c) = 16" and "length (ci_file c) = 64"
  shows "no_padding 0 (cache_info_fields c)" and "map (length \<circ> snd) (cache_info_fields c) = CacheStat"
  using assms by (simp_all add: cache_info_fields_def layout_simps CacheStat_def)

lemma no_padding_append:
  "no_padding off (fs @ gs) \<longleftrightarrow> no_padding off fs \<and> no_padding (off + sum_list (map (length \<circ> snd) fs)) gs"
  by (induction fs arbitrary: off) (auto simp: add.assoc)

lemma waker_packed:
  assumes "length (waker_t_comm w) = 16" and "length (waker_comm w) = 16"
  shows "no_padding 0 (waker_fields w)" and "map (length \<circ> snd) (waker_fields w) = Waker_Target"
  using assms by (simp_all add: waker_fields_def layout_simps Waker_Target_def)

lemma target_packed:
  assumes "length (target_w_comm t) = 16" and "length (target_comm t) = 16"
  shows "no_padding 96 (target_fields t)" and "map (length \<circ> snd) (target_fields t) = Waker_Target"
  using assms by (simp_all add: target_fields_def layout_simps Waker_Target_def)

lemma perf_event_packed:
  assumes "length (waker_t_comm (pe_waker e)) = 16" and "length (waker_comm (pe_waker e)) = 16"
    and "length (target_w_comm (pe_target e)) = 16" and "length (target_comm (pe_target e)) = 16"
  shows "no_padding 0 (perf_event_fields e)"
    and "map (length \<circ> snd) (perf_event_fields e) = OffCpuEvent"
proof -
  let ?w = "waker_fields (pe_waker e)" and ?t = "target_fields (pe_target e)"
  have len: "map (length \<circ> snd) ?w = Waker_Target" "map (length \<circ> snd) ?t = Waker_Target"
    using assms waker_packed(2) target_packed(2) by blast+
  moreover have "sum_list Waker_Target = 96" by (simp add: Waker_Target_def)
  ultimately show "no_padding 0 (perf_event_fields e)"
    using assms waker_packed(1) target_packed(1)
    by (simp add: perf_event_fields_def no_padding_append) (simp add: layout_simps)
  show "map (length \<circ> snd) (perf_event_fields e) = OffCpuEvent"
    unfolding perf_event_fields_def OffCpuEvent_def map_append len by (simp add: field_defs)
qed

lemma length_c_struct: "no_padding off fs \<Longrightarrow> length (c_struct off fs) = sum_list (map (length \<circ> snd) fs)"
  by (induction fs arbitrary: off) auto

lemma Go_sizes: "sum_list LockStat = 48" "sum_list TaskLockStat = 184"
  by (simp_all add: LockStat_def TaskLockStat_def sum_list_replicate)

text \<open>A 32-bit number stored in 64 bits: four zero bytes follow it.\<close>

lemma le_bytes_widen: "le_bytes 8 (ucast (n :: u32) :: u64) = le_bytes 4 n @ replicate 4 0"
proof (rule nth_equalityI)
  have "ucast (drop_bit (8 * i) (ucast n :: u64)) = (if i < 4 then ucast (drop_bit (8 * i) n) else 0 :: 8 word)" for i
    by (auto intro!: bit_word_eqI simp: bit_simps) (use bit_imp_le_length [of n] in fastforce)
  then show "le_bytes 8 (ucast n :: u64) ! i = (le_bytes 4 n @ replicate 4 0) ! i"
    if "i < length (le_bytes 8 (ucast n :: u64))" for i
    using that by (simp add: le_bytes_def nth_append)
qed simp

text \<open>The image of a record the futexsnoop program hands to \<open>bpf_perf_event_output\<close>, and the record
  as the Go side should see it.\<close>

fun futex_event_image :: "futex_event \<Rightarrow> bytes" where
  "futex_event_image (Lock_event e) = c_struct 0 (lock_stat_fields e)"
| "futex_event_image (Hist_event e) = c_struct 0 (hist_fields e)"

fun futex_event_msg :: "futex_event \<Rightarrow> futex_msg" where
  "futex_event_msg (Lock_event e) = Lock_msg (map snd (lock_stat_fields e))"
| "futex_event_msg (Hist_event e) = Task_msg (map snd (hist_fields e))"

fun futex_event_sized :: "futex_event \<Rightarrow> bool" where
  "futex_event_sized (Lock_event e) \<longleftrightarrow> length (lock_comm e) = 16"
| "futex_event_sized (Hist_event e) \<longleftrightarrow> length (slots e) = 24 \<and> length (hist_comm e) = 16"

lemma futex_record_decodes:
  assumes "futex_event_sized e" and "length rest < 8"
  shows "futex_HandleEvent (futex_event_image e @ rest) = Some (futex_event_msg e)"
proof (cases e)
  case (Lock_event l)
  then have "length (lock_comm l) = 16" using assms by simp
  note packed = lock_stat_packed [OF this]
  show ?thesis
    using Lock_event packed assms(2) binary_read_no_padding [OF packed(1), of rest]
    by (simp add: futex_HandleEvent_def Go_sizes length_c_struct)
next
  case (Hist_event h)
  then have "length (slots h) = 24" "length (hist_comm h) = 16" using assms by simp_all
  note packed = hist_packed [OF this]
  show ?thesis
    using Hist_event packed binary_read_no_padding [OF packed(1), of rest]
    by (simp add: futex_HandleEvent_def Go_sizes length_c_struct)
qed

text \<open>Every array of a record keeps its declared length in every run.\<close>

definition sized_inv :: "futex_state \<Rightarrow> bool" where
  "sized_inv s \<longleftrightarrow> args_ready s \<and> list_all futex_event_sized (futex_state.perf_out s) \<and>
     (\<forall>k h. bpf_map_lookup_elem (hists_map s) k = Some h \<longrightarrow> futex_event_sized (Hist_event h))"

lemma sized_account: "length (slots h) = 24 \<Longrightarrow> futex_event_sized (Hist_event (hist_account amd env ts d h))"
  by (simp add: hist_account_def hist_minmax_def hist_count_def Let_def TASK_COMM_LEN_def)

lemma sized_report: "futex_event_sized (Hist_event (hist_report hkey d h)) = futex_event_sized (Hist_event h)"
  by (simp add: hist_report_def)

lemma sized_record:
  assumes "sized_inv s"
  shows "list_all futex_event_sized (futex_state.perf_out (futex_record amd env args hkey ts delta s)) \<and>
     (\<forall>k h. bpf_map_lookup_elem (hists_map (futex_record amd env args hkey ts delta s)) k = Some h \<longrightarrow>
        futex_event_sized (Hist_event h))"
proof -
  have "length (slots (prior_hist s hkey)) = 24"
    using assms by (auto simp: sized_inv_def prior_hist_def initial_hist_def MAX_SLOTS_def split: option.split)
  note new = sized_account [OF this, of amd env ts "c_sdiv delta 1000"]
  show ?thesis
    by (cases rule: futex_record_cases [where s = s and hkey = hkey and amd = amd and env = env
          and args = args and ts = ts and delta = delta])
      (use assms new sized_report in \<open>auto simp: sized_inv_def simp del: futex_event_sized.simps\<close>)
qed

lemma sized_enter: "sized_inv s \<Longrightarrow> sized_inv (futex_enter env ctx s)"
  by (auto simp: sized_inv_def args_ready_def futex_enter_def Let_def TASK_COMM_LEN_def split: option.split)

lemma sized_step:
  assumes "sized_inv s"
  shows "sized_inv (futex_step amd e s)"
proof (cases e)
  case (Enter env ctx)
  then show ?thesis using sized_enter [OF assms] by simp
next
  case (Exit env ret)
  have ready: "args_ready s" using assms by (simp add: sized_inv_def)
  then have "args_ready (futex_step amd e s)" by (simp add: args_ready_def)
  then show ?thesis
    by (cases rule: futex_exit_cases [OF ready, of amd env ret])
      (use assms Exit sized_record [OF assms] in \<open>auto simp: sized_inv_def\<close>)
qed

interpretation sized: handler_invariant "futex_step amd" sized_inv for amd
  by unfold_locales (rule sized_step)

lemma sized_init: "sized_inv (futex_init args)"
  by (simp add: sized_inv_def futex_init_def args_ready_def)

text \<open>Whatever record futexsnoop has sent in a run, the Go side recognises its kind by the size
  and reads every field as the kernel wrote it, also when the perf buffer appends up to 7 bytes of
  padding.\<close>

theorem wire_futex_records_decode:
  assumes "e \<in> set (futex_state.perf_out (run (futex_step amd) es (futex_init args)))" and "length rest < 8"
  shows "futex_HandleEvent (futex_event_image e @ rest) = Some (futex_event_msg e)"
proof -
  have "sized_inv (run (futex_step amd) es (futex_init args))" by (rule sized.run_inv [OF sized_init])
  with assms(1) have "futex_event_sized e" by (simp add: sized_inv_def list_all_iff)
  then show ?thesis using assms(2) by (rule futex_record_decodes)
qed

theorem wire_futex_records_decode_witness:
  "\<exists>e \<in> set (futex_state.perf_out (run (futex_step True) (take 2 Futexsnoop.sample_run) (futex_init Futexsnoop.sample_args))).
     futex_HandleEvent (futex_event_image e @ [0, 0, 0, 0]) = Some (futex_event_msg e)"
proof -
  have "futex_state.perf_out (run (futex_step True) (take 2 Futexsnoop.sample_run) (futex_init Futexsnoop.sample_args)) \<noteq> []"
    by (simp add: Futexsnoop.sample_eval)
  then obtain e where
    "e \<in> set (futex_state.perf_out (run (futex_step True) (take 2 Futexsnoop.sample_run) (futex_init Futexsnoop.sample_args)))"
    by fastforce
  then show ?thesis using wire_futex_records_decode [where rest = "[0, 0, 0, 0]"] by force
qed

text \<open>The records of offcpu and cachestat have no padding either: \<open>binary.Read\<close> with the Go
  declarations returns every field of the kernel's structs.\<close>

theorem wire_events_decode:
  assumes "length (waker_t_comm (pe_waker e)) = 16" and "length (waker_comm (pe_waker e)) = 16"
    and "length (target_w_comm (pe_target e)) = 16" and "length (target_comm (pe_target e)) = 16"
    and "length (ci_comm c) = 16" and "length (ci_file c) = 64"
  shows "binary_read OffCpuEvent (c_struct 0 (perf_event_fields e) @ rest) = Some (map snd (perf_event_fields e)) \<and>
         binary_read CacheStat (c_struct 0 (cache_info_fields c) @ rest) = Some (map snd (cache_info_fields c))"
  using binary_read_no_padding perf_event_packed [OF assms(1-4)] cache_info_packed [OF assms(5,6)] by metis

theorem wire_events_decode_witness:
  "binary_read OffCpuEvent (c_struct 0 (perf_event_fields zero_perf) @ [1, 2]) = Some (map snd (perf_event_fields zero_perf)) \<and>
   binary_read CacheStat (c_struct 0 (cache_info_fields zero_info) @ [1, 2]) = Some (map snd (cache_info_fields zero_info))"
  by (rule wire_events_decode)
    (simp_all add: zero_perf_def zero_waker_def zero_target_def zero_info_def TASK_COMM_LEN_def CACHE_FILE_SIZE_def)

text \<open>The command name of a syscall event is read 4 bytes too early: the Go declaration of the
  system call number is 4 bytes short, so the name starts with the upper half of the number, which
  is zero, and loses its last 4 characters. The fields before it are read correctly.\<close>

theorem wire_syscall_comm_shifted:
  assumes "length (se_comm e) = 16" and "se_syscall_id e = ucast (n :: u32)"
  shows "binary_read SyscallEvent (c_struct 0 (syscall_event_fields e) @ rest) =
     Some [le_bytes 4 (se_pid e), le_bytes 4 (se_tid e), le_bytes 8 (ts_ns e), le_bytes 8 (dur_us e),
       le_bytes 8 (u_stack_id e), le_bytes 8 (k_stack_id e), le_bytes 4 n, replicate 4 0 @ take 12 (se_comm e)]"
  using assms
  by (simp add: SyscallEvent_def syscall_event_fields_def layout_simps le_bytes_widen)

theorem wire_syscall_comm_shifted_witness:
  "binary_read SyscallEvent (c_struct 0 (syscall_event_fields
     \<lparr>se_pid = 1, se_tid = 1, ts_ns = 0, dur_us = 10, u_stack_id = 0, k_stack_id = 0,
      se_syscall_id = ucast (202 :: u32), se_comm = replicate 16 65\<rparr>) @ []) =
     Some [le_bytes 4 (1 :: u32), le_bytes 4 (1 :: u32), le_bytes 8 (0 :: u64), le_bytes 8 (10 :: u64),
       le_bytes 8 (0 :: u64), le_bytes 8 (0 :: u64), le_bytes 4 (202 :: u32),
       replicate 4 0 @ take 12 (replicate 16 65)]"
  by (subst wire_syscall_comm_shifted [where n = 202]) simp_all

text \<open>The bytes that \<open>initArgsMap\<close> of futexsnoop stores, as the kernel reads them.\<close>

lemma read_futex_args_written:
  "read_futex_args (c_struct 0 (FutexSnoopArgs_fields a)) =
     \<lparr>targ_pid = Tid a, targ_tid = Pid a, targ_lock = TargetLock a, stack = Stack a,
      min_dur_ms = MinDurMs a, max_dur_ms = MaxDurMs a, max_lock_hold_users = MaxLockHoldUsers a\<rparr>"
proof -
  have "map (\<lambda>(a, bs). (a, length bs)) (FutexSnoopArgs_fields a) =
      [(4, 4), (4, 4), (8, 8), (1, 1), (4, 4), (4, 4), (4, 4)]"
    by (simp add: FutexSnoopArgs_fields_def field_defs)
  then have "c_read 0 [(4, 4), (4, 4), (8, 8), (1, 1), (4, 4), (4, 4), (4, 4)]
      (c_struct 0 (FutexSnoopArgs_fields a)) = map snd (FutexSnoopArgs_fields a)"
    using c_read_struct [of 0 "FutexSnoopArgs_fields a" "[]"] by simp
  then show ?thesis
    by (simp add: read_futex_args_def FutexSnoopArgs_fields_def field_defs of_le_bytes_le_bytes)
qed

text \<open>The bytes that \<open>initArgsMap\<close> of syscall stores, as the kernel reads them: every field arrives.\<close>

lemma read_syscall_args_written:
  "read_syscall_args (c_struct 0 (SyscallArgs_fields (syscall_initArgsMap a))) =
     \<lparr>ua_pid = sa_Pid a, ua_tid = sa_Tid a, min_syscall_ms = sa_MinDurMs a, max_syscall_ms = sa_MaxDurMs a,
      ua_stack = sa_Stack a, ua_syscall_id = sa_SyscallId a\<rparr>"
proof -
  have "map (\<lambda>(a, bs). (a, length bs)) (SyscallArgs_fields a) = [(4, 4), (4, 4), (4, 4), (4, 4), (1, 1), (4, 4)]"
    by (simp add: SyscallArgs_fields_def field_defs)
  then have "c_read 0 [(4, 4), (4, 4), (4, 4), (4, 4), (1, 1), (4, 4)] (c_struct 0 (SyscallArgs_fields a)) = map snd (SyscallArgs_fields a)"
    using c_read_struct [of 0 "SyscallArgs_fields a" "[]"] by simp
  then show ?thesis
    by (simp add: read_syscall_args_def syscall_initArgsMap_def SyscallArgs_fields_def field_defs of_le_bytes_le_bytes)
qed

text \<open>C34. futexsnoop's process filter is applied to threads: the Go struct has \<open>Tid\<close> where the kernel
  has \<open>targ_pid\<close>, so asking for process p alone makes \<open>futex_enter\<close> ignore every thread of every
  process but the one whose thread id is p. The other threads of p are never traced.\<close>

theorem wire_futex_pid_filters_tid:
  assumes "Tid a = 0" and "Pid a = p" and "p \<noteq> 0"
    and "array_lookup_elem (futex_state.args_map s) 0 =
           Some (read_futex_args (c_struct 0 (FutexSnoopArgs_fields (futex_initArgsMap a))))"
    and "tid_of (bpf_get_current_pid_tgid env) \<noteq> p"
  shows "futex_enter env ctx s = s"
  using assms by (simp add: futex_enter_def futex_filtered_def read_futex_args_written futex_initArgsMap_def Let_def)

theorem wire_futex_pid_filters_tid_witness:
  "futex_enter (Futexsnoop.sample_env 8 1000) [64, 128]
     (futex_init (read_futex_args (c_struct 0 (FutexSnoopArgs_fields (futex_initArgsMap
        \<lparr>Tid = 0, Pid = 7, TargetLock = 0, Stack = True, MinDurMs = 1, MaxDurMs = 2, MaxLockHoldUsers = 3\<rparr>))))) =
   futex_init (read_futex_args (c_struct 0 (FutexSnoopArgs_fields (futex_initArgsMap
        \<lparr>Tid = 0, Pid = 7, TargetLock = 0, Stack = True, MinDurMs = 1, MaxDurMs = 2, MaxLockHoldUsers = 3\<rparr>))))"
  by (rule wire_futex_pid_filters_tid [where p = 7 and a = "\<lparr>Tid = 0, Pid = 7, TargetLock = 0, Stack = True,
        MinDurMs = 1, MaxDurMs = 2, MaxLockHoldUsers = 3\<rparr>"])
    (simp_all add: futex_init_def Futexsnoop.sample_env_def array_lookup_elem_def)

end
