(* ===== verification/Bpf_Endian.thy ===== *)
theory Bpf_Endian
  imports Prelude
begin

text \<open>
  The byte order conversions of \<open>bpf_endian.h\<close> (the same file stands under \<open>headers/\<close> and
  \<open>headers/bpf/\<close>): the macros that move one byte, the byte swaps built from them, and the
  conversions for both byte orders and for constant and run-time operands. The lemmas show that
  a swap reverses the bytes, and that a converted integer lies in memory in network order.
\<close>

section \<open>Moving a byte\<close>

text \<open>
  \<open>___bpf_mvb(x, b, n, m)\<close>. For 32 and 64 bits the shifts work at the width of the operand; a
  16-bit operand is promoted to \<open>int\<close> first, so the shifts work on 32 bits.
\<close>

definition bpf_mvb :: "nat \<Rightarrow> nat \<Rightarrow> nat \<Rightarrow> 'a::len word \<Rightarrow> 'a word" where
  "bpf_mvb b n m x = push_bit (m * 8) (drop_bit (b - 8) (push_bit (b - (n + 1) * 8) x))"

definition bpf_swab16 :: "u16 \<Rightarrow> u16" where
  "bpf_swab16 x = ucast (bpf_mvb 16 0 1 (ucast x :: u32) OR bpf_mvb 16 1 0 (ucast x :: u32))"

definition bpf_swab32 :: "u32 \<Rightarrow> u32" where
  "bpf_swab32 x = bpf_mvb 32 0 3 x OR bpf_mvb 32 1 2 x OR bpf_mvb 32 2 1 x OR bpf_mvb 32 3 0 x"

definition bpf_swab64 :: "u64 \<Rightarrow> u64" where
  "bpf_swab64 x = bpf_mvb 64 0 7 x OR bpf_mvb 64 1 6 x OR bpf_mvb 64 2 5 x OR bpf_mvb 64 3 4 x
     OR bpf_mvb 64 4 3 x OR bpf_mvb 64 5 2 x OR bpf_mvb 64 6 1 x OR bpf_mvb 64 7 0 x"

text \<open>The compiler's \<open>__builtin_bswapN\<close>: the bytes in reverse order.\<close>

definition builtin_bswap :: "nat \<Rightarrow> 'a::len word \<Rightarrow> 'a word" where
  "builtin_bswap n x = of_le_bytes (rev (le_bytes n x))"

section \<open>Conversions\<close>

definition bpf_htons :: "byte_order \<Rightarrow> bool \<Rightarrow> u16 \<Rightarrow> u16" where
  "bpf_htons order const x = (case order of
     Little \<Rightarrow> if const then bpf_swab16 x else builtin_bswap 2 x | Big \<Rightarrow> x)"

definition bpf_ntohs :: "byte_order \<Rightarrow> bool \<Rightarrow> u16 \<Rightarrow> u16" where
  "bpf_ntohs order const x = (case order of
     Little \<Rightarrow> if const then bpf_swab16 x else builtin_bswap 2 x | Big \<Rightarrow> x)"

definition bpf_htonl :: "byte_order \<Rightarrow> bool \<Rightarrow> u32 \<Rightarrow> u32" where
  "bpf_htonl order const x = (case order of
     Little \<Rightarrow> if const then bpf_swab32 x else builtin_bswap 4 x | Big \<Rightarrow> x)"

definition bpf_ntohl :: "byte_order \<Rightarrow> bool \<Rightarrow> u32 \<Rightarrow> u32" where
  "bpf_ntohl order const x = (case order of
     Little \<Rightarrow> if const then bpf_swab32 x else builtin_bswap 4 x | Big \<Rightarrow> x)"

definition bpf_cpu_to_be64 :: "byte_order \<Rightarrow> bool \<Rightarrow> u64 \<Rightarrow> u64" where
  "bpf_cpu_to_be64 order const x = (case order of
     Little \<Rightarrow> if const then bpf_swab64 x else builtin_bswap 8 x | Big \<Rightarrow> x)"

definition bpf_be64_to_cpu :: "byte_order \<Rightarrow> bool \<Rightarrow> u64 \<Rightarrow> u64" where
  "bpf_be64_to_cpu order const x = (case order of
     Little \<Rightarrow> if const then bpf_swab64 x else builtin_bswap 8 x | Big \<Rightarrow> x)"

lemmas endian_defs = bpf_htons_def bpf_ntohs_def bpf_htonl_def bpf_ntohl_def bpf_cpu_to_be64_def
  bpf_be64_to_cpu_def

section \<open>Swaps reverse the bytes\<close>

lemma bit_builtin_bswap:
  fixes x :: "'a::len word"
  assumes "LENGTH('a) = 8 * n"
  shows "bit (builtin_bswap n x) i \<longleftrightarrow> i < LENGTH('a) \<and> bit x (8 * (n - Suc (i div 8)) + i mod 8)"
proof (cases "i < LENGTH('a)")
  case True
  with assms have "i div 8 < n" by (simp add: div_less_iff_less_mult mult.commute)
  with True show ?thesis by (simp add: builtin_bswap_def bit_of_le_bytes rev_nth bit_simps)
next
  case False
  then show ?thesis by (auto simp: builtin_bswap_def bit_of_le_bytes)
qed

lemma le_bytes_bswap:
  fixes x :: "'a::len word"
  assumes "LENGTH('a) = 8 * n"
  shows "le_bytes n (builtin_bswap n x) = rev (le_bytes n x)"
  using le_bytes_of_le_bytes [of "rev (le_bytes n x)", where 'a = 'a] assms
  by (simp add: builtin_bswap_def)

lemma bswap_involution:
  fixes x :: "'a::len word"
  assumes "LENGTH('a) = 8 * n"
  shows "builtin_bswap n (builtin_bswap n x) = x"
  using le_bytes_bswap [OF assms, of x] of_le_bytes_le_bytes [of n x] assms
  by (simp add: builtin_bswap_def)

text \<open>A word is determined by its bits; the bits are few enough to be checked one by one.\<close>

lemma word_eq_upt:
  fixes x y :: "'a::len word"
  assumes "list_all (\<lambda>i. bit x i = bit y i) [0..<LENGTH('a)]"
  shows "x = y"
  using assms by (intro bit_word_eqI) (simp add: list_all_iff)

lemma high_bit: "LENGTH('a) \<le> n \<Longrightarrow> bit (w :: 'a::len word) n = False"
  by (auto dest: bit_imp_le_length)

lemma swab16_bswap: "bpf_swab16 x = builtin_bswap 2 x"
  by (rule word_eq_upt) (simp add: upt_rec bit_builtin_bswap bpf_swab16_def bpf_mvb_def bit_simps high_bit
      One_nat_def [symmetric] del: One_nat_def)

lemma swab32_bswap: "bpf_swab32 x = builtin_bswap 4 x"
  by (rule word_eq_upt) (simp add: upt_rec bit_builtin_bswap bpf_swab32_def bpf_mvb_def bit_simps high_bit
      One_nat_def [symmetric] del: One_nat_def)

lemma swab64_bswap: "bpf_swab64 x = builtin_bswap 8 x"
  by (rule word_eq_upt) (simp add: upt_rec bit_builtin_bswap bpf_swab64_def bpf_mvb_def bit_simps high_bit
      One_nat_def [symmetric] del: One_nat_def)

section \<open>Properties\<close>

text \<open>A converted integer lies in memory in network order, most significant byte first, on machines of
  either byte order and whether or not the operand is a compile-time constant.\<close>

theorem endian_network_order:
  "store_bytes order 2 (bpf_htons order const x) = rev (le_bytes 2 x) \<and>
   store_bytes order 4 (bpf_htonl order const y) = rev (le_bytes 4 y) \<and>
   store_bytes order 8 (bpf_cpu_to_be64 order const z) = rev (le_bytes 8 z)"
  by (cases order)
    (simp_all add: store_bytes_def endian_defs swab16_bswap swab32_bswap swab64_bswap le_bytes_bswap)

text \<open>Converting to network order and back is the identity, also when one direction is folded at compile
  time and the other runs.\<close>

theorem endian_round_trip:
  "bpf_ntohs order c (bpf_htons order c' x) = x \<and> bpf_ntohl order c (bpf_htonl order c' y) = y \<and>
   bpf_be64_to_cpu order c (bpf_cpu_to_be64 order c' z) = z"
  by (cases order)
    (simp_all add: endian_defs swab16_bswap swab32_bswap swab64_bswap bswap_involution)

end
