(* ===== verification/Bpf_Helpers.thy ===== *)
theory Bpf_Helpers
  imports Prelude
begin

text \<open>
  The macros of \<open>bpf_helpers.h\<close>: kernel version numbers, \<open>container_of\<close>, the printing macros that
  gather their arguments into an array, and the three loop macros over an open-coded iterator. The
  iterator is kernel code and an argument here; what a loop relies on is that it ends.
\<close>

section \<open>Small macros\<close>

definition KERNEL_VERSION :: "u32 \<Rightarrow> u32 \<Rightarrow> u32 \<Rightarrow> u32" where
  "KERNEL_VERSION a b c = push_bit 16 a + push_bit 8 b + (if sint c > 255 then 255 else c)"

text \<open>A member's address and the object's, by the member's offset.\<close>

definition container_of :: "u64 \<Rightarrow> u64 \<Rightarrow> u64" where
  "container_of ptr offset = ptr - offset"

section \<open>Arguments in an array\<close>

text \<open>
  \<open>___bpf_nth\<close> returns its fourteenth argument; \<open>___bpf_narg\<close> prefixes a placeholder and appends
  the numbers from twelve down to zero. The macros are used with at most twelve arguments.
\<close>

definition bpf_nth :: "'a list \<Rightarrow> 'a" where
  "bpf_nth xs = xs ! 13"

definition bpf_narg :: "'a list \<Rightarrow> nat" where
  "bpf_narg args = bpf_nth (0 # map (\<lambda>_. 0) args @ [12, 11, 10, 9, 8, 7, 6, 5, 4, 3, 2, 1, 0])"

text \<open>\<open>___bpf_fill0\<close> to \<open>___bpf_fill12\<close>: store the first argument and go on with the rest.\<close>

fun bpf_fill_n :: "nat \<Rightarrow> u64 list \<Rightarrow> nat \<Rightarrow> u64 list \<Rightarrow> u64 list" where
  "bpf_fill_n 0 arr p args = arr"
| "bpf_fill_n (Suc n) arr p args = bpf_fill_n n (arr[p := hd args]) (p + 1) (tl args)"

definition bpf_fill :: "u64 list \<Rightarrow> u64 list \<Rightarrow> u64 list" where
  "bpf_fill arr args = bpf_fill_n (bpf_narg args) arr 0 args"

text \<open>The helper calls of the printing macros: format with its size, parameters, their size in bytes.
  The parameter array is uninitialised, so its old contents are an argument.\<close>

datatype print_call =
    Trace_printk string nat "u64 list"
  | Trace_vprintk string nat "u64 list" nat
  | Seq_printf u64 string nat "u64 list" nat
  | Snprintf u64 u32 string "u64 list" nat

definition fmt_size :: "string \<Rightarrow> nat" where
  "fmt_size fmt = length fmt + 1"

definition BPF_SEQ_PRINTF :: "u64 list \<Rightarrow> u64 \<Rightarrow> string \<Rightarrow> u64 list \<Rightarrow> print_call" where
  "BPF_SEQ_PRINTF stale seq fmt args =
     (let param = bpf_fill (take (bpf_narg args) stale) args
      in Seq_printf seq fmt (fmt_size fmt) param (8 * bpf_narg args))"

definition BPF_SNPRINTF :: "u64 list \<Rightarrow> u64 \<Rightarrow> u32 \<Rightarrow> string \<Rightarrow> u64 list \<Rightarrow> print_call" where
  "BPF_SNPRINTF stale out out_size fmt args =
     (let param = bpf_fill (take (bpf_narg args) stale) args
      in Snprintf out out_size fmt param (8 * bpf_narg args))"

definition bpf_printk_direct :: "string \<Rightarrow> u64 list \<Rightarrow> print_call" where
  "bpf_printk_direct fmt args = Trace_printk fmt (fmt_size fmt) args"

definition bpf_vprintk :: "u64 list \<Rightarrow> string \<Rightarrow> u64 list \<Rightarrow> print_call" where
  "bpf_vprintk stale fmt args =
     (let param = bpf_fill (take (bpf_narg args) stale) args
      in Trace_vprintk fmt (fmt_size fmt) param (8 * bpf_narg args))"

text \<open>\<open>___bpf_pick_printk\<close>: the macro name at the position of the argument count.\<close>

datatype printk_macro = Vprintk | Printk

definition bpf_pick_printk :: "'a list \<Rightarrow> printk_macro" where
  "bpf_pick_printk args = bpf_nth (Vprintk # map (\<lambda>_. Vprintk) args @ replicate 9 Vprintk @ replicate 4 Printk)"

definition bpf_printk :: "u64 list \<Rightarrow> string \<Rightarrow> u64 list \<Rightarrow> print_call" where
  "bpf_printk stale fmt args =
     (case bpf_pick_printk args of
        Printk \<Rightarrow> bpf_printk_direct fmt args
      | Vprintk \<Rightarrow> bpf_vprintk stale fmt args)"

section \<open>Loops over an iterator\<close>

text \<open>
  The loop body gets the element and the program's state and says whether it leaves the loop. The
  destructor runs when the iterator's scope ends, whichever way the loop is left. A loop whose
  iterator never ends has no value.
\<close>

partial_function (option) bpf_for_each_loop ::
    "('it \<Rightarrow> 'e option \<times> 'it) \<Rightarrow> ('e \<Rightarrow> 's \<Rightarrow> bool \<times> 's) \<Rightarrow> 'it \<Rightarrow> 's \<Rightarrow> ('it \<times> 's) option" where
  "bpf_for_each_loop nxt body it s =
     (case nxt it of
        (None, it') \<Rightarrow> Some (it', s)
      | (Some cur, it') \<Rightarrow>
          (case body cur s of
             (brk, s') \<Rightarrow> if brk then Some (it', s') else bpf_for_each_loop nxt body it' s'))"

definition bpf_for_each ::
    "('it \<Rightarrow> 'e option \<times> 'it) \<Rightarrow> ('it \<Rightarrow> 'k \<Rightarrow> 'k) \<Rightarrow> 'it \<Rightarrow> ('e \<Rightarrow> 's \<Rightarrow> bool \<times> 's) \<Rightarrow> 's \<Rightarrow> 'k \<Rightarrow> ('s \<times> 'k) option" where
  "bpf_for_each nxt destroy new body s k =
     map_option (\<lambda>(it, s). (s, destroy it k)) (bpf_for_each_loop nxt body new s)"

text \<open>\<open>bpf_for\<close> assigns the variable first and then checks the bounds, so after the loop it holds the
  element that ended it.\<close>

partial_function (option) bpf_for_loop ::
    "('it \<Rightarrow> int option \<times> 'it) \<Rightarrow> int \<Rightarrow> int \<Rightarrow> (int \<Rightarrow> 's \<Rightarrow> bool \<times> 's) \<Rightarrow> int \<Rightarrow> 'it \<Rightarrow> 's \<Rightarrow>
       (int \<times> 'it \<times> 's) option" where
  "bpf_for_loop nxt first lim body i it s =
     (case nxt it of
        (None, it') \<Rightarrow> Some (i, it', s)
      | (Some t, it') \<Rightarrow>
          if first \<le> t \<and> t < lim
          then (case body t s of
                  (brk, s') \<Rightarrow> if brk then Some (t, it', s') else bpf_for_loop nxt first lim body t it' s')
          else Some (t, it', s))"

definition bpf_for ::
    "('it \<Rightarrow> int option \<times> 'it) \<Rightarrow> ('it \<Rightarrow> 'k \<Rightarrow> 'k) \<Rightarrow> (int \<Rightarrow> int \<Rightarrow> 'it) \<Rightarrow> int \<Rightarrow> int \<Rightarrow>
       (int \<Rightarrow> 's \<Rightarrow> bool \<times> 's) \<Rightarrow> int \<Rightarrow> 's \<Rightarrow> 'k \<Rightarrow> (int \<times> 's \<times> 'k) option" where
  "bpf_for nxt destroy new first lim body i s k =
     map_option (\<lambda>(i, it, s). (i, s, destroy it k)) (bpf_for_loop nxt first lim body i (new first lim) s)"

definition bpf_repeat ::
    "('it \<Rightarrow> int option \<times> 'it) \<Rightarrow> ('it \<Rightarrow> 'k \<Rightarrow> 'k) \<Rightarrow> (int \<Rightarrow> int \<Rightarrow> 'it) \<Rightarrow> int \<Rightarrow>
       ('s \<Rightarrow> bool \<times> 's) \<Rightarrow> 's \<Rightarrow> 'k \<Rightarrow> ('s \<times> 'k) option" where
  "bpf_repeat nxt destroy new n body s k = bpf_for_each nxt destroy (new 0 n) (\<lambda>_. body) s k"

section \<open>Lemmas\<close>

lemma bpf_narg_length: "length args \<le> 12 \<Longrightarrow> bpf_narg args = length args"
  by (auto simp: bpf_narg_def bpf_nth_def nth_append nth_Cons' le_Suc_eq numeral_eq_Suc)

lemma bpf_pick_printk_eq: "length args \<le> 12 \<Longrightarrow> bpf_pick_printk args = (if length args \<le> 3 then Printk else Vprintk)"
  by (auto simp: bpf_pick_printk_def bpf_nth_def nth_append nth_Cons' nth_replicate)

lemma bpf_fill_n_eq:
  assumes "length args = n" and "p + n \<le> length arr"
  shows "bpf_fill_n n arr p args = take p arr @ args @ drop (p + n) arr"
  using assms
proof (induction n arbitrary: arr p args)
  case 0
  then show ?case by simp
next
  case (Suc n)
  then obtain x xs where args: "args = x # xs" "length xs = n" by (cases args) auto
  show ?case
    using Suc.IH [of xs "p + 1" "arr[p := x]"] Suc.prems args
    by (simp add: take_Suc_conv_app_nth)
qed

lemma bpf_fill_eq:
  assumes "length args \<le> 12" and "length arr = length args"
  shows "bpf_fill arr args = args"
  using assms bpf_fill_n_eq [of args "length args" 0 arr] by (simp add: bpf_fill_def bpf_narg_length)

text \<open>The elements an iterator yields before it ends.\<close>

primrec iter_yields :: "('it \<Rightarrow> 'e option \<times> 'it) \<Rightarrow> 'it \<Rightarrow> 'e list \<Rightarrow> bool" where
  "iter_yields nxt it [] \<longleftrightarrow> fst (nxt it) = None"
| "iter_yields nxt it (x # xs) \<longleftrightarrow> fst (nxt it) = Some x \<and> iter_yields nxt (snd (nxt it)) xs"

text \<open>A loop over a list that a body may leave: how many elements it takes and the state after it.\<close>

fun fold_until :: "('e \<Rightarrow> 's \<Rightarrow> bool \<times> 's) \<Rightarrow> 'e list \<Rightarrow> 's \<Rightarrow> nat \<times> 's" where
  "fold_until body [] s = (0, s)"
| "fold_until body (x # xs) s =
     (let (brk, s') = body x s
      in if brk then (1, s') else let (n, s'') = fold_until body xs s' in (Suc n, s''))"

lemma fold_until_le: "fst (fold_until body xs s) \<le> length xs"
  by (induction body xs s rule: fold_until.induct) (auto simp: Let_def split: prod.split)

lemma bpf_for_each_loop_yields:
  assumes "iter_yields nxt it xs"
  shows "\<exists>it'. bpf_for_each_loop nxt body it s = Some (it', snd (fold_until body xs s))"
  using assms
proof (induction xs arbitrary: it s)
  case Nil
  then show ?case by (subst bpf_for_each_loop.simps) (auto split: prod.split)
next
  case (Cons x xs)
  obtain brk s' where body: "body x s = (brk, s')" by fastforce
  obtain it1 where nx: "nxt it = (Some x, it1)" "iter_yields nxt it1 xs"
    using Cons.prems by (cases "nxt it") auto
  from Cons.IH [OF nx(2), of s'] show ?case
    by (subst bpf_for_each_loop.simps) (auto simp: body nx split: prod.split)
qed

text \<open>Numbers that an iterator gives, with anything after them; the iterator after some calls; and whether a body leaves a loop
  over a list.\<close>

primrec iter_gives :: "('it \<Rightarrow> 'e option \<times> 'it) \<Rightarrow> 'it \<Rightarrow> 'e list \<Rightarrow> bool" where
  "iter_gives nxt it [] \<longleftrightarrow> True"
| "iter_gives nxt it (x # xs) \<longleftrightarrow> fst (nxt it) = Some x \<and> iter_gives nxt (snd (nxt it)) xs"

primrec after_calls :: "('it \<Rightarrow> 'e option \<times> 'it) \<Rightarrow> nat \<Rightarrow> 'it \<Rightarrow> 'it" where
  "after_calls nxt 0 it = it"
| "after_calls nxt (Suc n) it = after_calls nxt n (snd (nxt it))"

fun leaves :: "('e \<Rightarrow> 's \<Rightarrow> bool \<times> 's) \<Rightarrow> 'e list \<Rightarrow> 's \<Rightarrow> bool" where
  "leaves body [] s \<longleftrightarrow> False"
| "leaves body (x # xs) s \<longleftrightarrow> fst (body x s) \<or> leaves body xs (snd (body x s))"

lemma fold_until_all: "\<not> leaves body xs s \<Longrightarrow> fst (fold_until body xs s) = length xs"
  by (induction body xs s rule: fold_until.induct) (auto simp: Let_def split: prod.splits)

lemma bpf_for_loop_gives:
  assumes "iter_gives nxt it xs" and "ys = takeWhile (\<lambda>x. first \<le> x \<and> x < lim) xs"
    and "leaves body ys s \<or> ys \<noteq> xs \<or> fst (nxt (after_calls nxt (length xs) it)) = None"
  shows "bpf_for_loop nxt first lim body i it s =
    Some (if leaves body ys s then ys ! (fst (fold_until body ys s) - 1) else if ys \<noteq> xs then xs ! length ys else if xs = [] then i else last xs,
      after_calls nxt (if leaves body ys s then fst (fold_until body ys s) else Suc (length ys)) it, snd (fold_until body ys s))"
  using assms
proof (induction xs arbitrary: it s i ys)
  case Nil
  then show ?case by (subst bpf_for_loop.simps) (auto split: prod.split)
next
  case (Cons x xs)
  obtain it1 where nx: "nxt it = (Some x, it1)" "iter_gives nxt it1 xs"
    using Cons.prems(1) by (cases "nxt it") auto
  show ?case
  proof (cases "first \<le> x \<and> x < lim")
    case False
    then have "ys = []" using Cons.prems(2) by auto
    then show ?thesis using False by (subst bpf_for_loop.simps) (auto simp: nx)
  next
    case True
    define zs where "zs = takeWhile (\<lambda>x. first \<le> x \<and> x < lim) xs"
    have ys: "ys = x # zs" using True Cons.prems(2) by (simp add: zs_def)
    obtain brk s' where body: "body x s = (brk, s')" by fastforce
    show ?thesis
    proof (cases brk)
      case True
      then show ?thesis using body \<open>first \<le> x \<and> x < lim\<close> by (subst bpf_for_loop.simps) (simp add: nx ys)
    next
      case False
      have stop: "leaves body zs s' \<or> zs \<noteq> xs \<or> fst (nxt (after_calls nxt (length xs) it1)) = None"
        using Cons.prems(3) False body by (auto simp: ys nx)
      obtain n r where f: "fold_until body zs s' = (n, r)" by fastforce
      have pos: "n \<noteq> 0" if "leaves body zs s'"
        using f that by (cases zs) (auto simp: Let_def split: prod.splits if_splits)
      have len: "n = length zs" if "\<not> leaves body zs s'" using fold_until_all [OF that] f by simp
      from Cons.IH [OF nx(2) zs_def stop, of x] True False body f pos len show ?thesis
        by (subst bpf_for_loop.simps) (auto simp: nx ys Let_def nth_Cons')
    qed
  qed
qed

lemma bpf_for_loop_body:
  assumes "bpf_for_loop nxt first lim body i it s = Some r"
    and "\<forall>t s. first \<le> t \<and> t < lim \<longrightarrow> body' t s = body t s"
  shows "bpf_for_loop nxt first lim body' i it s = Some r"
proof -
  have "\<forall>body'. (\<forall>t s. first \<le> t \<and> t < lim \<longrightarrow> body' t s = body t s) \<longrightarrow>
      bpf_for_loop nxt first lim body' i it s = Some r"
  proof (rule bpf_for_loop.raw_induct [OF _ assms(1), where P = "\<lambda>nxt first lim body i it s r.
        \<forall>body'. (\<forall>t s. first \<le> t \<and> t < lim \<longrightarrow> body' t s = body t s) \<longrightarrow>
          bpf_for_loop nxt first lim body' i it s = Some r"], intro allI impI, goal_cases)
    case (1 loop nxt first lim body i it s r body')
    show ?case
      by (subst bpf_for_loop.simps, cases r rule: prod_cases3)
        (use 1 in \<open>auto split: prod.splits option.splits if_splits\<close>)
  qed
  with assms(2) show ?thesis by blast
qed

lemma bpf_for_loop_cong:
  assumes "\<forall>t s. first \<le> t \<and> t < lim \<longrightarrow> body' t s = body t s"
  shows "bpf_for_loop nxt first lim body' i it s = bpf_for_loop nxt first lim body i it s"
proof -
  have "bpf_for_loop nxt first lim body' i it s = Some r \<longleftrightarrow> bpf_for_loop nxt first lim body i it s = Some r" for r
    using bpf_for_loop_body [of nxt first lim body i it s r body']
      bpf_for_loop_body [of nxt first lim body' i it s r body] assms by auto
  then show ?thesis by (metis not_None_eq)
qed

text \<open>Below the limits of its fields a version number is its three parts, the last one cut at 255, so
  comparing numbers compares versions.\<close>

lemma KERNEL_VERSION_value:
  assumes "unat a < 2 ^ 15" and "unat b < 256" and "unat c < 2 ^ 31"
  shows "unat (KERNEL_VERSION a b c) = unat a * 2 ^ 16 + unat b * 2 ^ 8 + min (unat c) 255"
proof -
  have sc: "sint c = int (unat c)" using assms(3) by (intro sint_small) (simp add: word_less_nat_alt)
  let ?c = "if sint c > 255 then 255 else c"
  have "255 < sint c \<longleftrightarrow> 255 < unat c" unfolding sc by linarith
  then have c: "unat ?c = min (unat c) 255" by simp
  have a: "unat (push_bit 16 a) = unat a * 2 ^ 16" and b: "unat (push_bit 8 b) = unat b * 2 ^ 8"
    using assms by (simp_all add: push_bit_eq_mult unat_word_ariths)
  then have ab: "unat (push_bit 16 a + push_bit 8 b) = unat a * 2 ^ 16 + unat b * 2 ^ 8"
    using assms by (simp add: unat_word_ariths)
  show ?thesis
    unfolding KERNEL_VERSION_def using assms c ab by (simp add: unat_word_ariths(1) del: unat_eq_zero)
qed

lemma KERNEL_VERSION_less:
  assumes "unat a < 2 ^ 15" "unat b < 256" "unat c < 256" "unat a' < 2 ^ 15" "unat b' < 256" "unat c' < 256"
  shows "KERNEL_VERSION a b c < KERNEL_VERSION a' b' c' \<longleftrightarrow>
    a < a' \<or> a = a' \<and> (b < b' \<or> b = b' \<and> c < c')"
  using assms KERNEL_VERSION_value [of a b c] KERNEL_VERSION_value [of a' b' c']
  by (simp add: word_less_nat_alt word_unat_eq_iff) linarith

lemma container_of_member: "container_of (obj + offset) offset = obj"
  by (simp add: container_of_def)

section \<open>Properties\<close>

text \<open>An iterator over a list of numbers, for the instances below.\<close>

fun list_next :: "int list \<Rightarrow> int option \<times> int list" where
  "list_next [] = (None, [])"
| "list_next (x # xs) = (Some x, xs)"

text \<open>C38. \<open>bpf_for\<close> checks the bounds itself, whatever iterator it is given. Let an iterator give any numbers: the body runs, in
  order, exactly on those before the first one outside \<open>[first, lim)\<close>, until it leaves the loop. The loop ends when the body leaves
  it, at the first number outside, or when the iterator has no more; the loop variable then holds the last number that was fetched, and
  the destructor gets the iterator after exactly the calls that were made: one per run of the body, and one more when the body did
  not leave.\<close>

theorem bpf_for_visits_range:
  assumes "iter_gives nxt (new first lim) xs" and "ys = takeWhile (\<lambda>x. first \<le> x \<and> x < lim) xs"
    and "leaves body ys s \<or> ys \<noteq> xs \<or> fst (nxt (after_calls nxt (length xs) (new first lim))) = None"
    and "fold_until body ys s = (n, s')"
  shows "bpf_for nxt destroy new first lim body i s k =
    Some (if leaves body ys s then ys ! (n - 1) else if ys \<noteq> xs then xs ! length ys else if xs = [] then i else last xs,
      s', destroy (after_calls nxt (if leaves body ys s then n else Suc n) (new first lim)) k)"
  using bpf_for_loop_gives [OF assms(1-3), of i] assms(4) fold_until_all [of body ys s] by (simp add: bpf_for_def)

text \<open>An iterator that wrongly gives 9 inside a loop from 2 to 5: the body runs on 2 and 3 and the loop ends.\<close>

theorem bpf_for_visits_range_witness:
  "bpf_for list_next (\<lambda>it k. it) (\<lambda>a b. [2, 3, 9, 4]) 2 5 (\<lambda>i s. (False, s + i)) 0 0 [] = Some (9, 5, [4])"
proof -
  let ?b = "\<lambda>i s. (False, s + i :: int)"
  have g: "iter_gives list_next [2, 3, 9, 4 :: int] [2, 3, 9, 4]" by simp
  have t: "[2, 3] = takeWhile (\<lambda>x. 2 \<le> x \<and> x < 5) [2, 3, 9, 4 :: int]" by simp
  have f: "fold_until ?b [2, 3] 0 = (2, 5)" by simp
  have l: "leaves ?b [2, 3] 0 \<or> [2, 3] \<noteq> [2, 3, 9, 4 :: int] \<or> P" for P by simp
  show ?thesis
    using bpf_for_visits_range [where new = "\<lambda>a b. [2, 3, 9, 4]" and destroy = "\<lambda>it k. it" and i = 0 and k = "[]", OF g t l f]
    by (simp add: numeral_3_eq_3)
qed

text \<open>Whatever the iterator yields, \<open>bpf_for\<close> runs its body inside the bounds only: two bodies that
  agree on \<open>[first, lim)\<close> make no difference, also to whether the loop ends.\<close>

theorem bpf_for_in_bounds:
  assumes "\<forall>t s. first \<le> t \<and> t < lim \<longrightarrow> body' t s = body t s"
  shows "bpf_for nxt destroy new first lim body' i s k = bpf_for nxt destroy new first lim body i s k"
  by (simp add: bpf_for_def bpf_for_loop_cong [OF assms])

theorem bpf_for_in_bounds_witness:
  "bpf_for list_next (\<lambda>_ k. Suc k) (\<lambda>a b. [7, 1]) 0 4 (\<lambda>i s. (False, if i < 4 then s else undefined)) 0 0 0 =
   bpf_for list_next (\<lambda>_ k. Suc k) (\<lambda>a b. [7, 1]) 0 4 (\<lambda>i s. (False, s :: int)) 0 0 0"
  by (rule bpf_for_in_bounds) simp

text \<open>The printing macros hand every argument to the helper: up to three directly, four to twelve in
  an array of exactly their number, whatever the array held before.\<close>

theorem bpf_printk_passes_args:
  assumes "length args \<le> 12" and "length args \<le> length stale"
  shows "bpf_printk stale fmt args = (if length args \<le> 3 then Trace_printk fmt (length fmt + 1) args
      else Trace_vprintk fmt (length fmt + 1) args (8 * length args)) \<and>
    BPF_SEQ_PRINTF stale seq fmt args = Seq_printf seq fmt (length fmt + 1) args (8 * length args) \<and>
    BPF_SNPRINTF stale out sz fmt args = Snprintf out sz fmt args (8 * length args)"
  using assms
  by (simp add: bpf_printk_def bpf_pick_printk_eq bpf_printk_direct_def bpf_vprintk_def BPF_SEQ_PRINTF_def
      BPF_SNPRINTF_def fmt_size_def Let_def bpf_narg_length bpf_fill_eq)

theorem bpf_printk_passes_args_witness:
  "bpf_printk [9, 9, 9, 9] ''%d'' [1, 2, 3, 4] = Trace_vprintk ''%d'' 3 [1, 2, 3, 4] 32"
  using bpf_printk_passes_args [of "[1, 2, 3, 4]" "[9, 9, 9, 9]" "''%d''" 0 0 0] by simp

end
