(* ===== verification/Core_Read_Into.thy ===== *)
theory Core_Read_Into
  imports Core_Read Bpf_Helpers
begin

text \<open>
  The rest of \<open>bpf_core_read.h\<close>: the reads into storage of the caller, from kernel or user memory, of
  values or strings, with the offsets of the running kernel or the compiled ones, and the queries
  that the loader answers. A refused read of an inner pointer is not reported by the macros: they go on
  with what the pointer variable then holds and return the result of the last read only. That a
  fault is reported all the same rests on refused reads leaving zeros and on an unmapped zero page.
\<close>

section \<open>Helpers\<close>

text \<open>Both memories, the byte order, and what a refused read leaves in its destination, by size.\<close>

record machine =
  kspace :: memory
  uspace :: memory
  m_order :: byte_order
  unread :: "nat \<Rightarrow> bytes"

definition bpf_probe_read_user :: "memory \<Rightarrow> nat \<Rightarrow> u64 \<Rightarrow> int \<times> bytes option" where
  "bpf_probe_read_user mem n a =
     (case mem_bytes mem n a of Some bs \<Rightarrow> (0, Some bs) | None \<Rightarrow> (- EFAULT, None))"

text \<open>A string of at most \<open>n\<close> bytes: copied up to its NUL, or cut and terminated in the last byte.\<close>

fun mem_string :: "memory \<Rightarrow> nat \<Rightarrow> u64 \<Rightarrow> bytes option" where
  "mem_string mem 0 a = Some []"
| "mem_string mem (Suc n) a =
     (case mem a of
        None \<Rightarrow> None
      | Some b \<Rightarrow> if b = 0 \<or> n = 0 then Some [0] else map_option ((#) b) (mem_string mem n (a + 1)))"

definition bpf_probe_read_user_str :: "memory \<Rightarrow> nat \<Rightarrow> u64 \<Rightarrow> int \<times> bytes option" where
  "bpf_probe_read_user_str mem n a =
     (case mem_string mem n a of Some bs \<Rightarrow> (int (length bs), Some bs) | None \<Rightarrow> (- EFAULT, None))"

definition bpf_probe_read_kernel_str :: "memory \<Rightarrow> nat \<Rightarrow> u64 \<Rightarrow> int \<times> bytes option" where
  "bpf_probe_read_kernel_str mem n a =
     (case mem_string mem n a of Some bs \<Rightarrow> (int (length bs), Some bs) | None \<Rightarrow> (- EFAULT, None))"

text \<open>The wrappers with a relocation, whose effect is on the offset that is added to the source.\<close>

definition bpf_core_read :: "memory \<Rightarrow> nat \<Rightarrow> u64 \<Rightarrow> int \<times> bytes option" where
  "bpf_core_read mem sz src = bpf_probe_read_kernel mem sz src"

definition bpf_core_read_user :: "memory \<Rightarrow> nat \<Rightarrow> u64 \<Rightarrow> int \<times> bytes option" where
  "bpf_core_read_user mem sz src = bpf_probe_read_user mem sz src"

definition bpf_core_read_str :: "memory \<Rightarrow> nat \<Rightarrow> u64 \<Rightarrow> int \<times> bytes option" where
  "bpf_core_read_str mem sz src = bpf_probe_read_kernel_str mem sz src"

definition bpf_core_read_user_str :: "memory \<Rightarrow> nat \<Rightarrow> u64 \<Rightarrow> int \<times> bytes option" where
  "bpf_core_read_user_str mem sz src = bpf_probe_read_user_str mem sz src"

section \<open>Reads into storage\<close>

type_synonym reader = "nat \<Rightarrow> u64 \<Rightarrow> int \<times> bytes option"

text \<open>A destination after a read.\<close>

definition dst_after :: "machine \<Rightarrow> nat \<Rightarrow> int \<times> bytes option \<Rightarrow> bytes" where
  "dst_after m n r = (case snd r of Some bs \<Rightarrow> bs | None \<Rightarrow> unread m n)"

text \<open>An inner pointer: the result of the read is dropped and the pointer variable used as it is.\<close>

definition into_ptr :: "machine \<Rightarrow> reader \<Rightarrow> ptr_reader" where
  "into_ptr m fn t off = Some (load_bytes (m_order m) (dst_after m 8 (fn 8 (t + off))))"

text \<open>\<open>___core_read\<close> with a destination. Accessors are fields with an offset each. There is no
  value when there are more accessors than macros.\<close>

definition read_into ::
    "machine \<Rightarrow> reader \<Rightarrow> reader \<Rightarrow> ('f \<Rightarrow> u64) \<Rightarrow> nat \<Rightarrow> u64 \<Rightarrow> 'f \<Rightarrow> 'f list \<Rightarrow> (int \<times> bytes option) option" where
  "read_into m fn fn_ptr off sz src a acs =
     core_read (\<lambda>p. Some (fn sz p)) (into_ptr m fn_ptr) src (off a) (map off acs)"

definition BPF_CORE_READ_INTO ::
    "machine \<Rightarrow> ('f \<Rightarrow> u64) \<Rightarrow> nat \<Rightarrow> u64 \<Rightarrow> 'f \<Rightarrow> 'f list \<Rightarrow> (int \<times> bytes option) option" where
  "BPF_CORE_READ_INTO m off = read_into m (bpf_core_read (kspace m)) (bpf_core_read (kspace m)) off"

definition BPF_CORE_READ_USER_INTO ::
    "machine \<Rightarrow> ('f \<Rightarrow> u64) \<Rightarrow> nat \<Rightarrow> u64 \<Rightarrow> 'f \<Rightarrow> 'f list \<Rightarrow> (int \<times> bytes option) option" where
  "BPF_CORE_READ_USER_INTO m off = read_into m (bpf_core_read_user (uspace m)) (bpf_core_read_user (uspace m)) off"

definition BPF_PROBE_READ_INTO ::
    "machine \<Rightarrow> ('f \<Rightarrow> u64) \<Rightarrow> nat \<Rightarrow> u64 \<Rightarrow> 'f \<Rightarrow> 'f list \<Rightarrow> (int \<times> bytes option) option" where
  "BPF_PROBE_READ_INTO m off = read_into m (bpf_probe_read_kernel (kspace m)) (bpf_probe_read_kernel (kspace m)) off"

definition BPF_PROBE_READ_USER_INTO ::
    "machine \<Rightarrow> ('f \<Rightarrow> u64) \<Rightarrow> nat \<Rightarrow> u64 \<Rightarrow> 'f \<Rightarrow> 'f list \<Rightarrow> (int \<times> bytes option) option" where
  "BPF_PROBE_READ_USER_INTO m off = read_into m (bpf_probe_read_user (uspace m)) (bpf_probe_read_user (uspace m)) off"

definition BPF_CORE_READ_STR_INTO ::
    "machine \<Rightarrow> ('f \<Rightarrow> u64) \<Rightarrow> nat \<Rightarrow> u64 \<Rightarrow> 'f \<Rightarrow> 'f list \<Rightarrow> (int \<times> bytes option) option" where
  "BPF_CORE_READ_STR_INTO m off = read_into m (bpf_core_read_str (kspace m)) (bpf_core_read (kspace m)) off"

definition BPF_CORE_READ_USER_STR_INTO ::
    "machine \<Rightarrow> ('f \<Rightarrow> u64) \<Rightarrow> nat \<Rightarrow> u64 \<Rightarrow> 'f \<Rightarrow> 'f list \<Rightarrow> (int \<times> bytes option) option" where
  "BPF_CORE_READ_USER_STR_INTO m off =
     read_into m (bpf_core_read_user_str (uspace m)) (bpf_core_read_user (uspace m)) off"

definition BPF_PROBE_READ_STR_INTO ::
    "machine \<Rightarrow> ('f \<Rightarrow> u64) \<Rightarrow> nat \<Rightarrow> u64 \<Rightarrow> 'f \<Rightarrow> 'f list \<Rightarrow> (int \<times> bytes option) option" where
  "BPF_PROBE_READ_STR_INTO m off =
     read_into m (bpf_probe_read_kernel_str (kspace m)) (bpf_probe_read_kernel (kspace m)) off"

definition BPF_PROBE_READ_USER_STR_INTO ::
    "machine \<Rightarrow> ('f \<Rightarrow> u64) \<Rightarrow> nat \<Rightarrow> u64 \<Rightarrow> 'f \<Rightarrow> 'f list \<Rightarrow> (int \<times> bytes option) option" where
  "BPF_PROBE_READ_USER_STR_INTO m off =
     read_into m (bpf_probe_read_user_str (uspace m)) (bpf_probe_read_user (uspace m)) off"

section \<open>Reads of a value\<close>

text \<open>The result variable is used whatever the read returned.\<close>

definition value_of :: "machine \<Rightarrow> nat \<Rightarrow> (int \<times> bytes option) option \<Rightarrow> 'a::len word option" where
  "value_of m sz r = map_option (\<lambda>r. load_bytes (m_order m) (dst_after m sz r)) r"

definition BPF_CORE_READ_value :: "machine \<Rightarrow> ('f \<Rightarrow> u64) \<Rightarrow> nat \<Rightarrow> u64 \<Rightarrow> 'f \<Rightarrow> 'f list \<Rightarrow> 'a::len word option" where
  "BPF_CORE_READ_value m off sz src a acs = value_of m sz (BPF_CORE_READ_INTO m off sz src a acs)"

definition BPF_CORE_READ_USER :: "machine \<Rightarrow> ('f \<Rightarrow> u64) \<Rightarrow> nat \<Rightarrow> u64 \<Rightarrow> 'f \<Rightarrow> 'f list \<Rightarrow> 'a::len word option" where
  "BPF_CORE_READ_USER m off sz src a acs = value_of m sz (BPF_CORE_READ_USER_INTO m off sz src a acs)"

definition BPF_PROBE_READ :: "machine \<Rightarrow> ('f \<Rightarrow> u64) \<Rightarrow> nat \<Rightarrow> u64 \<Rightarrow> 'f \<Rightarrow> 'f list \<Rightarrow> 'a::len word option" where
  "BPF_PROBE_READ m off sz src a acs = value_of m sz (BPF_PROBE_READ_INTO m off sz src a acs)"

definition BPF_PROBE_READ_USER :: "machine \<Rightarrow> ('f \<Rightarrow> u64) \<Rightarrow> nat \<Rightarrow> u64 \<Rightarrow> 'f \<Rightarrow> 'f list \<Rightarrow> 'a::len word option" where
  "BPF_PROBE_READ_USER m off sz src a acs = value_of m sz (BPF_PROBE_READ_USER_INTO m off sz src a acs)"

section \<open>Queries\<close>

datatype bpf_field_info_kind =
    BPF_FIELD_BYTE_OFFSET | BPF_FIELD_BYTE_SIZE | BPF_FIELD_EXISTS
  | BPF_FIELD_SIGNED | BPF_FIELD_LSHIFT_U64 | BPF_FIELD_RSHIFT_U64

datatype bpf_type_id_kind = BPF_TYPE_ID_LOCAL | BPF_TYPE_ID_TARGET

datatype bpf_type_info_kind = BPF_TYPE_EXISTS | BPF_TYPE_SIZE | BPF_TYPE_MATCHES

datatype bpf_enum_value_kind = BPF_ENUMVAL_EXISTS | BPF_ENUMVAL_VALUE

text \<open>A field is named by an expression, or by a type and a field.\<close>

datatype 'n field_expr = Field_of 'n | Type_field 'n 'n

definition bpf_field_ref :: "'n list \<Rightarrow> 'n field_expr option" where
  "bpf_field_ref args =
     (if bpf_narg args = 1 then Some (Field_of (args ! 0))
      else if bpf_narg args = 2 then Some (Type_field (args ! 0) (args ! 1)) else None)"

text \<open>What the compiler and the loader answer, by field, type or enumerator.\<close>

record 'n loader =
  preserve_field_info :: "'n field_expr \<Rightarrow> bpf_field_info_kind \<Rightarrow> u32"
  btf_type_id :: "'n \<Rightarrow> bpf_type_id_kind \<Rightarrow> u32"
  preserve_type_info :: "'n \<Rightarrow> bpf_type_info_kind \<Rightarrow> u32"
  preserve_enum_value :: "'n \<Rightarrow> 'n \<Rightarrow> bpf_enum_value_kind \<Rightarrow> u64"

definition bpf_core_field_exists :: "'n loader \<Rightarrow> 'n list \<Rightarrow> u32 option" where
  "bpf_core_field_exists l args = map_option (\<lambda>f. preserve_field_info l f BPF_FIELD_EXISTS) (bpf_field_ref args)"

definition bpf_core_field_size :: "'n loader \<Rightarrow> 'n list \<Rightarrow> u32 option" where
  "bpf_core_field_size l args = map_option (\<lambda>f. preserve_field_info l f BPF_FIELD_BYTE_SIZE) (bpf_field_ref args)"

definition bpf_core_field_offset :: "'n loader \<Rightarrow> 'n list \<Rightarrow> u32 option" where
  "bpf_core_field_offset l args = map_option (\<lambda>f. preserve_field_info l f BPF_FIELD_BYTE_OFFSET) (bpf_field_ref args)"

definition bpf_core_type_id_local :: "'n loader \<Rightarrow> 'n \<Rightarrow> u32" where
  "bpf_core_type_id_local l type = btf_type_id l type BPF_TYPE_ID_LOCAL"

definition bpf_core_type_id_kernel :: "'n loader \<Rightarrow> 'n \<Rightarrow> u32" where
  "bpf_core_type_id_kernel l type = btf_type_id l type BPF_TYPE_ID_TARGET"

definition bpf_core_type_exists :: "'n loader \<Rightarrow> 'n \<Rightarrow> u32" where
  "bpf_core_type_exists l type = preserve_type_info l type BPF_TYPE_EXISTS"

definition bpf_core_type_matches :: "'n loader \<Rightarrow> 'n \<Rightarrow> u32" where
  "bpf_core_type_matches l type = preserve_type_info l type BPF_TYPE_MATCHES"

definition bpf_core_type_size :: "'n loader \<Rightarrow> 'n \<Rightarrow> u32" where
  "bpf_core_type_size l type = preserve_type_info l type BPF_TYPE_SIZE"

definition bpf_core_enum_value_exists :: "'n loader \<Rightarrow> 'n \<Rightarrow> 'n \<Rightarrow> u64" where
  "bpf_core_enum_value_exists l enum_type enum_value = preserve_enum_value l enum_type enum_value BPF_ENUMVAL_EXISTS"

definition bpf_core_enum_value :: "'n loader \<Rightarrow> 'n \<Rightarrow> 'n \<Rightarrow> u64" where
  "bpf_core_enum_value l enum_type enum_value = preserve_enum_value l enum_type enum_value BPF_ENUMVAL_VALUE"

text \<open>One and two arguments have a meaning, other numbers no macro.\<close>

lemma bpf_field_ref_forms:
  assumes "length args \<le> 12"
  shows "bpf_field_ref args = (case args of [f] \<Rightarrow> Some (Field_of f) | [t, f] \<Rightarrow> Some (Type_field t f) | _ \<Rightarrow> None)"
  using assms by (auto simp: bpf_field_ref_def bpf_narg_length split: list.split)

section \<open>Strings\<close>

lemma mem_string_ok:
  "mem_string mem n a = Some bs \<Longrightarrow> 0 < n \<Longrightarrow> 0 < length bs \<and> length bs \<le> n \<and> last bs = 0 \<and> 0 \<notin> set (butlast bs) \<and>
     (\<forall>i < length bs - 1. mem (a + of_nat i) = Some (bs ! i)) \<and>
     (length bs < n \<longrightarrow> mem (a + of_nat (length bs - 1)) = Some 0)"
proof (induction n arbitrary: a bs)
  case (Suc n)
  from Suc.prems obtain b where b: "mem a = Some b" by (auto split: option.splits)
  show ?case
  proof (cases "b = 0 \<or> n = 0")
    case True
    then show ?thesis using Suc.prems b by auto
  next
    case False
    then obtain cs where cs: "mem_string mem n (a + 1) = Some cs" "bs = b # cs" using Suc.prems b by auto
    from Suc.IH [OF cs(1)] False have ih: "0 < length cs" "length cs \<le> n" "last cs = 0" "0 \<notin> set (butlast cs)"
        "\<And>i. i < length cs - 1 \<Longrightarrow> mem (a + 1 + of_nat i) = Some (cs ! i)"
        "length cs < n \<Longrightarrow> mem (a + 1 + of_nat (length cs - 1)) = Some 0" by auto
    have "mem (a + of_nat i) = Some (bs ! i)" if "i < length bs - 1" for i
      using that ih(5) [of "i - 1"] b cs(2) by (cases i) (auto simp: ac_simps)
    moreover have "mem (a + of_nat (length bs - 1)) = Some 0" if "length bs < Suc n"
      using that ih(1,6) cs(2) by (cases "length cs") (auto simp: ac_simps)
    ultimately show ?thesis using ih(1-4) cs(2) False by auto
  qed
qed simp

section \<open>Chains of inner pointers\<close>

text \<open>A reader that copies from a memory.\<close>

definition reads_from :: "reader \<Rightarrow> memory \<Rightarrow> bool" where
  "reads_from fn mem \<longleftrightarrow> fn = bpf_probe_read_kernel mem"

lemma reads_from_helpers [simp]:
  "reads_from (bpf_probe_read_kernel mem) mem" "reads_from (bpf_probe_read_user mem) mem"
  "reads_from (bpf_core_read mem) mem" "reads_from (bpf_core_read_user mem) mem"
  by (simp_all add: reads_from_def fun_eq_iff bpf_probe_read_kernel_def bpf_probe_read_user_def
      bpf_core_read_def bpf_core_read_user_def)

lemma into_ptr_ok: "reads_from fn mem \<Longrightarrow> rd_ptr (m_order m) mem t off = Some t' \<Longrightarrow> into_ptr m fn t off = Some t'"
  by (auto simp: into_ptr_def reads_from_def rd_ptr_def dst_after_def)

lemma chase_into_ok:
  "reads_from fn mem \<Longrightarrow> chase (rd_ptr (m_order m) mem) t offs = Some t' \<Longrightarrow> chase (into_ptr m fn) t offs = Some t'"
  by (induction offs arbitrary: t) (auto simp: into_ptr_ok split: option.splits)

lemma core_read_fields:
  assumes "length acs < 9"
  shows "core_read fn rd src (off a) (map off acs) =
    (case chase rd src (map off (butlast (a # acs))) of None \<Rightarrow> None | Some t \<Rightarrow> fn (t + off (last (a # acs))))"
  using assms core_read_chase [of "map off acs" fn rd src "off a"]
  by (simp add: last_map map_butlast split: option.split)

lemma read_into_chase:
  assumes "length acs < 9"
  shows "read_into m fn fn_ptr off sz src a acs =
    map_option (\<lambda>t. fn sz (t + off (last (a # acs)))) (chase (into_ptr m fn_ptr) src (map off (butlast (a # acs))))"
  unfolding read_into_def core_read_fields [OF assms] by (simp split: option.split)

text \<open>Every inner pointer readable: the last read decides, wherever it reads from.\<close>

lemma read_into_ok:
  assumes "length acs < 9" and "reads_from fn_ptr mem"
    and "chase (rd_ptr (m_order m) mem) src (map off (butlast (a # acs))) = Some t"
  shows "read_into m fn fn_ptr off sz src a acs = Some (fn sz (t + off (last (a # acs))))"
  using chase_into_ok [OF assms(2,3)] read_into_chase [OF assms(1)] by simp

section \<open>Faults\<close>

text \<open>Refused reads leave zeros and no byte below \<open>page\<close> is mapped.\<close>

definition null_traps :: "machine \<Rightarrow> memory \<Rightarrow> u64 \<Rightarrow> bool" where
  "null_traps m mem page \<longleftrightarrow> (\<forall>n. unread m n = replicate n 0) \<and> (\<forall>p < page. mem p = None)"

lemma null_refused: "null_traps m mem page \<Longrightarrow> p < page \<Longrightarrow> 0 < n \<Longrightarrow> mem_bytes mem n p = None"
  by (cases n) (simp_all add: null_traps_def mem_bytes_def upt_rec)

lemma null_string_refused: "null_traps m mem page \<Longrightarrow> p < page \<Longrightarrow> 0 < n \<Longrightarrow> mem_string mem n p = None"
  by (cases n) (simp_all add: null_traps_def)

lemma load_zeros: "load_bytes order (replicate n 0) = 0"
proof -
  have "of_le_bytes (replicate n 0) = (0 :: 'a::len word)" by (induction n) simp_all
  then show ?thesis by (cases order) (simp_all add: load_bytes_def)
qed

lemma into_ptr_refused:
  assumes "null_traps m mem page" and "reads_from fn mem" and "rd_ptr (m_order m) mem t off = None"
  shows "into_ptr m fn t off = Some 0"
  using assms by (simp add: null_traps_def reads_from_def rd_ptr_def into_ptr_def dst_after_def load_zeros)

lemma chase_into:
  assumes null: "null_traps m mem page" and fn: "reads_from fn mem" and small: "\<forall>off \<in> set offs. off < page"
  shows "chase (into_ptr m fn) t offs = Some (case chase (rd_ptr (m_order m) mem) t offs of Some t' \<Rightarrow> t' | None \<Rightarrow> 0)"
  using small
proof (induction offs arbitrary: t)
  case (Cons off offs)
  have zero: "chase (into_ptr m fn) 0 offs = Some 0"
  proof -
    have "chase (rd_ptr (m_order m) mem) 0 offs = None \<or> offs = []"
      using Cons.prems null_refused [OF null] by (cases offs) (simp_all add: rd_ptr_def bpf_probe_read_kernel_def)
    then show ?thesis using Cons by auto
  qed
  show ?case
  proof (cases "rd_ptr (m_order m) mem t off")
    case None
    then show ?thesis using zero into_ptr_refused [OF null fn] by simp
  next
    case (Some t')
    then show ?thesis using Cons into_ptr_ok [OF fn] by simp
  qed
qed simp

section \<open>Properties\<close>

text \<open>The reads into storage report every fault although they look at the result of the last read only:
  when refused reads leave zeros and the offsets of the fields lie in an unmapped zero page, the
  result is \<open>-EFAULT\<close> if any inner pointer is refused, and that of the last read otherwise, for
  values and for strings.\<close>

theorem core_read_into_reports_faults:
  assumes "null_traps m (kspace m) page" and "\<forall>f \<in> set (a # acs). off f < page"
    and "length acs < 9" and "0 < sz"
  shows "BPF_CORE_READ_INTO m off sz src a acs =
      Some (case chase (rd_ptr (m_order m) (kspace m)) src (map off (butlast (a # acs))) of
        None \<Rightarrow> (- EFAULT, None)
      | Some t \<Rightarrow> bpf_probe_read_kernel (kspace m) sz (t + off (last (a # acs)))) \<and>
    BPF_CORE_READ_STR_INTO m off sz src a acs =
      Some (case chase (rd_ptr (m_order m) (kspace m)) src (map off (butlast (a # acs))) of
        None \<Rightarrow> (- EFAULT, None)
      | Some t \<Rightarrow> bpf_probe_read_kernel_str (kspace m) sz (t + off (last (a # acs))))"
proof -
  let ?p = "off (last (a # acs))" and ?offs = "map off (butlast (a # acs))"
  have p: "?p < page" using assms(2) last_in_set [of "a # acs"] by blast
  have "\<forall>o' \<in> set ?offs. o' < page" using assms(2) in_set_butlastD [of _ "a # acs"] by fastforce
  note chain = chase_into [OF assms(1) reads_from_helpers(3) this]
  have null: "bpf_core_read (kspace m) sz ?p = (- EFAULT, None)" "bpf_core_read_str (kspace m) sz ?p = (- EFAULT, None)"
    using null_refused [OF assms(1) p assms(4)] null_string_refused [OF assms(1) p assms(4)]
    by (simp_all add: bpf_core_read_def bpf_core_read_str_def bpf_probe_read_kernel_def bpf_probe_read_kernel_str_def)
  show ?thesis
    unfolding BPF_CORE_READ_INTO_def BPF_CORE_READ_STR_INTO_def read_into_chase [OF assms(3)] chain
    using null by (auto simp: bpf_core_read_def bpf_core_read_str_def split: option.split)
qed

text \<open>The two objects again, read with fields named by strings: a chain that works, and one through a null
  pointer.\<close>

definition two_machine :: machine where
  "two_machine = \<lparr>kspace = two_objects, uspace = \<lambda>_. None, m_order = Little, unread = \<lambda>n. replicate n 0\<rparr>"

definition two_off :: "string \<Rightarrow> u64" where
  "two_off f = (if f = ''next'' then 8 else 4)"

theorem core_read_into_reports_faults_witness:
  "BPF_CORE_READ_INTO two_machine two_off 4 8 ''next'' [''val''] = Some (0, Some (le_bytes 4 (77 :: u32))) \<and>
   BPF_CORE_READ_INTO two_machine two_off 4 100 ''next'' [''val''] = Some (- EFAULT, None)"
proof -
  have null: "null_traps two_machine (kspace two_machine) 16"
    by (auto simp: null_traps_def two_machine_def two_objects_def mem_store_def word_less_nat_alt unat_sub_if_size word_size)
  have "\<forall>f \<in> set [''next'', ''val'']. two_off f < 16" by (simp add: two_off_def)
  then have read: "BPF_CORE_READ_INTO two_machine two_off 4 src ''next'' [''val''] =
      Some (case chase (rd_ptr (m_order two_machine) (kspace two_machine)) src (map two_off (butlast [''next'', ''val''])) of
        None \<Rightarrow> (- EFAULT, None)
      | Some t \<Rightarrow> bpf_probe_read_kernel (kspace two_machine) 4 (t + two_off (last [''next'', ''val''])))" for src
    by (rule conjunct1 [OF core_read_into_reports_faults [OF null]]) simp_all
  have m: "kspace two_machine = two_objects" "m_order two_machine = Little" by (simp_all add: two_machine_def)
  have "rd_ptr Little two_objects 8 8 = Some 256"
    by (simp add: rd_ptr_def bpf_probe_read_kernel_def two_objects_bytes load_bytes_def of_le_bytes_le_bytes)
  moreover have "rd_ptr Little two_objects 100 8 = None"
    by (simp add: rd_ptr_def bpf_probe_read_kernel_def mem_bytes_def upt_rec two_objects_def mem_store_def)
  ultimately show ?thesis
    unfolding read by (simp add: m two_off_def bpf_probe_read_kernel_def two_objects_bytes)
qed

text \<open>Without these conditions a fault can be lost: what a refused read leaves may be a readable address.\<close>

lemma core_read_into_can_hide_fault:
  "BPF_CORE_READ_INTO (two_machine\<lparr>unread := \<lambda>n. le_bytes n (256 :: u64)\<rparr>) two_off 4 100 ''next'' [''val'']
     = Some (0, Some (le_bytes 4 (77 :: u32)))"
proof -
  have "mem_bytes two_objects 8 108 = None"
    by (simp add: mem_bytes_def upt_rec two_objects_def mem_store_def)
  then show ?thesis
    by (simp add: BPF_CORE_READ_INTO_def read_into_chase into_ptr_def bpf_core_read_def bpf_probe_read_kernel_def
        two_machine_def two_off_def dst_after_def load_bytes_def of_le_bytes_le_bytes two_objects_bytes)
qed

text \<open>The value macro agrees with the reference reading of \<^emph>\<open>Core_Read\<close> whenever that has a value.\<close>

lemma BPF_CORE_READ_value_ok:
  assumes "length acs < 9" and "BPF_CORE_READ (m_order m) (kspace m) sz src (map off (a # acs)) = Some v"
  shows "BPF_CORE_READ_value m off sz src a acs = Some v"
proof -
  let ?fn = "\<lambda>p. snd (bpf_probe_read_kernel (kspace m) sz p)" and ?rd = "rd_ptr (m_order m) (kspace m)"
  obtain bs where v: "core_read ?fn ?rd src (off a) (map off acs) = Some bs" "v = load_bytes (m_order m) bs"
    using assms(2) by (auto simp: BPF_CORE_READ_def)
  from v(1) obtain t where t: "chase ?rd src (map off (butlast (a # acs))) = Some t" and bs: "?fn (t + off (last (a # acs))) = Some bs"
    unfolding core_read_fields [OF assms(1)] by (auto split: option.splits)
  from read_into_ok [OF assms(1) reads_from_helpers(3) t] bs v(2) show ?thesis
    by (simp add: BPF_CORE_READ_value_def BPF_CORE_READ_INTO_def bpf_core_read_def value_of_def dst_after_def)
qed

text \<open>A user-space chain with readable pointers ends in a terminated string that fits.\<close>

lemma core_read_user_str_terminated:
  assumes "length acs < 9" and "0 < sz"
    and "chase (rd_ptr (m_order m) (uspace m)) src (map off (butlast (a # acs))) = Some t"
    and "BPF_CORE_READ_USER_STR_INTO m off sz src a acs = Some (ret, Some bs)"
  shows "0 < ret \<and> ret = int (length bs) \<and> length bs \<le> sz \<and> last bs = 0 \<and> 0 \<notin> set (butlast bs)"
proof -
  have "BPF_CORE_READ_USER_STR_INTO m off sz src a acs = Some (bpf_probe_read_user_str (uspace m) sz (t + off (last (a # acs))))"
    unfolding BPF_CORE_READ_USER_STR_INTO_def
    using read_into_ok [OF assms(1) reads_from_helpers(4) assms(3)] by (simp add: bpf_core_read_user_str_def)
  then have "mem_string (uspace m) sz (t + off (last (a # acs))) = Some bs" "ret = int (length bs)"
    using assms(4) by (auto simp: bpf_probe_read_user_str_def split: option.splits)
  with mem_string_ok [OF this(1) assms(2)] show ?thesis by simp
qed

end
