(* ===== verification/Usdt.thy ===== *)
theory Usdt
  imports Bpf_Map Core_Read
begin

text \<open>
  The USDT argument access of \<open>usdt.bpf.h\<close>: the two maps libbpf fills, the lookup of the
  specification of the traced probe, and the fetch of an argument from a constant, a register or
  memory behind a register. What the kernel provides during one invocation (registers at the
  context address, user memory, the attach cookie) is the record \<open>usdt_ctx\<close>.
\<close>

section \<open>Data\<close>

definition BPF_USDT_MAX_SPEC_CNT :: nat where "BPF_USDT_MAX_SPEC_CNT = 256"
definition BPF_USDT_MAX_IP_CNT :: nat where "BPF_USDT_MAX_IP_CNT = 4 * BPF_USDT_MAX_SPEC_CNT"
definition BPF_USDT_MAX_ARG_CNT :: nat where "BPF_USDT_MAX_ARG_CNT = 12"

text \<open>The values of \<open>enum __bpf_usdt_arg_type\<close>; the field itself may hold any integer.\<close>

definition BPF_USDT_ARG_CONST :: u32 where "BPF_USDT_ARG_CONST = 0"
definition BPF_USDT_ARG_REG :: u32 where "BPF_USDT_ARG_REG = 1"
definition BPF_USDT_ARG_REG_DEREF :: u32 where "BPF_USDT_ARG_REG_DEREF = 2"

record bpf_usdt_arg_spec =
  val_off :: u64
  arg_type :: u32
  reg_off :: "16 word"
  arg_signed :: bool
  arg_bitshift :: u8

record bpf_usdt_spec =
  spec_args :: "bpf_usdt_arg_spec list"
  usdt_cookie :: u64
  arg_cnt :: "16 word"

record usdt_maps =
  bpf_usdt_specs :: "bpf_usdt_spec bpf_array"
  bpf_usdt_ip_to_spec_id :: "(s64, u32) bpf_hash"

record usdt_ctx =
  has_bpf_cookie :: bool
  attach_cookie :: u64
  regs_ip :: s64
  regs_addr :: u64
  kernel_mem :: memory
  user_mem :: memory
  ctx_order :: byte_order

section \<open>Operations\<close>

definition bpf_usdt_spec_id :: "usdt_maps \<Rightarrow> usdt_ctx \<Rightarrow> s32" where
  "bpf_usdt_spec_id m ctx =
     (if \<not> has_bpf_cookie ctx
      then (case bpf_map_lookup_elem (bpf_usdt_ip_to_spec_id m) (regs_ip ctx) of
              Some spec_id \<Rightarrow> spec_id
            | None \<Rightarrow> word_of_int (- ESRCH))
      else ucast (attach_cookie ctx))"

definition bpf_usdt_arg_cnt :: "usdt_maps \<Rightarrow> usdt_ctx \<Rightarrow> int" where
  "bpf_usdt_arg_cnt m ctx =
     (let spec_id = bpf_usdt_spec_id m ctx
      in if sint spec_id < 0 then - ESRCH
         else case array_lookup_elem (bpf_usdt_specs m) spec_id of
           None \<Rightarrow> - ESRCH
         | Some spec \<Rightarrow> sint (arg_cnt spec))"

text \<open>The cast of the fetched value to the argument's width.\<close>

definition usdt_cast :: "bpf_usdt_arg_spec \<Rightarrow> u64 \<Rightarrow> u64" where
  "usdt_cast arg_spec val =
     (let val = push_bit (unat (arg_bitshift arg_spec)) val
      in if arg_signed arg_spec then signed_drop_bit (unat (arg_bitshift arg_spec)) val
         else drop_bit (unat (arg_bitshift arg_spec)) val)"

text \<open>The \<open>switch\<close> on the argument's location: the value, or the error to return.\<close>

definition usdt_fetch :: "usdt_ctx \<Rightarrow> bpf_usdt_arg_spec \<Rightarrow> int + u64" where
  "usdt_fetch ctx arg_spec =
     (if arg_type arg_spec = BPF_USDT_ARG_CONST then Inr (val_off arg_spec)
      else if arg_type arg_spec = BPF_USDT_ARG_REG then
        (case bpf_probe_read_kernel (kernel_mem ctx) 8 (regs_addr ctx + scast (reg_off arg_spec)) of
           (err, None) \<Rightarrow> Inl err
         | (err, Some bs) \<Rightarrow> Inr (load_bytes (ctx_order ctx) bs))
      else if arg_type arg_spec = BPF_USDT_ARG_REG_DEREF then
        (case bpf_probe_read_kernel (kernel_mem ctx) 8 (regs_addr ctx + scast (reg_off arg_spec)) of
           (err, None) \<Rightarrow> Inl err
         | (err, Some bs) \<Rightarrow>
             (case bpf_probe_read_kernel (user_mem ctx) 8 (load_bytes (ctx_order ctx) bs + val_off arg_spec) of
                (err, None) \<Rightarrow> Inl err
              | (err, Some us) \<Rightarrow>
                  Inr (case ctx_order ctx of
                    Little \<Rightarrow> load_bytes Little us
                  | Big \<Rightarrow> drop_bit (unat (arg_bitshift arg_spec)) (load_bytes Big us))))
      else Inl (- EINVAL))"

definition bpf_usdt_arg :: "usdt_maps \<Rightarrow> usdt_ctx \<Rightarrow> u64 \<Rightarrow> int \<times> s64" where
  "bpf_usdt_arg m ctx arg_num =
     (let res = 0; spec_id = bpf_usdt_spec_id m ctx
      in if sint spec_id < 0 then (- ESRCH, res)
      else case array_lookup_elem (bpf_usdt_specs m) spec_id of
        None \<Rightarrow> (- ESRCH, res)
      | Some spec \<Rightarrow>
          if arg_num \<ge> of_nat BPF_USDT_MAX_ARG_CNT then (- ENOENT, res)
          else if arg_num \<ge> scast (arg_cnt spec) then (- ENOENT, res)
          else
            let arg_spec = spec_args spec ! unat arg_num
            in case usdt_fetch ctx arg_spec of
              Inl err \<Rightarrow> (err, res)
            | Inr val \<Rightarrow> (0, usdt_cast arg_spec val))"

definition bpf_usdt_cookie :: "usdt_maps \<Rightarrow> usdt_ctx \<Rightarrow> s64" where
  "bpf_usdt_cookie m ctx =
     (let spec_id = bpf_usdt_spec_id m ctx
      in if sint spec_id < 0 then 0
         else case array_lookup_elem (bpf_usdt_specs m) spec_id of
           None \<Rightarrow> 0
         | Some spec \<Rightarrow> usdt_cookie spec)"

text \<open>\<open>___bpf_usdt_args0\<close> to \<open>___bpf_usdt_args12\<close>: the values a \<open>BPF_USDT\<close> handler is called with.\<close>

primrec bpf_usdt_args :: "nat \<Rightarrow> usdt_maps \<Rightarrow> usdt_ctx \<Rightarrow> s64 list" where
  "bpf_usdt_args 0 m ctx = []"
| "bpf_usdt_args (Suc n) m ctx = bpf_usdt_args n m ctx @ [snd (bpf_usdt_arg m ctx (of_nat n))]"

section \<open>Lemmas\<close>

lemma probe_read_error:
  "bpf_probe_read_kernel mem n a = (err, None) \<Longrightarrow> err = - EFAULT"
  "bpf_probe_read_kernel mem n a = (err, Some bs) \<Longrightarrow> err = 0 \<and> mem_bytes mem n a = Some bs"
  by (auto simp: bpf_probe_read_kernel_def split: option.splits)

lemma usdt_fetch_error: "usdt_fetch ctx arg_spec = Inl err \<Longrightarrow> err \<in> {- EFAULT, - EINVAL}"
  by (auto simp: usdt_fetch_def dest: probe_read_error split: if_splits prod.splits option.splits)

lemma usdt_args_nth: "i < n \<Longrightarrow> bpf_usdt_args n m ctx ! i = snd (bpf_usdt_arg m ctx (of_nat i))"
  and length_usdt_args: "length (bpf_usdt_args n m ctx) = n"
proof -
  have "length (bpf_usdt_args n m ctx) = n \<and>
      (\<forall>i < n. bpf_usdt_args n m ctx ! i = snd (bpf_usdt_arg m ctx (of_nat i)))"
    by (induction n) (auto simp: nth_append less_Suc_eq)
  then show "length (bpf_usdt_args n m ctx) = n"
    and "i < n \<Longrightarrow> bpf_usdt_args n m ctx ! i = snd (bpf_usdt_arg m ctx (of_nat i))" by simp_all
qed

text \<open>The bitfield shifts of \<^emph>\<open>Core_Read\<close> with a field at bit 0.\<close>

lemma usdt_cast_width:
  assumes "0 < w" and "w \<le> 64" and "unat (arg_bitshift spec) = 64 - w"
  shows "usdt_cast spec val = (if arg_signed spec then signed_take_bit (w - 1) val else take_bit w val)"
proof -
  let ?r = "\<lparr>BYTE_OFFSET = 0, BYTE_SIZE = 8, SIGNED = arg_signed spec, LSHIFT_U64 = 64 - w,
    RSHIFT_U64 = 64 - w\<rparr>"
  have r: "relo_for 0 w ?r" using assms by (simp add: relo_for_def)
  have "usdt_cast spec val = shift_out ?r val"
    using assms by (simp add: usdt_cast_def shift_out_def Let_def)
  also have "\<dots> = (if arg_signed spec then signed_take_bit (w - 1) val else take_bit w val)"
    using shift_out_signed [OF r, of val] shift_out_unsigned [OF r, of val] by simp
  finally show ?thesis .
qed

lemma usdt_arg_found:
  assumes "array_lookup_elem (bpf_usdt_specs m) (bpf_usdt_spec_id m ctx) = Some spec"
    and "0 \<le> sint (bpf_usdt_spec_id m ctx)" and "n < of_nat BPF_USDT_MAX_ARG_CNT" and "n < scast (arg_cnt spec)"
    and "arg = spec_args spec ! unat n"
  shows "bpf_usdt_arg m ctx n =
    (case usdt_fetch ctx arg of Inl err \<Rightarrow> (err, 0) | Inr val \<Rightarrow> (0, usdt_cast arg val))"
proof -
  have "\<not> sint (bpf_usdt_spec_id m ctx) < 0" "\<not> of_nat BPF_USDT_MAX_ARG_CNT \<le> n" "\<not> scast (arg_cnt spec) \<le> n"
    using assms(2-4) by (simp_all only: not_less not_le)
  then show ?thesis unfolding assms(5) using assms(1) by (simp add: bpf_usdt_arg_def Let_def)
qed

section \<open>Properties\<close>

text \<open>C40. Fetching an argument never lets garbage out: every failure returns one of the four documented
  negative errors with the result set to zero, and a zero return means that the probe's
  specification was found, declares the argument and located it.\<close>

theorem usdt_arg_error_zero:
  assumes "bpf_usdt_arg m ctx n = (err, res)"
  shows "(err = 0 \<or> err \<in> {- ESRCH, - ENOENT, - EINVAL, - EFAULT} \<and> res = 0) \<and>
    (err = 0 \<longrightarrow> (\<exists>spec val. array_lookup_elem (bpf_usdt_specs m) (bpf_usdt_spec_id m ctx) = Some spec \<and>
       unat n < BPF_USDT_MAX_ARG_CNT \<and> n < scast (arg_cnt spec) \<and>
       usdt_fetch ctx (spec_args spec ! unat n) = Inr val \<and> res = usdt_cast (spec_args spec ! unat n) val))"
  using assms
  by (auto simp: bpf_usdt_arg_def Let_def EFAULT_def errno_defs not_le word_less_nat_alt BPF_USDT_MAX_ARG_CNT_def
      dest: usdt_fetch_error split: if_splits option.splits sum.splits)

text \<open>A register argument of \<open>w\<close> bits, described by the shift \<open>64 - w\<close>, is returned as the low \<open>w\<close>
  bits of the register at its offset in the context, zero- or sign-extended.\<close>

theorem usdt_register_argument:
  assumes "array_lookup_elem (bpf_usdt_specs m) (bpf_usdt_spec_id m ctx) = Some spec"
    and "0 \<le> sint (bpf_usdt_spec_id m ctx)" and "n < of_nat BPF_USDT_MAX_ARG_CNT" and "n < scast (arg_cnt spec)"
    and "arg = spec_args spec ! unat n" and "arg_type arg = BPF_USDT_ARG_REG"
    and "0 < w" and "w \<le> 64" and "unat (arg_bitshift arg) = 64 - w"
    and "mem_bytes (kernel_mem ctx) 8 (regs_addr ctx + scast (reg_off arg)) = Some (store_bytes (ctx_order ctx) 8 (v :: u64))"
  shows "bpf_usdt_arg m ctx n = (0, if arg_signed arg then signed_take_bit (w - 1) v else take_bit w v)"
proof -
  have "usdt_fetch ctx arg = Inr v"
    using assms(6,10)
    by (simp add: usdt_fetch_def BPF_USDT_ARG_REG_def BPF_USDT_ARG_CONST_def bpf_probe_read_kernel_def load_store)
  with usdt_arg_found [OF assms(1-5)] show ?thesis by (simp add: usdt_cast_width [OF assms(7-9)])
qed


text \<open>A probe with one 32-bit signed argument in the register at offset 8 of the context.\<close>

definition probe_maps :: usdt_maps where
  "probe_maps = \<lparr>bpf_usdt_specs = [\<lparr>spec_args = [\<lparr>val_off = 0, arg_type = 1, reg_off = 8,
       arg_signed = True, arg_bitshift = 32\<rparr>], usdt_cookie = 5, arg_cnt = 1\<rparr>],
     bpf_usdt_ip_to_spec_id = hash_empty BPF_USDT_MAX_IP_CNT\<rparr>"

definition probe_ctx :: usdt_ctx where
  "probe_ctx = \<lparr>has_bpf_cookie = True, attach_cookie = 0, regs_ip = 0, regs_addr = 4096,
     kernel_mem = mem_store (\<lambda>_. None) 4104 (le_bytes 8 (0xFFFFFFFE :: u64)), user_mem = (\<lambda>_. None),
     ctx_order = Little\<rparr>"

theorem usdt_register_argument_witness: "bpf_usdt_arg probe_maps probe_ctx 0 = (0, - 2)"
proof -
  let ?spec = "bpf_usdt_specs probe_maps ! 0"
  have id: "bpf_usdt_spec_id probe_maps probe_ctx = 0"
    by (simp add: bpf_usdt_spec_id_def probe_ctx_def)
  then have nonneg: "0 \<le> sint (bpf_usdt_spec_id probe_maps probe_ctx)" by simp
  have l: "array_lookup_elem (bpf_usdt_specs probe_maps) (bpf_usdt_spec_id probe_maps probe_ctx) = Some ?spec"
    unfolding id by (simp add: array_lookup_elem_def probe_maps_def)
  have mem: "mem_bytes (kernel_mem probe_ctx) 8 (regs_addr probe_ctx + scast (reg_off (spec_args ?spec ! unat (0 :: u64))))
      = Some (store_bytes (ctx_order probe_ctx) 8 (0xFFFFFFFE :: u64))"
    using mem_bytes_store [of "le_bytes 8 (0xFFFFFFFE :: u64)" "\<lambda>_. None" 4104]
    by (simp add: probe_ctx_def probe_maps_def store_bytes_def)
  have "bpf_usdt_arg probe_maps probe_ctx 0 = (0, if arg_signed (spec_args ?spec ! unat (0 :: u64))
      then signed_take_bit (32 - 1) 0xFFFFFFFE else take_bit 32 0xFFFFFFFE)"
    by (rule usdt_register_argument [OF l nonneg _ _ refl _ _ _ _ mem])
      (simp_all add: probe_maps_def BPF_USDT_MAX_ARG_CNT_def BPF_USDT_ARG_REG_def)
  then show ?thesis by (simp add: probe_maps_def signed_take_bit_eq_if_negative)
qed

theorem usdt_arg_error_zero_witness:
  "\<exists>err. bpf_usdt_arg probe_maps probe_ctx 1 = (err, 0) \<and> err \<in> {- ESRCH, - ENOENT, - EINVAL, - EFAULT}"
proof -
  have e: "bpf_usdt_arg probe_maps probe_ctx 1 = (- ENOENT, 0)"
    by (simp add: bpf_usdt_arg_def bpf_usdt_spec_id_def probe_ctx_def probe_maps_def array_lookup_elem_def
        BPF_USDT_MAX_ARG_CNT_def)
  from usdt_arg_error_zero [OF e] e show ?thesis by (auto simp: errno_defs)
qed

end
