(* ===== verification/Skel.thy ===== *)
theory Skel
  imports Prelude
begin

text \<open>
  The loader of light skeletons, \<open>skel_internal.h\<close>: the attribute blocks of the system calls it
  makes and \<open>bpf_load_and_run\<close>, which creates a map, fills it, loads a program and runs it. The
  kernel is not in the repository: its answers (return values, \<open>errno\<close>, the program's result) are
  the record \<open>kernel_answers\<close>, with any values. The lemmas show that every descriptor the loader
  opens is closed exactly once and after its last use, on every path.
\<close>

section \<open>System calls\<close>

definition MAP_NAME_LEN :: nat where "MAP_NAME_LEN = 16"

text \<open>\<open>strncpy\<close> into a buffer: at most its size, padded with zeros.\<close>

definition strncpy :: "nat \<Rightarrow> bytes \<Rightarrow> bytes" where
  "strncpy n src = fill_buf n (takeWhile (\<lambda>b. b \<noteq> 0) src)"

text \<open>The commands with the attributes each function sets; all others are zero.\<close>

datatype sys_call =
    Map_create (at_map_type: u32) (at_map_name: bytes) (at_key_size: u32) (at_value_size: u32) (at_max_entries: u32)
  | Map_update_elem (at_map_fd: int) (at_key: u64) (at_value: u64) (at_flags: u64)
  | Map_delete_elem (at_map_fd: int) (at_key: u64)
  | Map_get_fd_by_id (at_map_id: u32)
  | Raw_tracepoint_open (at_name: u64) (at_prog_fd: int)
  | Link_create (at_prog_fd: int) (at_target_fd: int) (at_attach_type: u32)
  | Prog_load (at_insns: u64) (at_insn_cnt: u32) (at_fd_array: int) (at_log_level: u32)
  | Prog_run (at_prog_fd: int) (at_ctx_size_in: u32)
  | Close (at_fd: int)

definition BPF_MAP_TYPE_ARRAY :: u32 where "BPF_MAP_TYPE_ARRAY = 2"

definition skel_map_create :: "u32 \<Rightarrow> bytes \<Rightarrow> u32 \<Rightarrow> u32 \<Rightarrow> u32 \<Rightarrow> sys_call" where
  "skel_map_create mtype name ksz vsz n = Map_create mtype (strncpy MAP_NAME_LEN name) ksz vsz n"

definition skel_map_update_elem :: "int \<Rightarrow> u64 \<Rightarrow> u64 \<Rightarrow> u64 \<Rightarrow> sys_call" where
  "skel_map_update_elem fd k v fl = Map_update_elem fd k v fl"

definition skel_map_delete_elem :: "int \<Rightarrow> u64 \<Rightarrow> sys_call" where
  "skel_map_delete_elem fd k = Map_delete_elem fd k"

definition skel_map_get_fd_by_id :: "u32 \<Rightarrow> sys_call" where
  "skel_map_get_fd_by_id i = Map_get_fd_by_id i"

definition skel_raw_tracepoint_open :: "u64 \<Rightarrow> int \<Rightarrow> sys_call" where
  "skel_raw_tracepoint_open name fd = Raw_tracepoint_open name fd"

definition skel_link_create :: "int \<Rightarrow> int \<Rightarrow> u32 \<Rightarrow> sys_call" where
  "skel_link_create pfd tfd at = Link_create pfd tfd at"

text \<open>\<open>skel_closenz\<close>: a close of a positive descriptor, an error otherwise.\<close>

definition skel_closenz :: "(int \<Rightarrow> int) \<Rightarrow> int \<Rightarrow> int \<times> sys_call list" where
  "skel_closenz close fd = (if fd > 0 then (close fd, [Close fd]) else (- EINVAL, []))"

section \<open>Load and run\<close>

record loader_opts =
  opts_data :: u64
  opts_insns :: u64
  data_sz :: u32
  insns_sz :: u32
  ctx_sz :: u32
  ctx_log_level :: u32

record kernel_answers =
  create_ret :: int
  create_errno :: int
  update_ret :: int
  update_errno :: int
  load_ret :: int
  load_errno :: int
  run_ret :: int
  run_errno :: int
  run_retval :: int

record load_result =
  res_err :: int
  res_errstr :: "string option"
  res_calls :: "sys_call list"

definition loader_map_name :: bytes where
  "loader_map_name = map (\<lambda>c. of_nat (of_char c)) ''__loader.map''"

text \<open>In user space \<open>set_err\<close> replaces the error by the negated \<open>errno\<close>; in the kernel it does
  nothing.\<close>

definition set_err :: "bool \<Rightarrow> int \<Rightarrow> int \<Rightarrow> int" where
  "set_err in_kernel errno err = (if in_kernel then err else - errno)"

definition finish :: "int \<Rightarrow> int \<Rightarrow> int \<Rightarrow> string option \<Rightarrow> sys_call list \<Rightarrow> load_result" where
  "finish map_fd prog_fd err errstr calls =
     \<lparr>res_err = err, res_errstr = errstr,
      res_calls = calls @ (if map_fd \<ge> 0 then [Close map_fd] else []) @
        (if prog_fd \<ge> 0 then [Close prog_fd] else [])\<rparr>"

definition bpf_load_and_run :: "bool \<Rightarrow> loader_opts \<Rightarrow> kernel_answers \<Rightarrow> load_result" where
  "bpf_load_and_run in_kernel opts k =
     (let map_fd = create_ret k;
          calls = [skel_map_create BPF_MAP_TYPE_ARRAY loader_map_name 4 (data_sz opts) 1]
      in if map_fd < 0
      then finish map_fd (- 1) (set_err in_kernel (create_errno k) map_fd) (Some ''failed to create loader map'') calls
      else
        let err = update_ret k; calls = calls @ [skel_map_update_elem map_fd 0 (opts_data opts) 0]
        in if err < 0
        then finish map_fd (- 1) (set_err in_kernel (update_errno k) err) (Some ''failed to update loader map'') calls
        else
          let prog_fd = load_ret k;
              calls = calls @ [Prog_load (opts_insns opts) (insns_sz opts div 8) map_fd (ctx_log_level opts)]
          in if prog_fd < 0
          then finish map_fd prog_fd (set_err in_kernel (load_errno k) prog_fd) (Some ''failed to load loader prog'') calls
          else
            let err = run_ret k; calls = calls @ [Prog_run prog_fd (ctx_sz opts)]
            in if err < 0 \<or> run_retval k < 0
            then finish map_fd prog_fd
              (if err < 0 then set_err in_kernel (run_errno k) err else run_retval k)
              (Some ''failed to execute loader prog'') calls
            else finish map_fd prog_fd 0 None calls)"

section \<open>Descriptors\<close>

text \<open>The descriptors a run opened, in order, and those it closed.\<close>

definition opened :: "kernel_answers \<Rightarrow> int list" where
  "opened k = (if create_ret k < 0 then []
     else create_ret k # (if update_ret k < 0 \<or> load_ret k < 0 then [] else [load_ret k]))"

fun closed :: "sys_call list \<Rightarrow> int list" where
  "closed [] = []"
| "closed (Close fd # cs) = fd # closed cs"
| "closed (c # cs) = closed cs"

fun is_close :: "sys_call \<Rightarrow> bool" where
  "is_close (Close fd) = True"
| "is_close c = False"

text \<open>All work comes before the first close.\<close>

definition closes_last :: "sys_call list \<Rightarrow> bool" where
  "closes_last cs \<longleftrightarrow> (\<forall>c \<in> set (dropWhile (\<lambda>c. \<not> is_close c) cs). is_close c)"

lemmas load_defs = bpf_load_and_run_def finish_def skel_map_create_def skel_map_update_elem_def Let_def

section \<open>Properties\<close>

text \<open>C37. Whatever the kernel answers, as long as \<open>errno\<close> is positive after a failed call in user space, the loader closes
  exactly the descriptors it opened, each once, in the order it opened them and after its last other call. It
  returns zero exactly when the four calls and the loaded program succeeded, sets an error text exactly when
  it does not return zero, and never returns a positive number.\<close>

theorem skel_closes_what_it_opens:
  assumes "r = bpf_load_and_run in_kernel opts k"
    and "\<not> in_kernel \<Longrightarrow> (create_ret k < 0 \<longrightarrow> 0 < create_errno k) \<and> (update_ret k < 0 \<longrightarrow> 0 < update_errno k) \<and>
      (load_ret k < 0 \<longrightarrow> 0 < load_errno k) \<and> (run_ret k < 0 \<longrightarrow> 0 < run_errno k)"
  shows "closed (res_calls r) = opened k \<and> closes_last (res_calls r) \<and>
    (res_err r = 0 \<longleftrightarrow> res_errstr r = None) \<and> res_err r \<le> 0 \<and>
    (res_err r = 0 \<longleftrightarrow> create_ret k \<ge> 0 \<and> update_ret k \<ge> 0 \<and> load_ret k \<ge> 0 \<and> run_ret k \<ge> 0 \<and> run_retval k \<ge> 0)"
  using assms
  by (cases in_kernel; cases "create_ret k < 0"; cases "update_ret k < 0"; cases "load_ret k < 0";
      cases "run_ret k < 0"; cases "run_retval k < 0")
    (simp_all add: load_defs opened_def closes_last_def set_err_def)

theorem skel_closes_what_it_opens_witness:
  "closed (res_calls (bpf_load_and_run False \<lparr>opts_data = 0, opts_insns = 0, data_sz = 8, insns_sz = 16,
       ctx_sz = 24, ctx_log_level = 0\<rparr> \<lparr>create_ret = 3, create_errno = 1, update_ret = 0, update_errno = 1,
       load_ret = 4, load_errno = 1, run_ret = 0, run_errno = 1, run_retval = - 22\<rparr>)) = [3, 4]"
proof -
  let ?k = "\<lparr>create_ret = 3, create_errno = 1, update_ret = 0, update_errno = 1, load_ret = 4,
    load_errno = 1, run_ret = 0, run_errno = 1, run_retval = - 22\<rparr>"
  have "(create_ret ?k < 0 \<longrightarrow> 0 < create_errno ?k) \<and> (update_ret ?k < 0 \<longrightarrow> 0 < update_errno ?k) \<and>
      (load_ret ?k < 0 \<longrightarrow> 0 < load_errno ?k) \<and> (run_ret ?k < 0 \<longrightarrow> 0 < run_errno ?k)" by simp
  from skel_closes_what_it_opens [OF refl this] show ?thesis by (simp add: opened_def)
qed

end
