(* ===== verification/Futex_History.thy ===== *)
theory Futex_History
  imports Futexsnoop
begin

text \<open>
  What the records of \<open>futexsnoop.bpf.c\<close> say about the run that led to them. The element of a thread in the start map
  goes back to its last traced wait, a lock record to the entry that sent it, and a wait record to the
  entry and the exit of one wait.
\<close>

section \<open>The history of a thread\<close>

text \<open>An entry that is traced: a wait that passes the filters.\<close>

definition traced :: "user_args \<Rightarrow> bpf_env \<Rightarrow> syscall_trace_enter \<Rightarrow> bool" where
  "traced args env ctx \<longleftrightarrow> ucast (ctx_arg ctx 1) AND FUTEX_CMD_MASK = FUTEX_WAIT \<and>
     \<not> futex_filtered args (env_tgid env) (env_pid env) (ctx_arg ctx 0)"

text \<open>The events that change the start record of a thread.\<close>

fun touches :: "user_args \<Rightarrow> u64 \<Rightarrow> futex_ev \<Rightarrow> bool" where
  "touches args t (Enter env ctx) \<longleftrightarrow> bpf_get_current_pid_tgid env = t \<and> traced args env ctx"
| "touches args t (Exit env ret) \<longleftrightarrow> bpf_get_current_pid_tgid env = t"

text \<open>\<open>v\<close> was stored by the last event of \<open>es\<close> that touches \<open>t\<close>, the entry of a traced wait.\<close>

definition entered_by :: "user_args \<Rightarrow> futex_ev list \<Rightarrow> u64 \<Rightarrow> val_t \<Rightarrow> bool" where
  "entered_by args es t v \<longleftrightarrow> (\<exists>pre env ctx mid. es = pre @ [Enter env ctx] @ mid \<and> traced args env ctx \<and>
     bpf_get_current_pid_tgid env = t \<and> v = \<lparr>val_ts = env_ktime env, val_uaddr = ctx_arg ctx 0\<rparr> \<and>
     (\<forall>e \<in> set mid. \<not> touches args t e))"

definition lock_origin :: "user_args \<Rightarrow> futex_ev list \<Rightarrow> lock_stat \<Rightarrow> bool" where
  "lock_origin args es lk \<longleftrightarrow> (\<exists>pre env ctx post. es = pre @ [Enter env ctx] @ post \<and> traced args env ctx \<and>
     lock_uaddr lk = ctx_arg ctx 0 \<and> lock_pid_tgid lk = bpf_get_current_pid_tgid env \<and> lock_ts lk = env_ktime env \<and>
     lock_comm lk = bpf_get_current_comm TASK_COMM_LEN env \<and> max_lock_hold_users args < max_user_cnt lk)"

text \<open>The two limits are compared with microseconds.\<close>

definition wait_between ::
    "user_args \<Rightarrow> bpf_env \<Rightarrow> syscall_trace_enter \<Rightarrow> futex_ev list \<Rightarrow> bpf_env \<Rightarrow> syscall_trace_exit \<Rightarrow> hist \<Rightarrow> bool" where
  "wait_between args env ctx mid env' ret h \<longleftrightarrow> traced args env ctx \<and>
     bpf_get_current_pid_tgid env' = bpf_get_current_pid_tgid env \<and>
     (\<forall>e \<in> set mid. \<not> touches args (bpf_get_current_pid_tgid env) e) \<and>
     0 \<le> sint (ucast ret :: s32) \<and> 0 \<le> sint (env_ktime env' - env_ktime env) \<and>
     hist_pid_tgid h = bpf_get_current_pid_tgid env \<and> hist_uaddr h = ctx_arg ctx 0 \<and>
     hist_comm h = bpf_get_current_comm TASK_COMM_LEN env' \<and>
     delta_dur h = (env_ktime env' - env_ktime env) div 1000 \<and>
     uint (min_dur_ms args) < uint (delta_dur h) \<and> uint (delta_dur h) < uint (max_dur_ms args) \<and>
     total_elapsed h div contended h < delta_dur h"

definition wait_origin :: "user_args \<Rightarrow> futex_ev list \<Rightarrow> hist \<Rightarrow> bool" where
  "wait_origin args es h \<longleftrightarrow> (\<exists>pre env ctx mid env' ret post.
     es = pre @ [Enter env ctx] @ mid @ [Exit env' ret] @ post \<and> wait_between args env ctx mid env' ret h)"

fun origin :: "user_args \<Rightarrow> futex_ev list \<Rightarrow> futex_event \<Rightarrow> bool" where
  "origin args es (Lock_event lk) \<longleftrightarrow> lock_origin args es lk"
| "origin args es (Hist_event h) \<longleftrightarrow> wait_origin args es h"

definition history_inv :: "user_args \<Rightarrow> futex_ev list \<Rightarrow> futex_state \<Rightarrow> bool" where
  "history_inv args es s \<longleftrightarrow> args_ready s \<and> args_map s ! 0 = args \<and> hash_wf (start s) \<and>
     (\<forall>t v. bpf_map_lookup_elem (start s) t = Some v \<longrightarrow> entered_by args es t v) \<and>
     (\<forall>l lk. bpf_map_lookup_elem (lock_map s) l = Some lk \<longrightarrow> lock_uaddr lk = l) \<and>
     list_all (origin args es) (perf_out s)"

section \<open>The invariant over a run\<close>

lemma entered_by_more: "entered_by args es t v \<Longrightarrow> \<not> touches args t e \<Longrightarrow> entered_by args (es @ [e]) t v"
proof -
  assume "entered_by args es t v" and e: "\<not> touches args t e"
  then obtain pre env ctx mid where m: "es = pre @ [Enter env ctx] @ mid" "traced args env ctx"
    "bpf_get_current_pid_tgid env = t" "v = \<lparr>val_ts = env_ktime env, val_uaddr = ctx_arg ctx 0\<rparr>"
    "\<forall>e \<in> set mid. \<not> touches args t e"
    unfolding entered_by_def by blast
  then show ?thesis
    unfolding entered_by_def using e
    by (intro exI [of _ pre] exI [of _ env] exI [of _ ctx] exI [of _ "mid @ [e]"]) auto
qed

lemma entered_by_last:
  assumes "traced args env ctx"
  shows "entered_by args (es @ [Enter env ctx]) (bpf_get_current_pid_tgid env) \<lparr>val_ts = env_ktime env, val_uaddr = ctx_arg ctx 0\<rparr>"
  unfolding entered_by_def using assms by (intro exI [of _ es] exI [of _ env] exI [of _ ctx] exI [of _ "[]"]) simp

lemma origin_more: "origin args es ev \<Longrightarrow> origin args (es @ [e]) ev"
proof (cases ev)
  case (Lock_event lk)
  assume "origin args es ev"
  with Lock_event obtain pre env ctx post where "es = pre @ [Enter env ctx] @ post"
    "traced args env ctx \<and> lock_uaddr lk = ctx_arg ctx 0 \<and> lock_pid_tgid lk = bpf_get_current_pid_tgid env \<and> lock_ts lk = env_ktime env \<and>
     lock_comm lk = bpf_get_current_comm TASK_COMM_LEN env \<and> max_lock_hold_users args < max_user_cnt lk"
    by (auto simp: lock_origin_def)
  then show ?thesis
    unfolding Lock_event origin.simps lock_origin_def
    by (intro exI [of _ pre] exI [of _ env] exI [of _ ctx] exI [of _ "post @ [e]"]) simp
next
  case (Hist_event h)
  assume "origin args es ev"
  with Hist_event obtain pre env ctx mid env' ret post where
    m: "es = pre @ [Enter env ctx] @ mid @ [Exit env' ret] @ post" "wait_between args env ctx mid env' ret h"
    by (auto simp: wait_origin_def)
  then show ?thesis
    unfolding Hist_event origin.simps wait_origin_def
    by (intro exI [of _ pre] exI [of _ env] exI [of _ ctx] exI [of _ mid] exI [of _ env'] exI [of _ ret] exI [of _ "post @ [e]"]) simp
qed

lemma origins_more: "list_all (origin args es) evs \<Longrightarrow> list_all (origin args (es @ [e])) evs"
  by (auto simp: list_all_iff intro: origin_more)

text \<open>Entering a wait.\<close>

lemma futex_enter_untraced:
  assumes "args_ready s" and "\<not> traced (args_map s ! 0) env ctx"
  shows "futex_enter env ctx s = s"
  using args_ready_lookup [OF assms(1)] assms(2) by (auto simp: futex_enter_def traced_def Let_def)

lemma futex_enter_traced:
  assumes "args_ready s" and "traced (args_map s ! 0) env ctx"
  defines "l \<equiv> ctx_arg ctx 0" and "t \<equiv> bpf_get_current_pid_tgid env"
  shows "start (futex_enter env ctx s) =
      snd (bpf_map_update_elem (start s) t \<lparr>val_ts = env_ktime env, val_uaddr = l\<rparr> BPF_ANY)"
    and "lock_map (futex_enter env ctx s) = (case bpf_map_lookup_elem (lock_map s) l of
        Some lk \<Rightarrow> elem_write (lock_map s) l lock_enter
      | None \<Rightarrow> snd (bpf_map_update_elem (lock_map s) l (lock_init l) BPF_ANY))"
    and "perf_out (futex_enter env ctx s) = perf_out s @ (case bpf_map_lookup_elem (lock_map s) l of
        None \<Rightarrow> []
      | Some lk \<Rightarrow> if max_user_cnt (lock_enter lk) > max_lock_hold_users (args_map s ! 0)
          then [Lock_event ((lock_enter lk)\<lparr>lock_pid_tgid := t, lock_ts := env_ktime env,
            lock_comm := bpf_get_current_comm TASK_COMM_LEN env\<rparr>)] else [])"
  using args_ready_lookup [OF assms(1)] assms(2)
  by (auto simp: futex_enter_def traced_def Let_def l_def t_def bpf_ktime_get_ns_def split: option.splits)

lemma history_enter:
  assumes inv: "history_inv args es s"
  shows "history_inv args (es @ [Enter env ctx]) (futex_enter env ctx s)"
proof -
  let ?t = "bpf_get_current_pid_tgid env" and ?l = "ctx_arg ctx 0" and ?s = "futex_enter env ctx s"
  have ready: "args_ready s" and args: "args_map s ! 0 = args" and wf: "hash_wf (start s)"
    and start: "\<And>t v. bpf_map_lookup_elem (start s) t = Some v \<Longrightarrow> entered_by args es t v"
    and locks: "\<And>l lk. bpf_map_lookup_elem (lock_map s) l = Some lk \<Longrightarrow> lock_uaddr lk = l"
    and out: "list_all (origin args es) (perf_out s)"
    using inv by (simp_all add: history_inv_def)
  show ?thesis
  proof (cases "traced args env ctx")
    case True
    note e = futex_enter_traced [OF ready, of env ctx, unfolded args, OF True]
    have "entered_by args (es @ [Enter env ctx]) k v" if "bpf_map_lookup_elem (start ?s) k = Some v" for k v
    proof (cases "k = ?t")
      case True
      have "v = \<lparr>val_ts = env_ktime env, val_uaddr = ?l\<rparr> \<or> bpf_map_lookup_elem (start s) ?t = Some v \<and>
          fst (bpf_map_update_elem (start s) ?t \<lparr>val_ts = env_ktime env, val_uaddr = ?l\<rparr> BPF_ANY) \<noteq> 0"
        using that by (auto simp: e(1) True map_laws split: if_splits)
      then show ?thesis
        using entered_by_last [OF \<open>traced args env ctx\<close>] True hash.update_hit [of "start s" ?t v] by auto
    next
      case False
      then have "bpf_map_lookup_elem (start s) k = Some v" using that by (simp add: e(1) map_laws split: if_splits)
      from entered_by_more [OF start [OF this]] False show ?thesis by simp
    qed
    moreover have "lock_uaddr lk = l" if "bpf_map_lookup_elem (lock_map ?s) l = Some lk" for l lk
      using that locks
      by (auto simp: e(2) map_laws lock_init_def lock_enter_def Let_def split: option.splits if_splits)
    moreover have "lock_origin args (es @ [Enter env ctx]) ((lock_enter lk)\<lparr>lock_pid_tgid := ?t, lock_ts := env_ktime env,
            lock_comm := bpf_get_current_comm TASK_COMM_LEN env\<rparr>)"
      if "bpf_map_lookup_elem (lock_map s) ?l = Some lk" "max_lock_hold_users args < max_user_cnt (lock_enter lk)" for lk
      unfolding lock_origin_def using True that locks [OF that(1)]
      by (intro exI [of _ es] exI [of _ env] exI [of _ ctx] exI [of _ "[]"]) (simp, simp add: lock_enter_def Let_def)
    then have "list_all (origin args (es @ [Enter env ctx])) (perf_out ?s)"
      using origins_more [OF out] by (simp add: e(3) args split: option.split)
    ultimately show ?thesis
      using ready args futex_enter_wf [OF wf] by (simp add: history_inv_def args_ready_def)
  next
    case False
    then have "\<not> touches args t (Enter env ctx)" for t by simp
    with False show ?thesis
      using inv start entered_by_more origins_more [OF out]
      by (simp add: futex_enter_untraced [OF ready] args history_inv_def)
  qed
qed

text \<open>Leaving a wait.\<close>

lemma wait_fields:
  "hist_pid_tgid (hist_report k d h) = hkey_pid_tgid k" "hist_uaddr (hist_report k d h) = hkey_uaddr k"
  "delta_dur (hist_report k d h) = d" "hist_comm (hist_report k d h) = hist_comm h"
  "total_elapsed (hist_report k d h) = total_elapsed h" "contended (hist_report k d h) = contended h"
  "hist_comm (hist_account amd env ts d h) = bpf_get_current_comm TASK_COMM_LEN env"
  by (simp_all add: hist_report_def hist_account_def)

lemma sint_div_1000: fixes w :: u64 assumes "0 \<le> sint w" shows "sint (w div 1000) = uint (w div 1000)"
proof -
  have "uint w < 2 ^ 63" using sint_nonneg_uint [OF assms] sint_lt [of w] by simp
  then have "uint (w div 1000) < 2 ^ 63" by (simp add: uint_div)
  moreover have "- (2 ^ 63) \<le> uint (w div 1000)" by (rule order_trans [OF _ uint_ge_0]) simp
  ultimately show ?thesis unfolding sint_uint by (intro signed_take_bit_int_eq_self) auto
qed

lemma history_wait:
  assumes v: "entered_by args es (bpf_get_current_pid_tgid env) v"
    and ret: "0 \<le> sint (ucast ret :: s32)" and fwd: "0 \<le> sint (env_ktime env - val_ts v)"
    and win: "in_window args (hist_account amd env ts d h) d" and d: "d = wait_us env v"
  shows "wait_origin args (es @ [Exit env ret]) (hist_report (exit_key env args v) d (hist_account amd env ts d h))"
proof -
  obtain pre env0 ctx mid where e: "es = pre @ [Enter env0 ctx] @ mid" "traced args env0 ctx"
    "bpf_get_current_pid_tgid env0 = bpf_get_current_pid_tgid env" "v = \<lparr>val_ts = env_ktime env0, val_uaddr = ctx_arg ctx 0\<rparr>"
    "\<forall>e \<in> set mid. \<not> touches args (bpf_get_current_pid_tgid env) e"
    using v unfolding entered_by_def by metis
  have fields: "0 \<le> sint (env_ktime env - env_ktime env0)" "d = (env_ktime env - env_ktime env0) div 1000"
    using fwd d by (simp_all add: e(4) wait_us_def)
  have "sint d = uint d" using sint_div_1000 [OF fields(1)] fields(2) by simp
  then have "wait_between args env0 ctx mid env ret (hist_report (exit_key env args v) d (hist_account amd env ts d h))"
    unfolding wait_between_def wait_fields
    using e ret win fields by (simp add: in_window_def exit_key_def)
  then show ?thesis
    unfolding wait_origin_def
    by (intro exI [of _ pre] exI [of _ env0] exI [of _ ctx] exI [of _ mid] exI [of _ env] exI [of _ ret] exI [of _ "[]"]) (simp add: e(1))
qed

lemma history_recorded:
  assumes inv: "history_inv args es s"
    and vp: "bpf_map_lookup_elem (start s) (bpf_get_current_pid_tgid env) = Some vp"
    and ret: "0 \<le> sint (ucast ret :: s32)" and fwd: "0 \<le> sint (env_ktime env - val_ts vp)"
  shows "list_all (origin args (es @ [Exit env ret])) (perf_out (futex_record amd env args
      (exit_key env args vp) (env_ktime env) (env_ktime env - val_ts vp) s))"
proof -
  have out: "list_all (origin args (es @ [Exit env ret])) (perf_out s)" and v: "entered_by args es (bpf_get_current_pid_tgid env) vp"
    using inv vp origins_more by (auto simp: history_inv_def)
  have d: "c_sdiv (env_ktime env - val_ts vp) 1000 = wait_us env vp"
    using fwd by (simp add: c_sdiv_nonneg wait_us_def)
  show ?thesis
    by (cases rule: futex_record_cases [where s = s and hkey = "exit_key env args vp" and amd = amd and env = env
          and args = args and ts = "env_ktime env" and delta = "env_ktime env - val_ts vp"])
      (use out history_wait [OF v ret fwd _ refl] in \<open>auto simp: d\<close>)
qed

lemma history_exit:
  assumes inv: "history_inv args es s"
  shows "history_inv args (es @ [Exit env ret]) (futex_exit amd env ret s)"
proof -
  let ?t = "bpf_get_current_pid_tgid env" and ?s = "futex_exit amd env ret s"
  have ready: "args_ready s" and args: "args_map s ! 0 = args" and wf: "hash_wf (start s)"
    and start: "\<And>t v. bpf_map_lookup_elem (start s) t = Some v \<Longrightarrow> entered_by args es t v"
    and locks: "\<And>l lk. bpf_map_lookup_elem (lock_map s) l = Some lk \<Longrightarrow> lock_uaddr lk = l"
    and out: "list_all (origin args es) (perf_out s)"
    using inv by (simp_all add: history_inv_def)
  have "entered_by args (es @ [Exit env ret]) k v" if "bpf_map_lookup_elem (start ?s) k = Some v" for k v
  proof -
    have "bpf_map_lookup_elem (start s) k = Some v" "k \<noteq> ?t"
      using that wf by (auto simp: futex_exit_start [OF ready] map_laws split: option.splits if_splits)
    from entered_by_more [OF start [OF this(1)]] this(2) show ?thesis by simp
  qed
  moreover have "lock_uaddr lk = l" if "bpf_map_lookup_elem (lock_map ?s) l = Some lk" for l lk
    using that locks by (auto simp: futex_exit_locks map_laws lock_exit_def split: option.splits if_splits)
  moreover have "list_all (origin args (es @ [Exit env ret])) (perf_out ?s)"
    by (cases rule: futex_exit_cases [OF ready, of amd env ret])
      (use origins_more [OF out] history_recorded [OF inv, of env _ ret amd] args in auto)
  ultimately show ?thesis
    using ready args futex_exit_wf [OF ready wf] by (simp add: history_inv_def args_ready_def)
qed

lemma futex_history_run: "history_inv args es (run (futex_step amd) es (futex_init args))"
proof (induction es rule: rev_induct)
  case Nil
  show ?case by (simp add: history_inv_def futex_init_def args_ready_def)
next
  case (snoc e es)
  then show ?case by (cases e) (simp_all add: run_append history_enter history_exit)
qed

section \<open>Properties\<close>

text \<open>C31. Every record in the perf buffer goes back to real calls. A lock record was sent by the entry of a traced wait on that
  lock, with its thread, clock and name, and the maximal number of users exceeds the limit. A wait record comes
  from one traced wait, from its entry to the next exit of the same thread, which returned without error; it
  names the thread, its name and the lock, and its length in microseconds lies strictly between the two configured numbers
  and above the running average. The configured numbers are documented as milliseconds: when the upper one
  is at most 1000 times the lower one, as with the default 1000 and 1000000, no recorded wait is as long
  as the documented minimum.\<close>

theorem futex_reports_originate:
  assumes "ev \<in> set (perf_out (run (futex_step amd) es (futex_init args)))"
  shows "case ev of
      Lock_event lk \<Rightarrow> \<exists>pre env ctx post. es = pre @ [Enter env ctx] @ post \<and> traced args env ctx \<and>
        lock_uaddr lk = ctx_arg ctx 0 \<and> lock_pid_tgid lk = bpf_get_current_pid_tgid env \<and> lock_ts lk = env_ktime env \<and>
        lock_comm lk = bpf_get_current_comm TASK_COMM_LEN env \<and> max_lock_hold_users args < max_user_cnt lk
    | Hist_event h \<Rightarrow>
        (\<exists>pre env ctx mid env' ret post. es = pre @ [Enter env ctx] @ mid @ [Exit env' ret] @ post \<and>
           traced args env ctx \<and> bpf_get_current_pid_tgid env' = bpf_get_current_pid_tgid env \<and>
           (\<forall>e \<in> set mid. \<not> touches args (bpf_get_current_pid_tgid env) e) \<and> 0 \<le> sint (ucast ret :: s32) \<and>
           hist_pid_tgid h = bpf_get_current_pid_tgid env \<and> hist_uaddr h = ctx_arg ctx 0 \<and>
           hist_comm h = bpf_get_current_comm TASK_COMM_LEN env' \<and>
           delta_dur h = (env_ktime env' - env_ktime env) div 1000) \<and>
        uint (min_dur_ms args) < uint (delta_dur h) \<and> uint (delta_dur h) < uint (max_dur_ms args) \<and>
        total_elapsed h div contended h < delta_dur h \<and>
        (uint (max_dur_ms args) \<le> 1000 * uint (min_dur_ms args) \<longrightarrow> uint (delta_dur h) < 1000 * uint (min_dur_ms args))"
proof -
  have o: "origin args es ev" using futex_history_run [of args es amd] assms by (auto simp: history_inv_def list_all_iff)
  show ?thesis
  proof (cases ev)
    case (Lock_event lk)
    with o show ?thesis by (simp add: lock_origin_def)
  next
    case (Hist_event h)
    with o obtain pre env ctx mid env' ret post where
      m: "es = pre @ [Enter env ctx] @ mid @ [Exit env' ret] @ post" "wait_between args env ctx mid env' ret h"
      by (auto simp: wait_origin_def)
    note w = m(2) [unfolded wait_between_def]
    have "\<exists>pre env ctx mid env' ret post. es = pre @ [Enter env ctx] @ mid @ [Exit env' ret] @ post \<and>
           traced args env ctx \<and> bpf_get_current_pid_tgid env' = bpf_get_current_pid_tgid env \<and>
           (\<forall>e \<in> set mid. \<not> touches args (bpf_get_current_pid_tgid env) e) \<and> 0 \<le> sint (ucast ret :: s32) \<and>
           hist_pid_tgid h = bpf_get_current_pid_tgid env \<and> hist_uaddr h = ctx_arg ctx 0 \<and>
           hist_comm h = bpf_get_current_comm TASK_COMM_LEN env' \<and>
           delta_dur h = (env_ktime env' - env_ktime env) div 1000"
      using m(1) w
      by (intro exI [of _ pre] exI [of _ env] exI [of _ ctx] exI [of _ mid] exI [of _ env'] exI [of _ ret] exI [of _ post]) blast
    moreover have "uint (min_dur_ms args) < uint (delta_dur h)" "uint (delta_dur h) < uint (max_dur_ms args)"
      "total_elapsed h div contended h < delta_dur h"
      using w by blast+
    ultimately show ?thesis using Hist_event by simp
  qed
qed

text \<open>A lock with two users is reported at the second entry; a wait of 5000 microseconds after one of 1000 under the limits 1000
  and 1000000.\<close>

definition sample_waits :: "futex_ev list" where
  "sample_waits = [Enter (sample_env 8 1000) [64, 128], Exit (sample_env 8 1001000) 0,
     Enter (sample_env 8 2000000) [64, 128], Exit (sample_env 8 7000000) 0]"

lemma sample_waits_out:
  "map (case_futex_event (\<lambda>lk. 0) delta_dur) (perf_out (run (futex_step False) sample_waits (futex_init sample_args))) = [5000]"
  by code_simp

theorem futex_reports_originate_witness:
  "\<exists>h. perf_out (run (futex_step False) sample_waits (futex_init sample_args)) = [Hist_event h] \<and>
     uint (delta_dur h) < 1000 * uint (min_dur_ms sample_args)"
proof -
  obtain h where h: "perf_out (run (futex_step False) sample_waits (futex_init sample_args)) = [Hist_event h]"
    using sample_waits_out by (auto split: futex_event.splits)
  then have "Hist_event h \<in> set (perf_out (run (futex_step False) sample_waits (futex_init sample_args)))" by simp
  from futex_reports_originate [OF this] h show ?thesis by (simp add: sample_args_def)
qed

end
