(* ===== verification/Interleave.thy ===== *)
theory Interleave
  imports Prelude
begin

text \<open>
  Handlers that run on several threads at the same time. A handler is a program counter with the local
  variables it still needs, and makes one access to the shared state at a time. The locale \<open>stepped\<close> holds
  what any such program shares: a handler nothing interrupts makes its accesses in a row and leaves
  the other threads as they were. \<open>racy_counter\<close> bounds counters that are loaded and stored;
  \<open>linearized\<close> turns interleaved operations into whole ones.
\<close>

record ('h, 's) conc =
  shared :: 's
  handlers :: "u64 \<Rightarrow> 'h"

text \<open>The next access of a thread.\<close>

definition access :: "('h \<Rightarrow> 's \<Rightarrow> 'h \<times> 's) \<Rightarrow> u64 \<Rightarrow> ('h, 's) conc \<Rightarrow> ('h, 's) conc" where
  "access adv t r = (let (h, s) = adv (handlers r t) (shared r)
     in r\<lparr>shared := s, handlers := (handlers r)(t := h)\<rparr>)"

text \<open>A handler starts on a thread that runs none.\<close>

lemma begin_shape:
  assumes "r' = (if handlers r t \<noteq> idle then r else r\<lparr>handlers := (handlers r)(t := h)\<rparr>)" and "P h"
  shows "r' = r \<or> (\<exists>t h. handlers r t = idle \<and> P h \<and> r' = r\<lparr>handlers := (handlers r)(t := h)\<rparr>)"
  using assms by (cases "handlers r t = idle") auto

text \<open>Several accesses of one handler in a row.\<close>

primrec advances :: "('h \<Rightarrow> 's \<Rightarrow> 'h \<times> 's) \<Rightarrow> nat \<Rightarrow> 'h \<Rightarrow> 's \<Rightarrow> 'h \<times> 's" where
  "advances adv 0 h s = (h, s)"
| "advances adv (Suc n) h s = (case adv h s of (h', s') \<Rightarrow> advances adv n h' s')"

lemma advances_add: "advances adv (m + n) h s = (case advances adv m h s of (h', s') \<Rightarrow> advances adv n h' s')"
  by (induction m arbitrary: h s) (simp_all split: prod.split)

locale stepped =
  fixes adv :: "'h \<Rightarrow> 's \<Rightarrow> 'h \<times> 's"
    and idle :: 'h
    and step :: "'ev \<Rightarrow> ('h, 's) conc \<Rightarrow> ('h, 's) conc"
    and tick :: "u64 \<Rightarrow> 'ev"
  assumes step_tick: "step (tick t) r = access adv t r"
    and adv_idle: "adv idle s = (idle, s)"
begin

lemma advances_idle: "advances adv n idle s = (idle, s)"
  by (induction n) (simp_all add: adv_idle)

lemma advances_more:
  assumes "advances adv m h s = (idle, s')" and "m \<le> n"
  shows "advances adv n h s = (idle, s')"
  using advances_add [of adv m "n - m" h s] assms by (simp add: advances_idle)

lemma run_ticks:
  "run step (replicate n (tick t)) r =
     (case advances adv n (handlers r t) (shared r) of
        (h, s) \<Rightarrow> r\<lparr>shared := s, handlers := (handlers r)(t := h)\<rparr>)"
  by (induction n arbitrary: r) (auto simp: step_tick access_def split: prod.split)

lemma run_alone:
  assumes "handlers r t = idle" and "advances adv n h s = (idle, s')"
  shows "run step (replicate n (tick t)) (r\<lparr>shared := s, handlers := (handlers r)(t := h)\<rparr>) = r\<lparr>shared := s'\<rparr>"
proof -
  have "(handlers r)(t := idle) = handlers r" using assms(1) by (simp add: fun_upd_idem)
  then show ?thesis using assms(2) by (simp add: run_ticks)
qed

end

section \<open>Counters without atomic increments\<close>

text \<open>
  A counter of one key that handlers create with the value one, or load and later store
  incremented. Two handlers that load the same value lose an increment; no schedule makes the
  counter larger than the number of operations on it. \<open>mine\<close> tells the handlers that work on the key,
  \<open>loaded\<close> the value a handler is about to store incremented, \<open>base\<close> what the program never changes.
\<close>

locale racy_counter = stepped adv idle step tick
  for adv :: "'h \<Rightarrow> 's \<Rightarrow> 'h \<times> 's" and idle :: 'h
    and step :: "'ev \<Rightarrow> ('h, 's) conc \<Rightarrow> ('h, 's) conc" and tick :: "u64 \<Rightarrow> 'ev" +
  fixes base :: "'s \<Rightarrow> bool"
    and cnt :: "'s \<Rightarrow> nat option"
    and mine :: "'h \<Rightarrow> bool"
    and loaded :: "'h \<Rightarrow> nat option"
    and begins :: "'ev \<Rightarrow> bool"
    and bound :: nat
  assumes mine_idle: "\<not> mine idle"
    and loaded_mine: "loaded h = Some n \<Longrightarrow> mine h"
    and adv_base: "base s \<Longrightarrow> adv h s = (h', s') \<Longrightarrow> base s'"
    and adv_cases: "adv h s = (h', s') \<Longrightarrow> (\<And>n. loaded h = Some n \<Longrightarrow> Suc n < bound) \<Longrightarrow>
      cnt s' = cnt s \<and> mine h' = mine h \<and> loaded h' \<in> {None, loaded h, cnt s} \<or>
      mine h \<and> \<not> mine h' \<and> cnt s' \<in> {Some 1, cnt s, map_option Suc (loaded h)}"
    and begin_cases: "base (shared r) \<Longrightarrow> (\<exists>t. e = tick t) \<or> step e r = r \<or>
      (\<exists>t h. handlers r t = idle \<and> (loaded h = None \<and> (mine h \<longrightarrow> begins e)) \<and>
        step e r = r\<lparr>handlers := (handlers r)(t := h)\<rparr>)"
begin

definition at_work :: "('h, 's) conc \<Rightarrow> u64 set" where
  "at_work r = {t. mine (handlers r t)}"

text \<open>After \<open>n\<close> operations have begun: \<open>d\<close> of them have ended, and neither the counter nor a loaded value
  is above that.\<close>

definition count_inv :: "nat \<Rightarrow> ('h, 's) conc \<Rightarrow> bool" where
  "count_inv n r \<longleftrightarrow> base (shared r) \<and> finite (at_work r) \<and> (\<exists>d. d + card (at_work r) \<le> n \<and>
     (\<forall>m. cnt (shared r) = Some m \<longrightarrow> 0 < m \<and> m \<le> d) \<and> (\<forall>t m. loaded (handlers r t) = Some m \<longrightarrow> m \<le> d))"

lemma count_invI:
  assumes "base (shared r)" "finite (at_work r)" "d + card (at_work r) \<le> n"
    "\<And>m. cnt (shared r) = Some m \<Longrightarrow> 0 < m \<and> m \<le> d" "\<And>t m. loaded (handlers r t) = Some m \<Longrightarrow> m \<le> d"
  shows "count_inv n r"
  using assms unfolding count_inv_def by (intro conjI exI [of _ d]) auto

lemma count_inv_more: "count_inv n r \<Longrightarrow> n \<le> n' \<Longrightarrow> count_inv n' r"
  unfolding count_inv_def by (meson order.trans)

lemma at_work_upd: "at_work (r\<lparr>shared := s, handlers := (handlers r)(t := h)\<rparr>) =
    (if mine h then insert t (at_work r) else at_work r - {t})"
  by (auto simp: at_work_def)

lemma count_inv_tick:
  assumes inv: "count_inv n r" and n: "n < bound"
  shows "count_inv n (step (tick t) r)"
proof -
  obtain h s where hs: "adv (handlers r t) (shared r) = (h, s)" by fastforce
  let ?r = "r\<lparr>shared := s, handlers := (handlers r)(t := h)\<rparr>"
  from inv obtain d where d: "d + card (at_work r) \<le> n" and cnt: "\<And>m. cnt (shared r) = Some m \<Longrightarrow> 0 < m \<and> m \<le> d"
    and ld: "\<And>t m. loaded (handlers r t) = Some m \<Longrightarrow> m \<le> d" and fin: "finite (at_work r)"
    and base: "base (shared r)" by (auto simp: count_inv_def)
  have work: "Suc d \<le> n" if "mine (handlers r t)"
  proof -
    have "0 < card (at_work r)" using fin that by (auto simp: card_gt_0_iff at_work_def)
    with d show ?thesis by linarith
  qed
  have "Suc m < bound" if "loaded (handlers r t) = Some m" for m
    using work [OF loaded_mine [OF that]] ld [OF that] n by linarith
  from adv_cases [OF hs this] have "count_inv n ?r"
  proof
    assume quiet: "cnt s = cnt (shared r) \<and> mine h = mine (handlers r t) \<and> loaded h \<in> {None, loaded (handlers r t), cnt (shared r)}"
    then have "at_work ?r = at_work r" by (auto simp: at_work_upd at_work_def)
    moreover have "m \<le> d" if "loaded (handlers ?r t') = Some m" for t' m
      using that quiet ld cnt by (cases "t' = t") auto
    ultimately show ?thesis
      using d cnt fin quiet adv_base [OF base hs] by (intro count_invI [where d = d]) auto
  next
    assume fin': "mine (handlers r t) \<and> \<not> mine h \<and> cnt s \<in> {Some 1, cnt (shared r), map_option Suc (loaded (handlers r t))}"
    then have work': "at_work ?r = at_work r - {t}" "t \<in> at_work r" by (auto simp: at_work_upd at_work_def)
    have "Suc d + card (at_work ?r) \<le> n" using d fin card_Suc_Diff1 [OF fin work'(2)] by (simp add: work'(1))
    moreover have "0 < m \<and> m \<le> Suc d" if "cnt s = Some m" for m
      using that fin' cnt [of m] ld [of t] by (cases "loaded (handlers r t)") auto
    moreover have "m \<le> Suc d" if "loaded (handlers ?r t') = Some m" for t' m
      using that ld [of t' m] fin' loaded_mine by (cases "t' = t") auto
    ultimately show ?thesis
      using fin adv_base [OF base hs] work'(1) by (intro count_invI [where d = "Suc d"]) auto
  qed
  with hs show ?thesis by (simp add: step_tick access_def)
qed

lemma count_inv_begin:
  assumes "count_inv n r" and "n + of_bool (begins e) < bound"
  shows "count_inv (n + of_bool (begins e)) (step e r)"
proof -
  have more: "count_inv n r' \<Longrightarrow> count_inv (n + of_bool (begins e)) r'" for r'
    by (rule count_inv_more) auto
  have base: "base (shared r)" using assms(1) by (simp add: count_inv_def)
  from begin_cases [OF base, of e] consider (tick) t where "e = tick t" | (skip) "step e r = r"
    | (start) t h where "handlers r t = idle" "loaded h = None" "mine h \<longrightarrow> begins e"
        "step e r = r\<lparr>handlers := (handlers r)(t := h)\<rparr>" by blast
  then show ?thesis
  proof cases
    case tick
    then show ?thesis using assms more count_inv_tick [of n r t] by auto
  next
    case skip
    then show ?thesis using assms(1) more by simp
  next
    case start
    let ?r = "r\<lparr>handlers := (handlers r)(t := h)\<rparr>"
    have t: "t \<notin> at_work r" using start(1) mine_idle by (simp add: at_work_def)
    have work: "at_work ?r = (if mine h then insert t (at_work r) else at_work r)"
      using t by (auto simp: at_work_def)
    obtain d where d: "d + card (at_work r) \<le> n" "\<And>m. cnt (shared r) = Some m \<Longrightarrow> 0 < m \<and> m \<le> d"
        "\<And>t m. loaded (handlers r t) = Some m \<Longrightarrow> m \<le> d"
      using assms(1) by (auto simp: count_inv_def)
    have "count_inv (n + of_bool (begins e)) ?r"
    proof (rule count_invI [where d = d])
      show "base (shared ?r)" using base by simp
      show "finite (at_work ?r)" using assms(1) by (simp add: work count_inv_def)
      then show "d + card (at_work ?r) \<le> n + of_bool (begins e)"
        using d(1) start(3) t by (auto simp: work)
      show "0 < m \<and> m \<le> d" if "cnt (shared ?r) = Some m" for m using d(2) that by simp
      show "m \<le> d" if "loaded (handlers ?r t') = Some m" for t' m
        using that start(2) d(3) [of t' m] by (cases "t' = t") auto
    qed
    then show ?thesis unfolding start(4) .
  qed
qed

lemma count_inv_run:
  "count_inv n r \<Longrightarrow> n + length (filter begins es) < bound \<Longrightarrow>
     count_inv (n + length (filter begins es)) (run step es r)"
proof (induction es arbitrary: n r)
  case (Cons e es)
  have "count_inv (n + of_bool (begins e)) (step e r)" using Cons.prems by (intro count_inv_begin) auto
  from Cons.IH [OF this] Cons.prems show ?case by (cases "begins e") simp_all
qed simp

lemma count_inv_start: "base s \<Longrightarrow> cnt s = None \<Longrightarrow> count_inv 0 \<lparr>shared = s, handlers = \<lambda>_. idle\<rparr>"
  using mine_idle loaded_mine [of idle] by (auto simp: count_inv_def at_work_def)

lemma no_overcount:
  assumes "base s" and "cnt s = None" and "length (filter begins es) < bound"
    and "cnt (shared (run step es \<lparr>shared = s, handlers = \<lambda>_. idle\<rparr>)) = Some m"
  shows "0 < m \<and> m \<le> length (filter begins es)"
  using count_inv_run [OF count_inv_start [OF assms(1,2)], of es] assms(3,4) by (fastforce simp: count_inv_def)

end

section \<open>Linearization\<close>

text \<open>What the steps of a schedule contribute, in order: the operations that take effect, or those that
  begin.\<close>

primrec history ::
    "('ev \<Rightarrow> ('h, 's) conc \<Rightarrow> ('h, 's) conc) \<Rightarrow> ('ev \<Rightarrow> ('h, 's) conc \<Rightarrow> 'op list) \<Rightarrow> 'ev list \<Rightarrow>
       ('h, 's) conc \<Rightarrow> 'op list" where
  "history step f [] r = []"
| "history step f (e # es) r = f e r @ history step f es (step e r)"

text \<open>
  A program whose operations take effect at one of their accesses, the last one here: at every
  step the shared state changes as the operations that commit there change it one after the
  other. Then a whole interleaved run is a run of whole operations, in an order in which the
  operations of one thread stay in the order they began. The events may be restricted.
\<close>

locale linearized =
  fixes step :: "'ev \<Rightarrow> ('h, 's) conc \<Rightarrow> ('h, 's) conc"
    and seq :: "'op \<Rightarrow> 's \<Rightarrow> 's"
    and thread :: "'op \<Rightarrow> u64"
    and starts :: "'ev \<Rightarrow> ('h, 's) conc \<Rightarrow> 'op list"
    and commits :: "'ev \<Rightarrow> ('h, 's) conc \<Rightarrow> 'op list"
    and held :: "'h \<Rightarrow> 'op list"
    and allowed :: "'ev \<Rightarrow> bool"
    and invar :: "('h, 's) conc \<Rightarrow> bool"
  assumes step_inv: "allowed e \<Longrightarrow> invar r \<Longrightarrow> invar (step e r)"
    and step_commits: "allowed e \<Longrightarrow> invar r \<Longrightarrow> shared (step e r) = run seq (commits e r) (shared r)"
    and step_order: "allowed e \<Longrightarrow> invar r \<Longrightarrow> held (handlers r t) @ filter (\<lambda>op. thread op = t) (starts e r)
      = filter (\<lambda>op. thread op = t) (commits e r) @ held (handlers (step e r) t)"
begin

lemma run_linear:
  "list_all allowed es \<Longrightarrow> invar r \<Longrightarrow> shared (run step es r) = run seq (history step commits es r) (shared r)"
  by (induction es arbitrary: r) (simp_all add: step_inv step_commits run_append)

lemma run_order:
  "list_all allowed es \<Longrightarrow> invar r \<Longrightarrow> held (handlers r t) @ filter (\<lambda>op. thread op = t) (history step starts es r)
     = filter (\<lambda>op. thread op = t) (history step commits es r) @ held (handlers (run step es r) t)"
proof (induction es arbitrary: r)
  case (Cons e es)
  let ?F = "filter (\<lambda>op. thread op = t)"
  have ok: "allowed e" "list_all allowed es" using Cons.prems(1) by simp_all
  have "held (handlers r t) @ ?F (starts e r) @ ?F (history step starts es (step e r))
      = ?F (commits e r) @ held (handlers (step e r) t) @ ?F (history step starts es (step e r))"
    using step_order [OF ok(1) Cons.prems(2), of t] by (metis append_assoc)
  also have "\<dots> = ?F (commits e r) @ ?F (history step commits es (step e r)) @ held (handlers (run step es (step e r)) t)"
    using Cons.IH [OF ok(2) step_inv [OF ok(1) Cons.prems(2)]] by simp
  finally show ?case by simp
qed simp

end

end
