(* ===== verification/Futex_Race.thy ===== *)
theory Futex_Race
  imports Futexsnoop Interleave
begin

text \<open>
  The futexsnoop handlers as the processors really run them: at the same time, one memory access
  or helper call after the other. A thread's handler is a program counter with the local variables
  it still needs; a schedule picks the thread that makes the next access. An uninterrupted handler
  does what the one-step model of \<^emph>\<open>Futexsnoop\<close> does. Interleaved handlers keep the user count of a
  lock that is already tracked, since they change it by atomic additions only. They can break it
  when two threads are the first to wait on a lock.
\<close>

section \<open>Handlers in steps\<close>

datatype handler =
    Idle
  | E_lookup bpf_env user_args val_t
  | E_add bpf_env user_args val_t
  | E_test bpf_env user_args val_t
  | E_cmp bpf_env user_args val_t u32
  | E_reload bpf_env user_args val_t
  | E_store bpf_env user_args val_t u32
  | E_limit bpf_env user_args val_t
  | E_emit bpf_env user_args val_t
  | E_insert bpf_env user_args val_t
  | X_lookup bpf_env syscall_trace_exit val_t
  | X_add bpf_env syscall_trace_exit val_t
  | X_rest bpf_env syscall_trace_exit val_t

type_synonym race = "(handler, futex_state) conc"

text \<open>The first part of \<open>futex_enter\<close>, up to the store of the start record.\<close>

definition enter_begin :: "bpf_env \<Rightarrow> syscall_trace_enter \<Rightarrow> futex_state \<Rightarrow> handler \<times> futex_state" where
  "enter_begin env ctx s =
     (if (ucast (ctx_arg ctx 1) AND FUTEX_CMD_MASK) \<noteq> FUTEX_WAIT then (Idle, s)
      else
        let v = \<lparr>val_ts = bpf_ktime_get_ns env, val_uaddr = ctx_arg ctx 0\<rparr>
        in case array_lookup_elem (args_map s) 0 of
          None \<Rightarrow> (Idle, s)
        | Some args \<Rightarrow>
            let pid_tgid = bpf_get_current_pid_tgid env
            in if futex_filtered args (tgid_of pid_tgid) (tid_of pid_tgid) (val_uaddr v) then (Idle, s)
               else (E_lookup env args v,
                 s\<lparr>start := snd (bpf_map_update_elem (start s) pid_tgid v BPF_ANY)\<rparr>))"

definition exit_begin :: "bpf_env \<Rightarrow> syscall_trace_exit \<Rightarrow> futex_state \<Rightarrow> handler" where
  "exit_begin env ret s =
     (case bpf_map_lookup_elem (start s) (bpf_get_current_pid_tgid env) of
        None \<Rightarrow> Idle
      | Some vp \<Rightarrow> X_lookup env ret vp)"

text \<open>The part of \<open>futex_exit\<close> after the decrement. It touches the thread's own start record and
  histogram, which no other thread's handler uses.\<close>

definition exit_rest :: "bool \<Rightarrow> bpf_env \<Rightarrow> syscall_trace_exit \<Rightarrow> val_t \<Rightarrow> futex_state \<Rightarrow> futex_state" where
  "exit_rest amd env ret vp s =
     (let ts = bpf_ktime_get_ns env; pid_tgid = bpf_get_current_pid_tgid env
      in if sint (ucast ret :: s32) < 0 then futex_cleanup pid_tgid s
         else
           let delta = ts - val_ts vp
           in if sint delta < 0 then futex_cleanup pid_tgid s
              else case array_lookup_elem (args_map s) 0 of
                None \<Rightarrow> s
              | Some args \<Rightarrow>
                  let hkey = \<lparr>hkey_pid_tgid = pid_tgid, hkey_uaddr = val_uaddr vp,
                        hkey_user_stack_id =
                          (if stack args then ucast (bpf_get_stackid env BPF_F_USER_STACK) else 0)\<rparr>
                  in futex_cleanup pid_tgid (futex_record amd env args hkey ts delta s))"

text \<open>One access of a running handler. The element a lookup has found is never removed, so a later
  access through its pointer finds it again.\<close>

fun advance :: "bool \<Rightarrow> handler \<Rightarrow> futex_state \<Rightarrow> handler \<times> futex_state" where
  "advance amd Idle s = (Idle, s)"
| "advance amd (E_lookup env args v) s =
     (case bpf_map_lookup_elem (lock_map s) (val_uaddr v) of
        Some _ \<Rightarrow> (E_add env args v, s)
      | None \<Rightarrow> (E_insert env args v, s))"
| "advance amd (E_add env args v) s =
     (E_test env args v,
      s\<lparr>lock_map := elem_write (lock_map s) (val_uaddr v) (\<lambda>lock. lock\<lparr>user_cnt := user_cnt lock + 1\<rparr>)\<rparr>)"
| "advance amd (E_test env args v) s =
     (case bpf_map_lookup_elem (lock_map s) (val_uaddr v) of
        Some lock \<Rightarrow> (E_cmp env args v (user_cnt lock), s)
      | None \<Rightarrow> (Idle, s))"
| "advance amd (E_cmp env args v cnt) s =
     (case bpf_map_lookup_elem (lock_map s) (val_uaddr v) of
        Some lock \<Rightarrow> (if cnt > max_user_cnt lock then E_reload env args v else E_limit env args v, s)
      | None \<Rightarrow> (Idle, s))"
| "advance amd (E_reload env args v) s =
     (case bpf_map_lookup_elem (lock_map s) (val_uaddr v) of
        Some lock \<Rightarrow> (E_store env args v (user_cnt lock), s)
      | None \<Rightarrow> (Idle, s))"
| "advance amd (E_store env args v cnt) s =
     (E_limit env args v,
      s\<lparr>lock_map := elem_write (lock_map s) (val_uaddr v) (\<lambda>lock. lock\<lparr>max_user_cnt := cnt\<rparr>)\<rparr>)"
| "advance amd (E_limit env args v) s =
     (case bpf_map_lookup_elem (lock_map s) (val_uaddr v) of
        Some lock \<Rightarrow> (if max_user_cnt lock > max_lock_hold_users args then E_emit env args v else Idle, s)
      | None \<Rightarrow> (Idle, s))"
| "advance amd (E_emit env args v) s =
     (case bpf_map_lookup_elem (lock_map s) (val_uaddr v) of
        Some lock \<Rightarrow>
          (Idle, s\<lparr>perf_out := perf_out s @ [Lock_event (lock
             \<lparr>lock_pid_tgid := bpf_get_current_pid_tgid env, lock_ts := val_ts v,
              lock_comm := bpf_get_current_comm TASK_COMM_LEN env\<rparr>)]\<rparr>)
      | None \<Rightarrow> (Idle, s))"
| "advance amd (E_insert env args v) s =
     (Idle, s\<lparr>lock_map := snd (bpf_map_update_elem (lock_map s) (val_uaddr v) (lock_init (val_uaddr v)) BPF_ANY)\<rparr>)"
| "advance amd (X_lookup env ret vp) s =
     (case bpf_map_lookup_elem (lock_map s) (val_uaddr vp) of
        Some _ \<Rightarrow> (X_add env ret vp, s)
      | None \<Rightarrow> (X_rest env ret vp, s))"
| "advance amd (X_add env ret vp) s =
     (X_rest env ret vp, s\<lparr>lock_map := elem_write (lock_map s) (val_uaddr vp) lock_exit\<rparr>)"
| "advance amd (X_rest env ret vp) s = (Idle, exit_rest amd env ret vp s)"

text \<open>A schedule: a handler starts on a thread that runs none, or a running one makes an access.\<close>

datatype race_ev = Begin_enter bpf_env syscall_trace_enter | Begin_exit bpf_env syscall_trace_exit | Step u64

fun race_step :: "bool \<Rightarrow> race_ev \<Rightarrow> race \<Rightarrow> race" where
  "race_step amd (Begin_enter env ctx) r =
     (let t = bpf_get_current_pid_tgid env
      in if handlers r t \<noteq> Idle then r
         else let (h, s) = enter_begin env ctx (shared r)
              in r\<lparr>shared := s, handlers := (handlers r)(t := h)\<rparr>)"
| "race_step amd (Begin_exit env ret) r =
     (let t = bpf_get_current_pid_tgid env
      in if handlers r t \<noteq> Idle then r
         else r\<lparr>handlers := (handlers r)(t := exit_begin env ret (shared r))\<rparr>)"
| "race_step amd (Step t) r = access (advance amd) t r"

interpretation futex: stepped "advance amd" Idle "race_step amd" Step for amd
  by unfold_locales simp_all

section \<open>Uninterrupted handlers\<close>

declare futex.advances_idle [simp] access_def [simp]

lemma lock_enter_found:
  assumes "bpf_map_lookup_elem m u = Some lock"
  shows "elem_write m u lock_enter =
    (if user_cnt lock + 1 > max_user_cnt lock
     then elem_write (elem_write m u (\<lambda>lock. lock\<lparr>user_cnt := user_cnt lock + 1\<rparr>)) u
            (\<lambda>l. l\<lparr>max_user_cnt := user_cnt lock + 1\<rparr>)
     else elem_write m u (\<lambda>lock. lock\<lparr>user_cnt := user_cnt lock + 1\<rparr>))"
  by (auto simp: elem_write_twice lock_enter_def intro!: elem_write_cong [OF assms])

lemma enter_found_accesses:
  assumes "bpf_map_lookup_elem (lock_map s) (val_uaddr v) = Some lock"
  shows "advances (advance amd) 8 (E_lookup env args v) s =
    (Idle, let lock = lock_enter lock; s = s\<lparr>lock_map := elem_write (lock_map s) (val_uaddr v) lock_enter\<rparr>
      in if max_user_cnt lock > max_lock_hold_users args
         then s\<lparr>perf_out := perf_out s @ [Lock_event (lock\<lparr>lock_pid_tgid := bpf_get_current_pid_tgid env,
           lock_ts := val_ts v, lock_comm := bpf_get_current_comm TASK_COMM_LEN env\<rparr>)]\<rparr> else s)"
  using assms by (simp add: eval_nat_numeral map_laws lock_enter_found lock_enter_def Let_def)

lemma enter_missed_accesses:
  assumes "bpf_map_lookup_elem (lock_map s) (val_uaddr v) = None"
  shows "advances (advance amd) 8 (E_lookup env args v) s = (Idle, s\<lparr>lock_map :=
    snd (bpf_map_update_elem (lock_map s) (val_uaddr v) (lock_init (val_uaddr v)) BPF_ANY)\<rparr>)"
  using assms by (simp add: eval_nat_numeral)

lemma enter_accesses:
  "(case enter_begin env ctx s of (h, s') \<Rightarrow> advances (advance amd) 8 h s') = (Idle, futex_enter env ctx s)"
  by (cases "bpf_map_lookup_elem (lock_map s) (ctx_arg ctx 0)")
    (simp_all add: enter_begin_def futex_enter_def Let_def enter_found_accesses enter_missed_accesses
      split: option.split)

lemma exit_accesses:
  "advances (advance amd) 3 (exit_begin env ret s) s = (Idle, futex_exit amd env ret s)"
  by (cases "bpf_map_lookup_elem (start s) (bpf_get_current_pid_tgid env)")
    (auto simp: exit_begin_def futex_exit_def exit_rest_def Let_def eval_nat_numeral split: option.splits)

lemma enter_alone:
  assumes "t = bpf_get_current_pid_tgid env" and "handlers r t = Idle"
  shows "run (race_step amd) (Begin_enter env ctx # replicate 8 (Step t)) r
    = r\<lparr>shared := futex_enter env ctx (shared r)\<rparr>"
proof -
  obtain h s where hs: "enter_begin env ctx (shared r) = (h, s)" by fastforce
  then have "advances (advance amd) 8 h s = (Idle, futex_enter env ctx (shared r))"
    using enter_accesses [of amd env ctx "shared r"] by simp
  from futex.run_alone [OF assms(2) this] hs assms show ?thesis by (simp add: Let_def)
qed

lemma exit_alone:
  assumes "t = bpf_get_current_pid_tgid env" and "handlers r t = Idle"
  shows "run (race_step amd) (Begin_exit env ret # replicate 3 (Step t)) r
    = r\<lparr>shared := futex_exit amd env ret (shared r)\<rparr>"
  using futex.run_alone [OF assms(2) exit_accesses [of amd env ret "shared r"]] assms by (simp add: Let_def)

text \<open>A handler that is not interrupted does what the one-step model of it does: eight and three accesses later it is done.\<close>

lemma race_refines_handlers:
  assumes "t = bpf_get_current_pid_tgid env" and "handlers r t = Idle"
  shows "run (race_step amd) (Begin_enter env ctx # replicate 8 (Step t)) r
      = r\<lparr>shared := futex_enter env ctx (shared r)\<rparr> \<and>
    run (race_step amd) (Begin_exit env ret # replicate 3 (Step t)) r
      = r\<lparr>shared := futex_exit amd env ret (shared r)\<rparr>"
  using enter_alone [OF assms] exit_alone [OF assms] by blast

section \<open>Interleaved handlers on a tracked lock\<close>

text \<open>A thread uses a lock from its addition to its subtraction: it waits there, and its handler is
  neither before the one nor behind the other.\<close>

fun uncounted :: "handler \<Rightarrow> bool" where
  "uncounted (E_lookup env args v) \<longleftrightarrow> True"
| "uncounted (E_add env args v) \<longleftrightarrow> True"
| "uncounted (E_insert env args v) \<longleftrightarrow> True"
| "uncounted (X_rest env ret vp) \<longleftrightarrow> True"
| "uncounted h \<longleftrightarrow> False"

definition users :: "u64 \<Rightarrow> race \<Rightarrow> u64 set" where
  "users l r = {t \<in> waiting (shared r) l. \<not> uncounted (handlers r t)}"

lemma finite_users [simp]: "finite (users l r)"
  by (simp add: users_def)

text \<open>What the local variables of a handler say about the thread it runs on.\<close>

fun local_ok :: "u64 \<Rightarrow> u64 \<Rightarrow> futex_state \<Rightarrow> handler \<Rightarrow> bool" where
  "local_ok l t s (E_lookup env args v) \<longleftrightarrow> bpf_map_lookup_elem (start s) t \<in> {None, Some v}"
| "local_ok l t s (E_add env args v) \<longleftrightarrow> bpf_map_lookup_elem (start s) t \<in> {None, Some v}"
| "local_ok l t s (E_insert env args v) \<longleftrightarrow>
     val_uaddr v \<noteq> l \<and> bpf_map_lookup_elem (start s) t \<in> {None, Some v}"
| "local_ok l t s (X_lookup env ret vp) \<longleftrightarrow>
     t = bpf_get_current_pid_tgid env \<and> bpf_map_lookup_elem (start s) t = Some vp"
| "local_ok l t s (X_add env ret vp) \<longleftrightarrow>
     t = bpf_get_current_pid_tgid env \<and> bpf_map_lookup_elem (start s) t = Some vp"
| "local_ok l t s (X_rest env ret vp) \<longleftrightarrow> t = bpf_get_current_pid_tgid env"
| "local_ok l t s h \<longleftrightarrow> True"

text \<open>After \<open>n\<close> accesses: the lock is tracked and counts at least its users.\<close>

definition tracked_inv :: "u64 \<Rightarrow> nat \<Rightarrow> race \<Rightarrow> bool" where
  "tracked_inv l n r \<longleftrightarrow> hash_wf (start (shared r)) \<and> args_ready (shared r) \<and>
     (\<forall>t. local_ok l t (shared r) (handlers r t)) \<and>
     (\<exists>lk. bpf_map_lookup_elem (lock_map (shared r)) l = Some lk \<and>
        card (users l r) \<le> unat (user_cnt lk) \<and> unat (user_cnt lk) \<le> n)"

lemma card_users_grow: "users l r' \<subseteq> insert t (users l r) \<Longrightarrow> card (users l r') \<le> Suc (card (users l r))"
  using card_mono [of "insert t (users l r)" "users l r'"] by (simp add: card_insert_if split: if_splits)

lemma card_users_shrink: "users l r' \<subseteq> users l r \<Longrightarrow> card (users l r') \<le> card (users l r)"
  by (rule card_mono) simp_all

text \<open>Another thread's start record is not touched, so neither is what its variables say.\<close>

lemma local_ok_other:
  "local_ok l t s h \<Longrightarrow> bpf_map_lookup_elem (start s') t = bpf_map_lookup_elem (start s) t \<Longrightarrow> local_ok l t s' h"
  by (cases h) auto

lemma exit_rest_frame:
  assumes "args_ready s"
  shows "lock_map (exit_rest amd env ret vp s) = lock_map s"
    and "start (exit_rest amd env ret vp s) = snd (bpf_map_delete_elem (start s) (bpf_get_current_pid_tgid env))"
    and "args_map (exit_rest amd env ret vp s) = args_map s"
  using args_ready_lookup [OF assms]
  by (auto simp: exit_rest_def futex_cleanup_def Let_def)

lemma users_update_handler:
  assumes "\<And>t'. t' \<noteq> t \<Longrightarrow> bpf_map_lookup_elem (start s') t' = bpf_map_lookup_elem (start (shared r)) t'"
  shows "users l (r\<lparr>shared := s', handlers := (handlers r)(t := h)\<rparr>) - {t} = users l r - {t}"
  using assms by (auto simp: users_def waiting_def)

lemma tracked_step:
  assumes inv: "tracked_inv l n r" and r': "r' = r\<lparr>shared := s', handlers := (handlers r)(t := h)\<rparr>"
    and keep: "hash_wf (start s')" "args_ready s'" "local_ok l t s' h"
    and others: "\<And>t'. t' \<noteq> t \<Longrightarrow> bpf_map_lookup_elem (start s') t' = bpf_map_lookup_elem (start (shared r)) t'"
    and count: "\<And>lk. bpf_map_lookup_elem (lock_map (shared r)) l = Some lk \<Longrightarrow>
      card (users l r) \<le> unat (user_cnt lk) \<Longrightarrow> unat (user_cnt lk) \<le> n \<Longrightarrow>
      \<exists>lk'. bpf_map_lookup_elem (lock_map s') l = Some lk' \<and> card (users l r') \<le> unat (user_cnt lk') \<and>
        unat (user_cnt lk') \<le> Suc n"
  shows "tracked_inv l (Suc n) r'"
proof -
  have "local_ok l t' s' (handlers r' t')" for t'
    using inv keep(3) others [of t'] local_ok_other [of l t' "shared r" "handlers r t'" s']
    by (cases "t' = t") (auto simp: r' tracked_inv_def)
  then show ?thesis using inv keep(1,2) count by (auto simp: tracked_inv_def r')
qed

lemma tracked_quiet:
  assumes inv: "tracked_inv l n r" and r': "r' = r\<lparr>shared := s', handlers := (handlers r)(t := h)\<rparr>"
    and keep: "hash_wf (start s')" "args_ready s'" "local_ok l t s' h"
    and others: "\<And>t'. t' \<noteq> t \<Longrightarrow> bpf_map_lookup_elem (start s') t' = bpf_map_lookup_elem (start (shared r)) t'"
    and self: "t \<in> users l r' \<Longrightarrow> t \<in> users l r"
    and lock: "\<And>lk. bpf_map_lookup_elem (lock_map (shared r)) l = Some lk \<Longrightarrow>
      \<exists>lk'. bpf_map_lookup_elem (lock_map s') l = Some lk' \<and> user_cnt lk' = user_cnt lk"
  shows "tracked_inv l (Suc n) r'"
proof (rule tracked_step [OF inv r' keep others])
  fix lk assume lk: "bpf_map_lookup_elem (lock_map (shared r)) l = Some lk"
    "card (users l r) \<le> unat (user_cnt lk)" "unat (user_cnt lk) \<le> n"
  have "users l r' \<subseteq> users l r"
    using users_update_handler [where s' = s' and r = r and t = t and l = l and h = h] others self by (auto simp: r')
  from card_users_shrink [OF this] lock [OF lk(1)] lk
  show "\<exists>lk'. bpf_map_lookup_elem (lock_map s') l = Some lk' \<and> card (users l r') \<le> unat (user_cnt lk') \<and>
      unat (user_cnt lk') \<le> Suc n" by fastforce
qed

text \<open>The two accesses that change the count.\<close>

lemma tracked_add:
  assumes inv: "tracked_inv l n r" and n: "n < 2 ^ 32 - 1" and h: "handlers r t = E_add env args v"
    and l: "val_uaddr v = l"
  shows "tracked_inv l (Suc n) (race_step amd (Step t) r)"
proof -
  let ?r = "race_step amd (Step t) r"
  let ?m = "elem_write (lock_map (shared r)) l (\<lambda>lock. lock\<lparr>user_cnt := user_cnt lock + 1\<rparr>)"
  have "users l ?r \<subseteq> insert t (users l r)" by (auto simp: h users_def waiting_def split: if_splits)
  then have card: "card (users l ?r) \<le> Suc (card (users l r))" by (rule card_users_grow)
  have count: "\<exists>lk'. bpf_map_lookup_elem ?m l = Some lk' \<and> card (users l ?r) \<le> unat (user_cnt lk') \<and>
      unat (user_cnt lk') \<le> Suc n"
    if lk: "bpf_map_lookup_elem (lock_map (shared r)) l = Some lk"
      "card (users l r) \<le> unat (user_cnt lk)" "unat (user_cnt lk) \<le> n" for lk
  proof -
    have "unat (user_cnt lk + 1) = Suc (unat (user_cnt lk))"
      using unat_inc [of "user_cnt lk" "Suc n"] lk(3) n by simp
    with lk card show ?thesis by (simp add: map_laws)
  qed
  show ?thesis
    by (rule tracked_step [OF inv, where t = t and s' = "(shared r)\<lparr>lock_map := ?m\<rparr>" and h = "E_test env args v"])
      (use inv h l count in \<open>auto simp: tracked_inv_def args_ready_def\<close>)
qed

lemma tracked_sub:
  assumes inv: "tracked_inv l n r" and h: "handlers r t = X_add env ret vp" and l: "val_uaddr vp = l"
  shows "tracked_inv l (Suc n) (race_step amd (Step t) r)"
proof -
  let ?r = "race_step amd (Step t) r" and ?m = "elem_write (lock_map (shared r)) l lock_exit"
  have loc: "t = bpf_get_current_pid_tgid env" "bpf_map_lookup_elem (start (shared r)) t = Some vp"
    using inv h by (auto simp: tracked_inv_def dest!: spec [of _ t])
  then have "t \<in> users l r" using h l by (auto simp: users_def waiting_def)
  moreover have "users l ?r = users l r - {t}" by (auto simp: h users_def waiting_def split: if_splits)
  ultimately have card: "Suc (card (users l ?r)) = card (users l r)"
    using card_Suc_Diff1 [OF finite_users, of t l r] by metis
  have count: "\<exists>lk'. bpf_map_lookup_elem ?m l = Some lk' \<and> card (users l ?r) \<le> unat (user_cnt lk') \<and>
      unat (user_cnt lk') \<le> Suc n"
    if lk: "bpf_map_lookup_elem (lock_map (shared r)) l = Some lk"
      "card (users l r) \<le> unat (user_cnt lk)" "unat (user_cnt lk) \<le> n" for lk
  proof -
    have "0 < unat (user_cnt lk)" using lk(2) card by linarith
    from unat_dec [OF this] lk card show ?thesis by (simp add: map_laws lock_exit_def) linarith
  qed
  show ?thesis
    by (rule tracked_step [OF inv, where t = t and s' = "(shared r)\<lparr>lock_map := ?m\<rparr>" and h = "X_rest env ret vp"])
      (use inv h l loc count in \<open>auto simp: tracked_inv_def args_ready_def\<close>)
qed

lemma tracked_access:
  assumes inv: "tracked_inv l n r" and n: "n < 2 ^ 32 - 1"
  shows "tracked_inv l (Suc n) (race_step amd (Step t) r)"
proof (cases "\<exists>env args ret v. handlers r t \<in> {E_add env args v, X_add env ret v} \<and> val_uaddr v = l")
  case True
  then show ?thesis using tracked_add [OF inv n] tracked_sub [OF inv] by fastforce
next
  case False
  obtain lk where lk: "bpf_map_lookup_elem (lock_map (shared r)) l = Some lk"
    using inv by (auto simp: tracked_inv_def)
  have wf: "hash_wf (start (shared r))" "args_ready (shared r)" and loc: "local_ok l t (shared r) (handlers r t)"
    using inv by (simp_all add: tracked_inv_def)
  note frame = exit_rest_frame [OF wf(2)]
  obtain h s' where hs: "advance amd (handlers r t) (shared r) = (h, s')" by fastforce
  show ?thesis
    by (rule tracked_quiet [OF inv, where t = t and s' = s' and h = h])
      (use hs lk wf loc False frame in \<open>cases "handlers r t";
        auto simp: users_def waiting_def args_ready_def map_laws split: if_splits option.splits\<close>)+
qed

lemma update_any_lookup: "bpf_map_lookup_elem (snd (bpf_map_update_elem m k v BPF_ANY)) k \<in> {None, Some v}"
  by (cases "bpf_map_lookup_elem m k") (auto simp: map_laws dest: hash.update_hit [where v = v])

lemma tracked_begin:
  assumes inv: "tracked_inv l n r"
  shows "tracked_inv l (Suc n) (race_step amd (Begin_enter env ctx) r)"
    and "tracked_inv l (Suc n) (race_step amd (Begin_exit env ret) r)"
proof -
  let ?t = "bpf_get_current_pid_tgid env"
  have wf: "hash_wf (start (shared r))" "args_ready (shared r)" using inv by (simp_all add: tracked_inv_def)
  have same: "tracked_inv l (Suc n) r" using inv by (auto simp: tracked_inv_def)
  obtain h s' where hs: "enter_begin env ctx (shared r) = (h, s')" by fastforce
  have enter: "tracked_inv l (Suc n) (r\<lparr>shared := s', handlers := (handlers r)(?t := h)\<rparr>)" if "handlers r ?t = Idle"
  proof (rule tracked_quiet [OF inv refl])
    show "local_ok l ?t s' h"
      using hs that update_any_lookup [of "start (shared r)" ?t]
      by (auto simp: enter_begin_def Let_def split: if_splits option.splits)
  qed (use hs that wf in \<open>auto simp: enter_begin_def users_def waiting_def args_ready_def map_laws Let_def
        split: if_splits option.splits\<close>)
  with same show "tracked_inv l (Suc n) (race_step amd (Begin_enter env ctx) r)" by (simp add: hs Let_def)
  have "tracked_inv l (Suc n) (r\<lparr>shared := shared r, handlers := (handlers r)(?t := exit_begin env ret (shared r))\<rparr>)"
    if "handlers r ?t = Idle"
    by (rule tracked_quiet [OF inv refl])
      (use that wf in \<open>auto simp: exit_begin_def users_def waiting_def split: option.splits\<close>)
  with same show "tracked_inv l (Suc n) (race_step amd (Begin_exit env ret) r)" by (simp add: Let_def)
qed

interpretation tracked: counted_invariant "race_step amd" "tracked_inv l" "2 ^ 32 - 1" for amd l
proof
  fix n r e assume "tracked_inv l n r" and "n < 2 ^ 32 - 1"
  then show "tracked_inv l (Suc n) (race_step amd e r)"
    by (cases e) (use tracked_access tracked_begin in blast)+
qed

section \<open>Properties\<close>

text \<open>The two first waits on a lock, interleaved: both threads look the lock up before either inserts
  it.\<close>

definition creation_race :: "bpf_env \<Rightarrow> bpf_env \<Rightarrow> syscall_trace_enter \<Rightarrow> race_ev list" where
  "creation_race e1 e2 ctx =
     (let t1 = bpf_get_current_pid_tgid e1; t2 = bpf_get_current_pid_tgid e2
      in [Begin_enter e1 ctx, Begin_enter e2 ctx, Step t1, Step t2, Step t1, Step t2])"

lemma creation_race_state:
  assumes t: "t1 = bpf_get_current_pid_tgid e1" "t2 = bpf_get_current_pid_tgid e2" "t1 \<noteq> t2"
    and wait: "ucast (ctx_arg ctx 1) AND FUTEX_CMD_MASK = FUTEX_WAIT"
    and pass: "\<not> futex_filtered args (env_tgid e1) (env_pid e1) (ctx_arg ctx 0)"
      "\<not> futex_filtered args (env_tgid e2) (env_pid e2) (ctx_arg ctx 0)"
    and r: "r = run (race_step amd) (creation_race e1 e2 ctx) \<lparr>shared = futex_init args, handlers = \<lambda>_. Idle\<rparr>"
  shows "handlers r = (\<lambda>_. Idle)" and "args_ready (shared r)" and "hash_wf (start (shared r))"
    and "bpf_map_lookup_elem (lock_map (shared r)) (ctx_arg ctx 0) = Some (lock_init (ctx_arg ctx 0))"
    and "waiting (shared r) (ctx_arg ctx 0) = {t1, t2}"
proof -
  let ?a = "ctx_arg ctx 0"
  let ?v1 = "\<lparr>val_ts = bpf_ktime_get_ns e1, val_uaddr = ?a\<rparr>" and ?v2 = "\<lparr>val_ts = bpf_ktime_get_ns e2, val_uaddr = ?a\<rparr>"
  define m where "m = snd (bpf_map_update_elem (snd (bpf_map_update_elem (hash_empty MAX_ENTRIES) t1 ?v1 BPF_ANY)) t2 ?v2 BPF_ANY)"
  define k where "k = snd (bpf_map_update_elem (snd (bpf_map_update_elem (hash_empty MAX_ENTRIES) ?a (lock_init ?a) BPF_ANY)) ?a (lock_init ?a) BPF_ANY)"
  have args: "array_lookup_elem (args_map (futex_init args)) 0 = Some args"
    by (simp add: futex_init_def array_lookup_elem_def)
  have "enter_begin e1 ctx (futex_init args) = (E_lookup e1 args ?v1,
      (futex_init args)\<lparr>start := snd (bpf_map_update_elem (hash_empty MAX_ENTRIES) t1 ?v1 BPF_ANY)\<rparr>)"
    using wait pass args t by (simp add: enter_begin_def Let_def) (simp add: futex_init_def)
  moreover have "enter_begin e2 ctx ((futex_init args)\<lparr>start := snd (bpf_map_update_elem (hash_empty MAX_ENTRIES) t1 ?v1 BPF_ANY)\<rparr>)
      = (E_lookup e2 args ?v2, (futex_init args)\<lparr>start := m\<rparr>)"
    using wait pass args t by (simp add: enter_begin_def Let_def m_def)
  moreover have "lock_map (futex_init args) = hash_empty MAX_ENTRIES" by (simp add: futex_init_def)
  ultimately have r': "r = \<lparr>shared = (futex_init args)\<lparr>start := m, lock_map := k\<rparr>, handlers = \<lambda>_. Idle\<rparr>"
    using t by (simp add: r creation_race_def Let_def k_def fun_upd_twist fun_eq_iff)
  have look: "bpf_map_lookup_elem m = [t1 \<mapsto> ?v1, t2 \<mapsto> ?v2]" "bpf_map_lookup_elem k ?a = Some (lock_init ?a)"
    using t(3) by (simp_all add: m_def k_def hash_defs bpf_map_lookup_elem_def hash_empty_def MAX_ENTRIES_def fun_eq_iff)
  have wf: "hash_wf m" by (simp add: m_def map_laws)
  show "handlers r = (\<lambda>_. Idle)" "args_ready (shared r)" "hash_wf (start (shared r))"
    "bpf_map_lookup_elem (lock_map (shared r)) ?a = Some (lock_init ?a)"
    "waiting (shared r) ?a = {t1, t2}"
    using look wf t(3) by (auto simp: r' futex_init_def args_ready_def waiting_def)
qed

lemma exit_waiting:
  assumes "args_ready s" and "hash_wf (start s)" and "bpf_get_current_pid_tgid env \<in> waiting s l"
  shows "lock_map (futex_exit amd env ret s) = elem_write (lock_map s) l lock_exit"
    and "waiting (futex_exit amd env ret s) l = waiting s l - {bpf_get_current_pid_tgid env}"
    and "args_ready (futex_exit amd env ret s)" and "hash_wf (start (futex_exit amd env ret s))"
proof -
  obtain vp where vp: "bpf_map_lookup_elem (start s) (bpf_get_current_pid_tgid env) = Some vp" "val_uaddr vp = l"
    using assms(3) by (auto simp: waiting_def)
  then show "lock_map (futex_exit amd env ret s) = elem_write (lock_map s) l lock_exit"
    by (simp add: futex_exit_locks)
  show "waiting (futex_exit amd env ret s) l = waiting s l - {bpf_get_current_pid_tgid env}"
    by (rule waiting_start_delete [OF assms(2)]) (simp add: futex_exit_start [OF assms(1)] vp)
qed (use assms futex_exit_wf in \<open>simp_all add: args_ready_def\<close>)

text \<open>C25. The first two waits on a lock can race: when both threads find the lock missing before either
  inserts it, the second insertion overwrites the first, the lock counts one user for two, and when
  both have left, the count has wrapped to \<open>2 ^ 32 - 1\<close> with nobody waiting.\<close>

theorem race_creation_wraps:
  assumes t: "t1 = bpf_get_current_pid_tgid e1" "t2 = bpf_get_current_pid_tgid e2" "t1 \<noteq> t2"
    and wait: "ucast (ctx_arg ctx 1) AND FUTEX_CMD_MASK = FUTEX_WAIT"
    and pass: "\<not> futex_filtered args (env_tgid e1) (env_pid e1) (ctx_arg ctx 0)"
      "\<not> futex_filtered args (env_tgid e2) (env_pid e2) (ctx_arg ctx 0)"
    and r: "r = run (race_step amd) (creation_race e1 e2 ctx) \<lparr>shared = futex_init args, handlers = \<lambda>_. Idle\<rparr>"
    and r': "r' = run (race_step amd) (Begin_exit e1 ret # replicate 3 (Step t1) @
      Begin_exit e2 ret # replicate 3 (Step t2)) r"
  shows "waiting (shared r) (ctx_arg ctx 0) = {t1, t2} \<and> waiting (shared r') (ctx_arg ctx 0) = {} \<and>
    (\<exists>lk lk'. bpf_map_lookup_elem (lock_map (shared r)) (ctx_arg ctx 0) = Some lk \<and> user_cnt lk = 1 \<and>
      bpf_map_lookup_elem (lock_map (shared r')) (ctx_arg ctx 0) = Some lk' \<and> user_cnt lk' = - 1)"
proof -
  note st = creation_race_state [OF t wait pass r]
  let ?s1 = "futex_exit amd e1 ret (shared r)"
  have r1: "r' = r\<lparr>shared := futex_exit amd e2 ret ?s1\<rparr>"
    using t st(1) exit_alone [of t1 e1 r amd ret] exit_alone [of t2 e2 "r\<lparr>shared := ?s1\<rparr>" amd ret]
    by (simp add: r' run_append del: race_step.simps)
  have "bpf_get_current_pid_tgid e1 \<in> waiting (shared r) (ctx_arg ctx 0)" using st(5) t by simp
  note x1 = exit_waiting [OF st(2,3) this, of amd ret]
  have "bpf_get_current_pid_tgid e2 \<in> waiting ?s1 (ctx_arg ctx 0)" using x1(2) st(5) t by simp
  note x2 = exit_waiting [OF x1(3,4) this, of amd ret]
  from st(4,5) x1(1,2) x2(1,2) t show ?thesis
    by (simp add: r1 map_laws lock_exit_def lock_init_def)
qed

theorem race_creation_wraps_witness:
  "\<exists>lk. bpf_map_lookup_elem (lock_map (shared (run (race_step True)
      (Begin_exit (sample_env 8 0) 0 # replicate 3 (Step (bpf_get_current_pid_tgid (sample_env 8 0))) @
       Begin_exit (sample_env 9 0) 0 # replicate 3 (Step (bpf_get_current_pid_tgid (sample_env 9 0))))
      (run (race_step True) (creation_race (sample_env 8 0) (sample_env 9 0) [64, 128])
        \<lparr>shared = futex_init sample_args, handlers = \<lambda>_. Idle\<rparr>)))) 64 = Some lk \<and> user_cnt lk = - 1"
proof -
  have ne: "bpf_get_current_pid_tgid (sample_env 8 0) \<noteq> bpf_get_current_pid_tgid (sample_env 9 0)"
    by (simp add: sample_env_def bpf_get_current_pid_tgid_def)
  have wait: "ucast (ctx_arg [64, 128] 1) AND FUTEX_CMD_MASK = FUTEX_WAIT" by (simp add: sample_eval)
  have pass: "\<not> futex_filtered sample_args a b c" for a b c by (simp add: futex_filtered_def sample_args_def)
  from race_creation_wraps [OF refl refl ne wait pass pass refl refl, of True 0]
  show ?thesis by (auto simp: ctx_arg_def)
qed

text \<open>Two waits on a tracked lock, interleaved: the first thread reloads the count, the second adds itself,
  stores the new maximum, and is overtaken by the first one's store before it tests the limit.\<close>

definition stale_maximum :: "bpf_env \<Rightarrow> bpf_env \<Rightarrow> syscall_trace_enter \<Rightarrow> race_ev list" where
  "stale_maximum e1 e2 ctx =
     (let t1 = bpf_get_current_pid_tgid e1; t2 = bpf_get_current_pid_tgid e2
      in [Begin_enter e1 ctx, Begin_enter e2 ctx] @ replicate 5 (Step t1) @ replicate 6 (Step t2) @ [Step t1, Step t2, Step t1])"

text \<open>An entering thread up to its reload, and up to its store.\<close>

lemma reload_accesses:
  assumes "bpf_map_lookup_elem (lock_map s) (val_uaddr v) = Some lk" and "user_cnt lk + 1 > max_user_cnt lk"
    and "m = elem_write (lock_map s) (val_uaddr v) (\<lambda>lock. lock\<lparr>user_cnt := user_cnt lock + 1\<rparr>)"
  shows "advances (advance amd) 5 (E_lookup env args v) s = (E_store env args v (user_cnt lk + 1), s\<lparr>lock_map := m\<rparr>)"
    and "advances (advance amd) 6 (E_lookup env args v) s = (E_limit env args v,
      s\<lparr>lock_map := elem_write m (val_uaddr v) (\<lambda>lock. lock\<lparr>max_user_cnt := user_cnt lk + 1\<rparr>)\<rparr>)"
  using assms by (simp_all add: eval_nat_numeral map_laws)

text \<open>Two waits on a tracked lock can leave a recorded maximum below the current number of users, because
  the maximum is a plain store of a value read earlier. If the limit lies between the two, neither
  thread reports the lock, although its users exceed the limit; whole handlers would report it.\<close>

theorem race_maximum_stale:
  assumes t: "t1 = bpf_get_current_pid_tgid e1" "t2 = bpf_get_current_pid_tgid e2" "t1 \<noteq> t2"
    and wait: "ucast (ctx_arg ctx 1) AND FUTEX_CMD_MASK = FUTEX_WAIT"
    and args: "array_lookup_elem (args_map s) 0 = Some args"
    and pass: "\<not> futex_filtered args (env_tgid e1) (env_pid e1) (ctx_arg ctx 0)"
      "\<not> futex_filtered args (env_tgid e2) (env_pid e2) (ctx_arg ctx 0)"
    and lk: "bpf_map_lookup_elem (lock_map s) (ctx_arg ctx 0) = Some lk" "max_user_cnt lk = user_cnt lk"
      "unat (user_cnt lk) + 2 < 2 ^ 32"
    and limit: "max_lock_hold_users args = user_cnt lk + 1"
    and r: "r = run (race_step amd) (stale_maximum e1 e2 ctx) \<lparr>shared = s, handlers = \<lambda>_. Idle\<rparr>"
  shows "handlers r = (\<lambda>_. Idle) \<and> perf_out (shared r) = perf_out s \<and>
    (\<exists>lk'. bpf_map_lookup_elem (lock_map (shared r)) (ctx_arg ctx 0) = Some lk' \<and>
      max_user_cnt lk' = user_cnt lk + 1 \<and> user_cnt lk' = user_cnt lk + 2 \<and> user_cnt lk' > max_lock_hold_users args) \<and>
    perf_out (futex_enter e2 ctx (futex_enter e1 ctx s)) \<noteq> perf_out s"
proof -
  let ?a = "ctx_arg ctx 0" and ?inc = "\<lambda>lock. lock\<lparr>user_cnt := user_cnt lock + 1\<rparr>"
  let ?v = "\<lambda>e. \<lparr>val_ts = bpf_ktime_get_ns e, val_uaddr = ?a\<rparr>"
  define s2 where "s2 = s\<lparr>start := snd (bpf_map_update_elem (snd (bpf_map_update_elem (start s) t1 (?v e1) BPF_ANY)) t2 (?v e2) BPF_ANY)\<rparr>"
  define m1 where "m1 = elem_write (lock_map s) ?a ?inc"
  define m2 where "m2 = elem_write (elem_write m1 ?a ?inc) ?a (\<lambda>lock. lock\<lparr>max_user_cnt := user_cnt lk + 2\<rparr>)"
  define m3 where "m3 = elem_write m2 ?a (\<lambda>lock. lock\<lparr>max_user_cnt := user_cnt lk + 1\<rparr>)"
  have ord: "user_cnt lk + 1 > user_cnt lk" "user_cnt lk + 2 > user_cnt lk" "user_cnt lk + 2 > user_cnt lk + 1"
    using lk(3) by (simp_all add: word_less_nat_alt unat_word_ariths)
  have m1: "bpf_map_lookup_elem m1 ?a = Some (?inc lk)" by (simp add: m1_def map_laws lk)
  have m3: "bpf_map_lookup_elem m3 ?a = Some (lk\<lparr>user_cnt := user_cnt lk + 2, max_user_cnt := user_cnt lk + 1\<rparr>)"
    using m1 by (simp add: m2_def m3_def map_laws add.assoc)
  have "run (race_step amd) [Begin_enter e1 ctx, Begin_enter e2 ctx] \<lparr>shared = s, handlers = \<lambda>_. Idle\<rparr>
      = \<lparr>shared = s2, handlers = (\<lambda>_. Idle)(t1 := E_lookup e1 args (?v e1), t2 := E_lookup e2 args (?v e2))\<rparr>"
    using t wait args pass by (simp add: enter_begin_def Let_def s2_def)
  moreover have "advances (advance amd) 5 (E_lookup e1 args (?v e1)) s2
      = (E_store e1 args (?v e1) (user_cnt lk + 1), s2\<lparr>lock_map := m1\<rparr>)"
    using reload_accesses(1) [of s2 "?v e1" lk] lk ord by (simp add: s2_def m1_def)
  moreover have "advances (advance amd) 6 (E_lookup e2 args (?v e2)) (s2\<lparr>lock_map := m1\<rparr>)
      = (E_limit e2 args (?v e2), s2\<lparr>lock_map := m2\<rparr>)"
    using reload_accesses(2) [of "s2\<lparr>lock_map := m1\<rparr>" "?v e2" "?inc lk"] m1 lk ord
    by (simp add: m2_def add.assoc)
  ultimately have "r = run (race_step amd) [Step t1, Step t2, Step t1] \<lparr>shared = s2\<lparr>lock_map := m2\<rparr>,
      handlers = (\<lambda>_. Idle)(t1 := E_store e1 args (?v e1) (user_cnt lk + 1), t2 := E_limit e2 args (?v e2))\<rparr>"
    using t unfolding r stale_maximum_def Let_def run_append
    by (simp add: futex.run_ticks fun_upd_twist del: run_Cons replicate.simps race_step.simps)
  then have "r = \<lparr>shared = s2\<lparr>lock_map := m3\<rparr>, handlers = \<lambda>_. Idle\<rparr>"
    using t(3) m3 limit by (simp add: m3_def [symmetric] fun_eq_iff)
  moreover have "perf_out (futex_enter e2 ctx (futex_enter e1 ctx s)) \<noteq> perf_out s"
    using wait args pass lk limit ord by (simp add: futex_enter_def Let_def map_laws lock_enter_def add.commute [of 2])
  ultimately show ?thesis using m3 ord limit by (simp add: s2_def)
qed

theorem race_maximum_stale_witness:
  "\<exists>lk. bpf_map_lookup_elem (lock_map (shared (run (race_step True)
      (stale_maximum (sample_env 9 0) (sample_env 10 0) [64, 128])
      \<lparr>shared = run (futex_step True) (take 1 sample_run) (futex_init (sample_args\<lparr>max_lock_hold_users := 2\<rparr>)),
       handlers = \<lambda>_. Idle\<rparr>))) 64 = Some lk \<and> user_cnt lk = 3 \<and> max_user_cnt lk = 2"
proof -
  let ?args = "sample_args\<lparr>max_lock_hold_users := 2\<rparr>"
  let ?s = "run (futex_step True) (take 1 sample_run) (futex_init ?args)"
  have ne: "bpf_get_current_pid_tgid (sample_env 9 0) \<noteq> bpf_get_current_pid_tgid (sample_env 10 0)"
    by (simp add: sample_env_def bpf_get_current_pid_tgid_def)
  have wait: "ucast (ctx_arg [64, 128] 1) AND FUTEX_CMD_MASK = FUTEX_WAIT" by (simp add: sample_eval)
  have args: "array_lookup_elem (args_map ?s) 0 = Some ?args" by (simp add: sample_eval)
  have pass: "\<not> futex_filtered ?args a b c" for a b c by (simp add: futex_filtered_def sample_args_def)
  have lk: "bpf_map_lookup_elem (lock_map ?s) (ctx_arg [64, 128] 0) = Some (lock_init 64)"
    "max_user_cnt (lock_init 64) = user_cnt (lock_init 64)" "unat (user_cnt (lock_init 64)) + 2 < 2 ^ 32"
    "max_lock_hold_users ?args = user_cnt (lock_init 64) + 1"
    by (simp_all add: sample_eval)
  from race_maximum_stale [OF refl refl ne wait args pass pass lk refl, of True] show ?thesis
    by (auto simp: ctx_arg_def lock_init_def)
qed

text \<open>C9. However the accesses of the handlers interleave, the count of a lock that was tracked when they began covers the threads
  that use it, and while one uses it the decrement of an exit does not wrap: the atomic additions lose no
  update. The lock was tracked after a run of whole handlers, no handler was running then, and the
  two runs together have fewer than \<open>2 ^ 32\<close> events. A lock that interleaved handlers create is another matter: see the race
  of two creations above.\<close>

theorem race_count_covers_users:
  assumes "bpf_map_lookup_elem (lock_map (run (futex_step amd) es0 (futex_init args))) l = Some lk0"
    and "length es0 + length es < 2 ^ 32"
    and "r = run (race_step amd) es \<lparr>shared = run (futex_step amd) es0 (futex_init args), handlers = \<lambda>_. Idle\<rparr>"
  shows "\<exists>lk. bpf_map_lookup_elem (lock_map (shared r)) l = Some lk \<and> card (users l r) \<le> unat (user_cnt lk) \<and>
    (users l r \<noteq> {} \<longrightarrow> unat (user_cnt (lock_exit lk)) + 1 = unat (user_cnt lk))"
proof -
  let ?s = "run (futex_step amd) es0 (futex_init args)"
  have inv: "users_inv (0 + length es0) ?s" using assms(2) by (intro users.run_inv users_inv_init) simp
  then have "lock_ok (length es0) ?s l" by (simp add: users_inv_def)
  then have "tracked_inv l (length es0) \<lparr>shared = ?s, handlers = \<lambda>_. Idle\<rparr>"
    using inv assms(1) by (simp add: tracked_inv_def users_inv_def users_def lock_ok_def)
  from tracked.run_inv [OF this, of es amd] assms(2,3) obtain lk where
    lk: "bpf_map_lookup_elem (lock_map (shared r)) l = Some lk" "card (users l r) \<le> unat (user_cnt lk)"
    by (auto simp: tracked_inv_def)
  have "unat (user_cnt (lock_exit lk)) + 1 = unat (user_cnt lk)" if "users l r \<noteq> {}"
  proof -
    have "0 < card (users l r)" using that by (simp add: card_gt_0_iff)
    then have "0 < unat (user_cnt lk)" using lk(2) by linarith
    then show ?thesis using unat_dec [of "user_cnt lk"] by (simp add: lock_exit_def)
  qed
  with lk show ?thesis by blast
qed

text \<open>Thread 8 waits, then the accesses of threads 9 and 10 interleave on the same lock: it counts three.\<close>

theorem race_count_covers_users_witness:
  "\<exists>r lk. r = run (race_step True) (stale_maximum (sample_env 9 0) (sample_env 10 0) [64, 128])
      \<lparr>shared = run (futex_step True) (take 1 sample_run) (futex_init (sample_args\<lparr>max_lock_hold_users := 2\<rparr>)),
       handlers = \<lambda>_. Idle\<rparr> \<and>
     bpf_map_lookup_elem (lock_map (shared r)) 64 = Some lk \<and> user_cnt lk = 3 \<and> card (users 64 r) \<le> 3"
proof -
  let ?args = "sample_args\<lparr>max_lock_hold_users := 2\<rparr>" and ?es = "stale_maximum (sample_env 9 0) (sample_env 10 0) [64, 128]"
  have "bpf_map_lookup_elem (lock_map (run (futex_step True) (take 1 sample_run) (futex_init ?args))) 64 = Some (lock_init 64)"
    by (simp add: sample_eval)
  moreover have "length (take 1 sample_run) + length ?es < 2 ^ 32"
    by (simp add: sample_run_def stale_maximum_def Let_def)
  ultimately show ?thesis
    using race_count_covers_users [OF _ _ refl, of True "take 1 sample_run" ?args 64 "lock_init 64" ?es] race_maximum_stale_witness
    by force
qed

end
