(* ===== verification/Offcpu_History.thy ===== *)
theory Offcpu_History
  imports Offcpu
begin

text \<open>
  What a record of \<open>offcpu.bpf.c\<close> says about the run that led to it. The history of a task is the list of its selected
  switches off a processor and of its selected wake-ups; the element of the start map is a function of it, and a
  record goes back to the last of each before it.
\<close>

section \<open>The history of a task\<close>

fun left_in :: "user_args \<Rightarrow> u32 \<Rightarrow> offcpu_ev \<Rightarrow> bpf_env list" where
  "left_in args k (Wakeup env t st) = []"
| "left_in args k (Switch env cur pre) = (if task_pid pre = k \<and> target_filter args (task_tgid pre) k then [env] else [])"

fun woken_in :: "user_args \<Rightarrow> u32 \<Rightarrow> offcpu_ev \<Rightarrow> bpf_env list" where
  "woken_in args k (Wakeup env t st) =
     (if task_pid t = k \<and> get_task_state t AND st \<noteq> 0 \<and> task_on_rq t \<noteq> 1 \<and> target_filter args (task_tgid t) k then [env] else [])"
| "woken_in args k (Switch env cur pre) = []"

definition departures :: "user_args \<Rightarrow> u32 \<Rightarrow> offcpu_ev list \<Rightarrow> bpf_env list" where
  "departures args k es = concat (map (left_in args k) es)"

definition wakeups :: "user_args \<Rightarrow> u32 \<Rightarrow> offcpu_ev list \<Rightarrow> bpf_env list" where
  "wakeups args k es = concat (map (woken_in args k) es)"

lemma history_simps [simp]:
  "departures args k [] = []" "wakeups args k [] = []"
  "departures args k (es @ fs) = departures args k es @ departures args k fs"
  "wakeups args k (es @ fs) = wakeups args k es @ wakeups args k fs"
  "departures args k [e] = left_in args k e" "wakeups args k [e] = woken_in args k e"
  by (simp_all add: departures_def wakeups_def)

text \<open>The clock and processor of the last departure, and the last waker; zeros when there is none.\<close>

definition last_left :: "bpf_env list \<Rightarrow> u64 \<times> u32" where
  "last_left ls = (if ls = [] then (0, 0) else (env_ktime (last ls), env_cpu (last ls)))"

definition last_woken :: "bpf_env list \<Rightarrow> u32 \<times> u32 \<times> u64 \<times> bytes" where
  "last_woken ws = (if ws = [] then (0, 0, 0, replicate TASK_COMM_LEN 0)
     else (env_pid (last ws), env_tgid (last ws), env_ktime (last ws), bpf_get_current_comm TASK_COMM_LEN (last ws)))"

definition left_of :: "trace_event_t \<Rightarrow> u64 \<times> u32" where
  "left_of ep = (target_offcpu_ns (te_target ep), target_offcpu_id (te_target ep))"

definition woken_of :: "waker_t \<Rightarrow> u32 \<times> u32 \<times> u64 \<times> bytes" where
  "woken_of w = (waker_pid w, waker_tgid w, waker_offcpu_ns w, waker_comm w)"

text \<open>The start map as a function of the history: a task without an element has no history, unless the map is full.\<close>

definition tells :: "bpf_env list \<Rightarrow> bpf_env list \<Rightarrow> nat \<Rightarrow> trace_event_t option \<Rightarrow> bool" where
  "tells ls ws room el = (case el of
      None \<Rightarrow> room = 0 \<or> ls = [] \<and> ws = []
    | Some ep \<Rightarrow> left_of ep = last_left ls \<and> woken_of (te_waker ep) = last_woken ws)"

definition history_inv :: "user_args \<Rightarrow> offcpu_ev list \<Rightarrow> offcpu_state \<Rightarrow> bool" where
  "history_inv args es s \<longleftrightarrow> (\<forall>k. tells (departures args k es) (wakeups args k es) (hash_free (start s))
     (bpf_map_lookup_elem (start s) k))"

lemma tells_less: "tells ls ws room el \<Longrightarrow> room' \<le> room \<Longrightarrow> tells ls ws room' el"
  by (auto simp: tells_def split: option.splits)

lemma put_free: "hash_free (put m k f v) \<le> hash_free m"
  using hash_del.free_insert [of m k v BPF_ANY]
  by (auto simp: put_def hash_del.free_store hash.update_err split: option.splits)

lemma tells_put:
  assumes "tells ls ws (hash_free m) (bpf_map_lookup_elem m k)"
    and "ls = [] \<Longrightarrow> ws = [] \<Longrightarrow> tells ls' ws' 0 (Some v)"
    and "\<And>ep. tells ls ws 0 (Some ep) \<Longrightarrow> tells ls' ws' 0 (Some (f ep))"
  shows "tells ls' ws' (hash_free (put m k f v)) (bpf_map_lookup_elem (put m k f v) k)"
proof (cases "bpf_map_lookup_elem m k")
  case None
  then show ?thesis
    using assms(1,2) put_free [of m k f v] by (auto simp: put_lookup put_value_def tells_def)
next
  case (Some ep)
  then show ?thesis using assms(1,3) by (auto simp: put_lookup put_value_def tells_def)
qed

lemma history_put:
  assumes "history_inv args es s" and "start s' = put (start s) k f v"
    and other: "\<And>k'. k' \<noteq> k \<Longrightarrow> left_in args k' e = [] \<and> woken_in args k' e = []"
    and first: "tells (left_in args k e) (woken_in args k e) 0 (Some v)"
    and upd: "\<And>ls ws ep. tells ls ws 0 (Some ep) \<Longrightarrow> tells (ls @ left_in args k e) (ws @ woken_in args k e) 0 (Some (f ep))"
  shows "history_inv args (es @ [e]) s'"
  unfolding history_inv_def
proof
  fix k'
  have old: "tells (departures args k' es) (wakeups args k' es) (hash_free (start s)) (bpf_map_lookup_elem (start s) k')"
    using assms(1) by (simp add: history_inv_def)
  show "tells (departures args k' (es @ [e])) (wakeups args k' (es @ [e])) (hash_free (start s')) (bpf_map_lookup_elem (start s') k')"
  proof (cases "k' = k")
    case True
    show ?thesis
      unfolding assms(2) True by (rule tells_put) (use old True first upd in auto)
  next
    case False
    then show ?thesis
      using tells_less [OF old put_free [of "start s" k f v]] other by (simp add: assms(2) put_lookup)
  qed
qed

lemma history_same:
  assumes "history_inv args es s" and "start s' = start s" and "\<And>k. left_in args k e = [] \<and> woken_in args k e = []"
  shows "history_inv args (es @ [e]) s'"
  using assms by (simp add: history_inv_def)

lemma history_wake:
  assumes "history_inv args es s" and "offcpu_inv args s"
  shows "history_inv args (es @ [Wakeup env t st]) (try_to_wake_up_hook env t st s)"
proof (cases "wake_applies s t st")
  case True
  then have "get_task_state t AND st \<noteq> 0 \<and> task_on_rq t \<noteq> 1 \<and> target_filter args (task_tgid t) (task_pid t)"
    using assms(2) by (simp add: wake_applies_def offcpu_inv_def is_target_filter)
  then show ?thesis
    using True
    by (intro history_put [OF assms(1), where k = "task_pid t" and f = "set_waker env" and v = "first_woken env t"])
      (auto simp: wake_start tells_def last_left_def last_woken_def left_of_def woken_of_def first_woken_def set_waker_def
        zero_event_def zero_target_def bpf_ktime_get_ns_def Let_def)
next
  case False
  then have "\<not> (get_task_state t AND st \<noteq> 0 \<and> task_on_rq t \<noteq> 1 \<and> target_filter args (task_tgid t) (task_pid t))"
    using assms(2) by (simp add: wake_applies_def offcpu_inv_def is_target_filter)
  with False show ?thesis by (intro history_same [OF assms(1)]) (auto simp: wake_start)
qed

text \<open>When the incoming task is looked up, the departure of the outgoing one is in the map.\<close>

lemma history_mid:
  assumes "history_inv args es s" and "offcpu_inv args s"
  shows "history_inv args (es @ [Switch env cur pre]) (mid_switch env pre s)"
proof -
  have target: "is_target_task s (task_tgid pre) (task_pid pre) = target_filter args (task_tgid pre) (task_pid pre)"
    using assms(2) by (simp add: offcpu_inv_def is_target_filter)
  have start: "start (mid_switch env pre s) = (if target_filter args (task_tgid pre) (task_pid pre)
      then put (start s) (task_pid pre) (departed env pre) (first_departed env pre) else start s)"
    using target by (simp add: mid_switch_def prev_start
        cong: is_target_cong [of _ "sched_cache_update pre (env_ktime env) (env_cpu env) s"])
  show ?thesis
  proof (cases "target_filter args (task_tgid pre) (task_pid pre)")
    case True
    then show ?thesis
      by (intro history_put [OF assms(1), where k = "task_pid pre" and f = "departed env pre" and v = "first_departed env pre"])
        (auto simp: start tells_def last_left_def last_woken_def left_of_def woken_of_def departed_def first_departed_def
          zero_event_def zero_waker_def)
  next
    case False
    then show ?thesis by (intro history_same [OF assms(1)]) (auto simp: start)
  qed
qed

lemma history_cur:
  assumes "history_inv args es s" and "slots_ready s"
  shows "history_inv args es (record_cur env args t s)"
proof -
  have "tells ls ws room (map_option (settled env t) el) = tells ls ws room el" for ls ws room el
    by (simp add: tells_def left_of_def woken_of_def settled_def resumed_def split: option.split)
  then show ?thesis using assms(1) by (simp add: history_inv_def cur_start [OF assms(2)] map_laws)
qed

lemma history_step:
  assumes "history_inv args es s" and "offcpu_inv args s"
  shows "history_inv args (es @ [e]) (offcpu_step e s)"
proof (cases e)
  case (Wakeup env t st)
  with history_wake [OF assms] show ?thesis by simp
next
  case (Switch env cur pre)
  have "slots_ready s" "args_map s ! 0 = args" using assms(2) by (simp_all add: offcpu_inv_def)
  then show ?thesis
    using Switch history_cur [OF history_mid [OF assms] mid_switch_ready] by (simp add: switch_mid)
qed

lemma history_run: "history_inv args es (run offcpu_step es (offcpu_init args))"
proof (induction es rule: rev_induct)
  case Nil
  show ?case by (simp add: history_inv_def tells_def offcpu_init_def)
next
  case (snoc e es)
  have "offcpu_inv args (run offcpu_step es (offcpu_init args))" by (intro offcpu.run_inv offcpu_inv_init)
  from history_step [OF snoc this] show ?case by (simp add: run_append)
qed

section \<open>The origin of a record\<close>

text \<open>A record is written by a switch to its task; the element it is made of tells the history up to that switch.\<close>

lemma report_at:
  assumes inv: "offcpu_inv args s" and hist: "history_inv args es s"
    and pe: "pe \<in> set (perf_out (offcpu_step e s))" "pe \<notin> set (perf_out s)"
  shows "\<exists>env cur p ep pe0. e = Switch env cur p \<and> target_filter args (task_tgid cur) (task_pid cur) \<and>
    target_pid (te_target ep) = task_pid cur \<and>
    in_range args (cur_delta env ep) (target_offcpu_ns (te_target ep)) \<and> pe = cur_perf env args cur ep pe0 \<and>
    left_of ep = last_left (departures args (task_pid cur) (es @ [e])) \<and>
    woken_of (te_waker ep) = last_woken (wakeups args (task_pid cur) (es @ [e]))"
proof (cases e)
  case (Wakeup env t st)
  then show ?thesis using pe by simp
next
  case (Switch env cur p)
  have ready: "slots_ready s" and args: "args_map s ! 0 = args" using inv by (simp_all add: offcpu_inv_def)
  let ?m = "mid_switch env p s"
  have rm: "slots_ready ?m" by (rule mid_switch_ready [OF ready])
  have ok: "start_ok args (start ?m)"
  proof -
    have "offcpu_inv args (if rq_dur_ms args \<noteq> 0 then sched_cache_update p (env_ktime env) (env_cpu env) s else s)"
      using inv by (simp add: offcpu_inv_def slots_ready_cache_update)
    from offcpu_inv_prev [OF this, of env p] show ?thesis by (simp add: offcpu_inv_def mid_switch_def args)
  qed
  have step: "offcpu_step e s = record_cur env args cur ?m" using Switch ready args by (simp add: switch_mid)
  have hm: "history_inv args (es @ [e]) ?m" using history_mid [OF hist inv] Switch by simp
  from rm show ?thesis
  proof (cases rule: record_cur_cases [of ?m env args cur])
    case skip
    then show ?thesis using pe step by simp
  next
    case (quiet ep)
    have "perf_out (record_cur env args cur ?m) = perf_out ?m"
      by (subst record_cur_quiet(2) [OF quiet]) simp
    then show ?thesis using pe step by simp
  next
    case (emit ep)
    let ?pe0 = "perf_event_cache_map ?m (env_cpu env) ! 0"
    have "pe = cur_perf env args cur ep ?pe0"
      using pe step record_cur_emit(2) [OF rm emit] by simp
    moreover have "target_filter args (task_tgid cur) (task_pid cur)"
      using emit(1) rm args by (simp add: is_target_filter)
    moreover have "target_pid (te_target ep) = task_pid cur"
      using ok emit(2) by (auto simp: start_ok_def entry_ok_def)
    moreover have "tells (departures args (task_pid cur) (es @ [e])) (wakeups args (task_pid cur) (es @ [e])) (hash_free (start ?m)) (Some ep)"
      using hm emit(2) unfolding history_inv_def by metis
    ultimately show ?thesis using Switch emit(3) by (auto simp: tells_def)
  qed
qed

lemma report_origin:
  assumes "pe \<in> set (perf_out (run offcpu_step es (offcpu_init args)))"
  shows "\<exists>pre e post env cur p ep pe0. es = pre @ [e] @ post \<and> e = Switch env cur p \<and>
    target_filter args (task_tgid cur) (task_pid cur) \<and> target_pid (te_target ep) = task_pid cur \<and>
    in_range args (cur_delta env ep) (target_offcpu_ns (te_target ep)) \<and> pe = cur_perf env args cur ep pe0 \<and>
    left_of ep = last_left (departures args (task_pid cur) (pre @ [e])) \<and>
    woken_of (te_waker ep) = last_woken (wakeups args (task_pid cur) (pre @ [e]))"
  using assms
proof (induction es rule: rev_induct)
  case Nil
  then show ?case by (simp add: offcpu_init_def)
next
  case (snoc e es)
  let ?s = "run offcpu_step es (offcpu_init args)"
  have inv: "offcpu_inv args ?s" by (intro offcpu.run_inv offcpu_inv_init)
  show ?case
  proof (cases "pe \<in> set (perf_out ?s)")
    case True
    from snoc.IH [OF this] show ?thesis by (metis append.assoc)
  next
    case False
    have "pe \<in> set (perf_out (offcpu_step e ?s))" using snoc.prems by (simp add: run_append)
    from report_at [OF inv history_run this False] show ?thesis by (metis append_Nil2 append.assoc)
  qed
qed

section \<open>Properties\<close>

text \<open>C24. Every record of a run goes back to real hooks: to a switch of the run that gave a processor to a selected task, the
  one the record names, and to the last selected switch before it that took that task off. The record has their
  clocks, the duration is the time between them in milliseconds, as a signed 32-bit number, inside the configured
  range; the waker is that of the last wake-up before, or zero when there was none.\<close>

theorem offcpu_reports_originate:
  assumes "pe \<in> set (perf_out (run offcpu_step es (offcpu_init args)))"
  shows "\<exists>pre env cur p post e0. es = pre @ [Switch env cur p] @ post \<and> target_filter args (task_tgid cur) (task_pid cur) \<and>
    departures args (task_pid cur) (pre @ [Switch env cur p]) \<noteq> [] \<and>
    e0 = last (departures args (task_pid cur) (pre @ [Switch env cur p])) \<and>
    target_pid (pe_target pe) = task_pid cur \<and> target_comm (pe_target pe) = bpf_get_current_comm TASK_COMM_LEN env \<and>
    pe_ts_ns pe = env_ktime env \<and> target_oncpu_ns (pe_target pe) = env_ktime env \<and>
    target_offcpu_ns (pe_target pe) = env_ktime e0 \<and> env_ktime e0 \<noteq> 0 \<and>
    pe_dur_ms pe = scast (offcpu_delta (env_ktime env) (env_ktime e0)) \<and>
    ((env_ktime env - env_ktime e0) div 1000000 < 2 ^ 31 \<longrightarrow> pe_dur_ms pe = (env_ktime env - env_ktime e0) div 1000000) \<and>
    min_offcpu_ms args \<le> offcpu_delta (env_ktime env) (env_ktime e0) \<and>
    offcpu_delta (env_ktime env) (env_ktime e0) \<le> max_offcpu_ms args \<and>
    woken_of (pe_waker pe) = last_woken (wakeups args (task_pid cur) pre)"
proof -
  from report_origin [OF assms] obtain pre post env cur p ep pe0 where
    o: "es = pre @ [Switch env cur p] @ post" "target_filter args (task_tgid cur) (task_pid cur)"
      "target_pid (te_target ep) = task_pid cur" "in_range args (cur_delta env ep) (target_offcpu_ns (te_target ep))"
      "pe = cur_perf env args cur ep pe0"
    and h: "left_of ep = last_left (departures args (task_pid cur) (pre @ [Switch env cur p]))"
      "woken_of (te_waker ep) = last_woken (wakeups args (task_pid cur) (pre @ [Switch env cur p]))"
    by blast
  let ?ds = "departures args (task_pid cur) (pre @ [Switch env cur p])"
  have ne: "?ds \<noteq> []" using o(4) h(1) by (auto simp: in_range_def left_of_def last_left_def simp del: history_simps)
  then have off: "target_offcpu_ns (te_target ep) = env_ktime (last ?ds)"
    using h(1) by (simp add: left_of_def last_left_def del: history_simps)
  show ?thesis
    by (rule exI [of _ pre], rule exI [of _ env], rule exI [of _ cur], rule exI [of _ p], rule exI [of _ post],
        rule exI [of _ "last ?ds"])
      (use o h(2) ne off offcpu_delta_exact(1) in
        \<open>simp add: in_range_def cur_delta_def del: history_simps, simp add: history_simps(4,6)\<close>)
qed

theorem offcpu_reports_originate_witness:
  "\<exists>pe \<in> set sample_out. pe_dur_ms pe = 3 \<and>
     (\<exists>pre env cur p post. sample_sleep 1000000 0 5000000 = pre @ [Switch env cur p] @ post \<and>
        pe_ts_ns pe = env_ktime env \<and> departures sample_args (task_pid cur) (pre @ [Switch env cur p]) \<noteq> [] \<and>
        woken_of (pe_waker pe) = last_woken (wakeups sample_args (task_pid cur) pre))"
proof -
  obtain pe where pe: "pe \<in> set sample_out" "pe_dur_ms pe = 3" using sample_out_one by (metis list.set_intros(1))
  from offcpu_reports_originate [OF pe(1) [unfolded sample_out_def]] pe show ?thesis by blast
qed

end
