(* ===== verification/Offcpu_Race.thy ===== *)
theory Offcpu_Race
  imports Interleave Offcpu_History
begin

text \<open>
  The offcpu hooks on several processors at once. A hook runs on one processor until it ends. Every lookup, every store to
  and every read of a field of an element, and every insertion is a step of its own; a name counts as one field.
  The ring and the scratch record belong to the processor. An uninterrupted hook is the hook of \<^emph>\<open>Offcpu\<close>. Whatever
  the schedule, a report holds only what hooks of its task stored. Its fields need not fit together: two wakers at
  once leave a waker that is neither, and a task that is switched out and woken for the first time at the
  same moment loses one of the two records.
\<close>

section \<open>Hooks in steps\<close>

datatype off_handler =
    H_idle
  | W_lookup bpf_env task_struct s32
  | W_stores bpf_env task_struct nat
  | W_insert bpf_env task_struct s32
  | P_lookup bpf_env user_args task_struct task_struct
  | P_stores bpf_env user_args task_struct task_struct nat
  | P_insert bpf_env user_args task_struct task_struct
  | Q_lookup bpf_env user_args task_struct
  | Q_stores bpf_env user_args task_struct nat
  | Q_delta bpf_env user_args task_struct
  | Q_seen bpf_env user_args task_struct s32
  | Q_runq bpf_env user_args task_struct s32
  | Q_copy bpf_env user_args task_struct s32 s32 "trace_event_t list"
  | Q_emit bpf_env user_args task_struct s32 s32 trace_event_t
  | Q_settle bpf_env user_args task_struct

type_synonym off_race = "(off_handler, offcpu_state) conc"

text \<open>The stores through a pointer, in the order of the code: of the wake-up hook, for the outgoing and for the incoming
  task.\<close>

definition waker_stores :: "bpf_env \<Rightarrow> (trace_event_t \<Rightarrow> trace_event_t) list" where
  "waker_stores env =
     [\<lambda>ep. ep\<lparr>te_waker := (te_waker ep)\<lparr>waker_pid := tid_of (bpf_get_current_pid_tgid env)\<rparr>\<rparr>,
      \<lambda>ep. ep\<lparr>te_waker := (te_waker ep)\<lparr>waker_tgid := tgid_of (bpf_get_current_pid_tgid env)\<rparr>\<rparr>,
      \<lambda>ep. ep\<lparr>te_waker := (te_waker ep)\<lparr>waker_comm := bpf_get_current_comm TASK_COMM_LEN env\<rparr>\<rparr>,
      \<lambda>ep. ep\<lparr>te_waker := (te_waker ep)\<lparr>waker_kern_stack_id := ucast (bpf_get_stackid env BPF_F_FAST_STACK_CMP)\<rparr>\<rparr>,
      \<lambda>ep. ep\<lparr>te_waker := (te_waker ep)
        \<lparr>waker_user_stack_id := ucast (bpf_get_stackid env (BPF_F_USER_STACK OR BPF_F_FAST_STACK_CMP))\<rparr>\<rparr>,
      \<lambda>ep. ep\<lparr>te_target := (te_target ep)\<lparr>target_onrq_ns := bpf_ktime_get_ns env\<rparr>\<rparr>,
      \<lambda>ep. ep\<lparr>te_waker := (te_waker ep)\<lparr>waker_offcpu_ns := bpf_ktime_get_ns env\<rparr>\<rparr>]"

definition prev_stores :: "bpf_env \<Rightarrow> task_struct \<Rightarrow> (trace_event_t \<Rightarrow> trace_event_t) list" where
  "prev_stores env pre_task =
     [\<lambda>ep. ep\<lparr>te_target := (te_target ep)\<lparr>target_offcpu_ns := bpf_ktime_get_ns env\<rparr>\<rparr>,
      \<lambda>ep. ep\<lparr>te_target := (te_target ep)\<lparr>target_offcpu_id := bpf_get_smp_processor_id env\<rparr>\<rparr>,
      \<lambda>ep. ep\<lparr>te_target := (te_target ep)\<lparr>target_run_delay_ns := task_run_delay pre_task\<rparr>\<rparr>]"

definition cur_stores :: "bpf_env \<Rightarrow> (trace_event_t \<Rightarrow> trace_event_t) list" where
  "cur_stores env =
     [\<lambda>ep. ep\<lparr>te_target := (te_target ep)\<lparr>target_oncpu_id := bpf_get_smp_processor_id env\<rparr>\<rparr>,
      \<lambda>ep. ep\<lparr>te_target := (te_target ep)\<lparr>target_oncpu_ns := bpf_ktime_get_ns env\<rparr>\<rparr>]"

text \<open>The copies of the two structs into the scratch record read one field after the other, first those of the target.
  \<open>eps\<close> is the element at the moment of each read, of which only the field that is read is used.\<close>

definition copied :: "trace_event_t list \<Rightarrow> trace_event_t" where
  "copied eps = \<lparr>
     te_waker = \<lparr>waker_pid = waker_pid (te_waker (eps ! 14)), waker_tgid = waker_tgid (te_waker (eps ! 15)),
        waker_t_pid = waker_t_pid (te_waker (eps ! 16)), waker_pad = waker_pad (te_waker (eps ! 17)),
        waker_t_comm = waker_t_comm (te_waker (eps ! 18)), waker_user_stack_id = waker_user_stack_id (te_waker (eps ! 19)),
        waker_kern_stack_id = waker_kern_stack_id (te_waker (eps ! 20)), waker_comm = waker_comm (te_waker (eps ! 21)),
        waker_oncpu_ns = waker_oncpu_ns (te_waker (eps ! 22)), waker_offcpu_ns = waker_offcpu_ns (te_waker (eps ! 23)),
        waker_onrq_ns = waker_onrq_ns (te_waker (eps ! 24)), waker_offcpu_id = waker_offcpu_id (te_waker (eps ! 25)),
        waker_oncpu_id = waker_oncpu_id (te_waker (eps ! 26)), waker_run_delay_ns = waker_run_delay_ns (te_waker (eps ! 27))\<rparr>,
     te_target = \<lparr>target_pid = target_pid (te_target (eps ! 0)), target_tgid = target_tgid (te_target (eps ! 1)),
        target_w_pid = target_w_pid (te_target (eps ! 2)), target_pad = target_pad (te_target (eps ! 3)),
        target_w_comm = target_w_comm (te_target (eps ! 4)), target_user_stack_id = target_user_stack_id (te_target (eps ! 5)),
        target_kern_stack_id = target_kern_stack_id (te_target (eps ! 6)), target_comm = target_comm (te_target (eps ! 7)),
        target_oncpu_ns = target_oncpu_ns (te_target (eps ! 8)), target_offcpu_ns = target_offcpu_ns (te_target (eps ! 9)),
        target_onrq_ns = target_onrq_ns (te_target (eps ! 10)), target_offcpu_id = target_offcpu_id (te_target (eps ! 11)),
        target_oncpu_id = target_oncpu_id (te_target (eps ! 12)), target_run_delay_ns = target_run_delay_ns (te_target (eps ! 13))\<rparr>\<rparr>"

text \<open>The scratch record as it is sent, with the dump of the ring.\<close>

definition emit_report :: "bpf_env \<Rightarrow> user_args \<Rightarrow> s32 \<Rightarrow> s32 \<Rightarrow> trace_event_t \<Rightarrow> perf_event_t \<Rightarrow> offcpu_state \<Rightarrow> offcpu_state" where
  "emit_report env args delta runq_dur ep pe s =
     (let cpu_id = bpf_get_smp_processor_id env;
          pe = fill_perf_event env ep delta runq_dur pe;
          dump = (runq_dur > rq_dur_ms args \<and> rq_dur_ms args \<noteq> 0);
          s = (if dump then sched_cache_dump cpu_id s else s);
          pe = (if dump then pe\<lparr>pe_is_sched_cache_dump := 1, pe_cpu := cpu_id\<rparr> else pe)
      in s\<lparr>perf_event_cache_map := percpu_elem_write (perf_event_cache_map s) cpu_id 0 (\<lambda>_. pe),
           perf_out := perf_out s @ [pe]\<rparr>)"

text \<open>One store through the pointer to the element of a task.\<close>

definition store_at :: "u32 \<Rightarrow> (trace_event_t \<Rightarrow> trace_event_t) \<Rightarrow> offcpu_state \<Rightarrow> offcpu_state" where
  "store_at pid f s = s\<lparr>start := elem_write (start s) pid f\<rparr>"

text \<open>Both hooks up to their first lookup in the start map.\<close>

fun off_begin :: "offcpu_ev \<Rightarrow> offcpu_state \<Rightarrow> off_handler \<times> offcpu_state" where
  "off_begin (Wakeup env task state) s =
     (if get_task_state task AND state = 0 \<or> task_on_rq task = 1 then (H_idle, s)
      else if \<not> is_target_task s (task_tgid task) (task_pid task) then (H_idle, s)
      else (W_lookup env task state, s))"
| "off_begin (Switch env cur_task pre_task) s =
     (case array_lookup_elem (args_map s) 0 of
        None \<Rightarrow> (H_idle, s)
      | Some args \<Rightarrow>
          (P_lookup env args cur_task pre_task,
           if rq_dur_ms args \<noteq> 0
           then sched_cache_update pre_task (bpf_ktime_get_ns env) (bpf_get_smp_processor_id env) s else s))"

text \<open>The element a lookup has found is never removed, so a later access through its pointer finds it again.\<close>

fun off_advance :: "off_handler \<Rightarrow> offcpu_state \<Rightarrow> off_handler \<times> offcpu_state" where
  "off_advance H_idle s = (H_idle, s)"
| "off_advance (W_lookup env task state) s =
     (case bpf_map_lookup_elem (start s) (task_pid task) of
        Some ep \<Rightarrow> (W_stores env task 0, s)
      | None \<Rightarrow> (W_insert env task state, s))"
| "off_advance (W_stores env task i) s =
     (if Suc i < length (waker_stores env) then W_stores env task (Suc i) else H_idle,
      store_at (task_pid task) (waker_stores env ! i) s)"
| "off_advance (W_insert env task state) s =
     (H_idle, s\<lparr>start := snd (bpf_map_update_elem (start s) (task_pid task) (first_woken env task) BPF_ANY)\<rparr>)"
| "off_advance (P_lookup env args cur_task pre_task) s =
     (if is_target_task s (task_tgid pre_task) (task_pid pre_task)
      then case bpf_map_lookup_elem (start s) (task_pid pre_task) of
          None \<Rightarrow> (P_insert env args cur_task pre_task, s)
        | Some ep \<Rightarrow> (P_stores env args cur_task pre_task 0, s)
      else (Q_lookup env args cur_task, s))"
| "off_advance (P_stores env args cur_task pre_task i) s =
     (if Suc i < length (prev_stores env pre_task) then P_stores env args cur_task pre_task (Suc i) else Q_lookup env args cur_task,
      store_at (task_pid pre_task) (prev_stores env pre_task ! i) s)"
| "off_advance (P_insert env args cur_task pre_task) s =
     (Q_lookup env args cur_task,
      update_new_task_info (bpf_ktime_get_ns env) (bpf_get_smp_processor_id env) pre_task s)"
| "off_advance (Q_lookup env args cur_task) s =
     (if \<not> is_target_task s (task_tgid cur_task) (task_pid cur_task) then (H_idle, s)
      else case bpf_map_lookup_elem (start s) (task_pid cur_task) of
        None \<Rightarrow> (H_idle, s)
      | Some ep \<Rightarrow> (Q_stores env args cur_task 0, s))"
| "off_advance (Q_stores env args cur_task i) s =
     (if Suc i < length (cur_stores env) then Q_stores env args cur_task (Suc i) else Q_delta env args cur_task,
      store_at (task_pid cur_task) (cur_stores env ! i) s)"
| "off_advance (Q_delta env args cur_task) s =
     (case bpf_map_lookup_elem (start s) (task_pid cur_task) of
        None \<Rightarrow> (H_idle, s)
      | Some ep \<Rightarrow>
          let delta = offcpu_delta (bpf_ktime_get_ns env) (target_offcpu_ns (te_target ep))
          in (if min_offcpu_ms args \<le> delta \<and> delta \<le> max_offcpu_ms args then Q_seen env args cur_task delta
              else Q_settle env args cur_task, s))"
| "off_advance (Q_seen env args cur_task delta) s =
     (case bpf_map_lookup_elem (start s) (task_pid cur_task) of
        None \<Rightarrow> (H_idle, s)
      | Some ep \<Rightarrow>
          if target_offcpu_ns (te_target ep) \<noteq> 0
          then case percpu_lookup_elem (perf_event_cache_map s) (bpf_get_smp_processor_id env) 0 of
              None \<Rightarrow> (H_idle, s)
            | Some pe \<Rightarrow> (Q_runq env args cur_task delta, s)
          else (Q_settle env args cur_task, s))"
| "off_advance (Q_runq env args cur_task delta) s =
     (case bpf_map_lookup_elem (start s) (task_pid cur_task) of
        None \<Rightarrow> (H_idle, s)
      | Some ep \<Rightarrow> (Q_copy env args cur_task delta
          (ucast ((task_run_delay cur_task - target_run_delay_ns (te_target ep)) div 1000000)) [], s))"
| "off_advance (Q_copy env args cur_task delta runq_dur eps) s =
     (case bpf_map_lookup_elem (start s) (task_pid cur_task) of
        None \<Rightarrow> (H_idle, s)
      | Some ep \<Rightarrow>
          (if length eps < 27 then Q_copy env args cur_task delta runq_dur (eps @ [ep])
           else Q_emit env args cur_task delta runq_dur (copied (eps @ [ep])), s))"
| "off_advance (Q_emit env args cur_task delta runq_dur ep) s =
     (case percpu_lookup_elem (perf_event_cache_map s) (bpf_get_smp_processor_id env) 0 of
        None \<Rightarrow> (H_idle, s)
      | Some pe \<Rightarrow> (Q_settle env args cur_task, emit_report env args delta runq_dur ep pe s))"
| "off_advance (Q_settle env args cur_task) s =
     (H_idle, store_at (task_pid cur_task)
        (\<lambda>ep. ep\<lparr>te_target := (te_target ep)\<lparr>target_run_delay_ns := task_run_delay cur_task\<rparr>\<rparr>) s)"

fun off_env :: "offcpu_ev \<Rightarrow> bpf_env" where
  "off_env (Wakeup env task state) = env"
| "off_env (Switch env cur_task pre_task) = env"

datatype off_race_ev = Hook offcpu_ev | On_cpu u64

fun off_race_step :: "off_race_ev \<Rightarrow> off_race \<Rightarrow> off_race" where
  "off_race_step (Hook e) r =
     (let t = ucast (bpf_get_smp_processor_id (off_env e))
      in if handlers r t \<noteq> H_idle then r
         else let (h, s) = off_begin e (shared r)
              in r\<lparr>shared := s, handlers := (handlers r)(t := h)\<rparr>)"
| "off_race_step (On_cpu t) r = access off_advance t r"

interpretation off: stepped off_advance H_idle off_race_step On_cpu
  by unfold_locales simp_all

section \<open>Uninterrupted hooks\<close>

lemma store_at_twice: "store_at k g (store_at k f s) = store_at k (g \<circ> f) s"
  by (simp add: store_at_def elem_write_twice)

lemma store_at_same: "store_at k (\<lambda>x. x) s = s"
proof -
  have "AList.map_entry k (\<lambda>x. x) al = al" for al :: "(u32 \<times> trace_event_t) list" by (induction al) auto
  then show ?thesis by (simp add: store_at_def elem_write_def)
qed

text \<open>A row of stores.\<close>

lemma stores_in_a_row:
  assumes "\<And>i s. i < length fs \<Longrightarrow>
      off_advance (H i) s = (if Suc i < length fs then H (Suc i) else h, store_at k (fs ! i) s)"
  shows "n < length fs \<Longrightarrow> advances off_advance (length fs - n) (H n) s = (h, store_at k (fold (\<lambda>f. f) (drop n fs)) s)"
proof (induction "length fs - n" arbitrary: n s)
  case (Suc m)
  have drop: "drop n fs = fs ! n # drop (Suc n) fs" using Suc.prems by (simp add: Cons_nth_drop_Suc)
  have len: "length fs - n = Suc (length fs - Suc n)" using Suc.prems by simp
  show ?case
  proof (cases "Suc n < length fs")
    case True
    have "advances off_advance (length fs - Suc n) (H (Suc n)) (store_at k (fs ! n) s)
        = (h, store_at k (fold (\<lambda>f. f) (drop (Suc n) fs)) (store_at k (fs ! n) s))"
      using Suc.hyps True by (intro Suc.hyps(1)) auto
    then show ?thesis using True Suc.prems assms [of n] by (simp add: len drop store_at_twice comp_def)
  next
    case False
    then have "length fs - Suc n = 0" "drop (Suc n) fs = []" by simp_all
    then show ?thesis using False Suc.prems assms [of n] by (simp add: len drop)
  qed
qed simp

lemma waker_stores_all: "fold (\<lambda>f. f) (waker_stores env) = set_waker env"
  by (simp add: waker_stores_def set_waker_def Let_def fun_eq_iff)



lemma store_counts: "length (waker_stores env) = 7" "length (prev_stores env pre) = 3" "length (cur_stores env) = 2"
  by (simp_all add: waker_stores_def prev_stores_def cur_stores_def)

lemma waker_stores_row: "advances off_advance 7 (W_stores env task 0) s = (H_idle, store_at (task_pid task) (set_waker env) s)"
  using stores_in_a_row [of "waker_stores env" "W_stores env task" H_idle "task_pid task" 0 s]
  by (simp add: store_counts waker_stores_all)











section \<open>Where the fields come from\<close>


lemma history_append: "history step f (es @ fs) r = history step f es r @ history step f fs (run step es r)"
  by (induction es arbitrary: r) simp_all



























section \<open>A first sleep\<close>

text \<open>A task the map does not know is switched out on one processor and woken from another: both
  lookups miss, then the two insertions follow, the one of the waker last or first.\<close>

definition first_sleep ::
    "bpf_env \<Rightarrow> task_struct \<Rightarrow> task_struct \<Rightarrow> bpf_env \<Rightarrow> s32 \<Rightarrow> bool \<Rightarrow> off_race_ev list" where
  "first_sleep e1 c p e2 st wake_last =
     (let t1 = ucast (bpf_get_smp_processor_id e1); t2 = ucast (bpf_get_smp_processor_id e2)
      in [Hook (Switch e1 c p), On_cpu t1, Hook (Wakeup e2 p st), On_cpu t2] @
         (if wake_last then [On_cpu t1, On_cpu t2] else [On_cpu t2, On_cpu t1]))"

lemma insert_new:
  assumes "0 < hash_free m"
  shows "bpf_map_lookup_elem (snd (bpf_map_update_elem m k v BPF_ANY)) k = Some v"
proof (cases "bpf_map_lookup_elem m k")
  case None
  from hash_del.update_room [OF assms _ this, of BPF_ANY v] show ?thesis by (simp add: map_laws flag_defs)
qed (simp add: map_laws)

lemma insert_over:
  assumes "0 < hash_free m"
  shows "bpf_map_lookup_elem (snd (bpf_map_update_elem (snd (bpf_map_update_elem m k v BPF_ANY)) k w BPF_ANY)) k = Some w"
  using insert_new [OF assms, of k v] by (simp add: hash.lookup_update_cases hash.update_hit)

lemma first_sleep_entry:
  assumes ready: "slots_ready s" and new: "bpf_map_lookup_elem (start s) (task_pid p) = None"
    and room: "0 < hash_free (start s)" and cpus: "env_cpu e1 \<noteq> env_cpu e2" and wakes: "wake_applies s p st"
    and s': "s' = shared (run off_race_step (first_sleep e1 c p e2 st b) \<lparr>shared = s, handlers = \<lambda>_. H_idle\<rparr>)"
  shows "bpf_map_lookup_elem (start s') (task_pid p) = Some (if b then first_woken e2 p else first_departed e1 p)"
    and "slots_ready s'" and "args_map s' = args_map s" and "perf_out s' = perf_out s"
proof -
  define s1 where "s1 = (if rq_dur_ms (args_map s ! 0) \<noteq> 0
    then sched_cache_update p (env_ktime e1) (env_cpu e1) s else s)"
  have s1: "start s1 = start s" "args_map s1 = args_map s" "perf_out s1 = perf_out s" "slots_ready s1"
    using ready by (simp_all add: s1_def slots_ready_cache_update)
  let ?put = "\<lambda>v m. snd (bpf_map_update_elem m (task_pid p) v BPF_ANY)"
  have t: "ucast (env_cpu e1) \<noteq> (ucast (env_cpu e2) :: u64)" using cpus by (simp add: ucast_u32_u64_inj)
  have target: "wake_applies s1 p st" "is_target_task s1 (task_tgid p) (task_pid p)"
    using wakes is_target_cong [OF s1(2)] by (simp_all add: wake_applies_def)
  have begins: "off_begin (Switch e1 c p) s = (P_lookup e1 (args_map s ! 0) c p, s1)"
      "off_begin (Wakeup e2 p st) s1 = (W_lookup e2 p st, s1)"
    using slots_lookup(1) [OF ready] target(1)
    by (simp_all add: s1_def wake_applies_def bpf_ktime_get_ns_def bpf_get_smp_processor_id_def)
  have insert: "update_new_task_info (bpf_ktime_get_ns e1) (env_cpu e1) p s = s\<lparr>start := ?put (first_departed e1 p) (start s)\<rparr>" for s
    by (simp add: update_new_task_info_def first_departed_def bpf_ktime_get_ns_def Let_def)
  have eq: "s' = s1\<lparr>start := (if b then ?put (first_woken e2 p) (?put (first_departed e1 p) (start s))
      else ?put (first_departed e1 p) (?put (first_woken e2 p) (start s)))\<rparr>"
    using t new s1 target begins
    by (simp add: s' first_sleep_def access_def insert bpf_get_smp_processor_id_def Let_def del: off_begin.simps)
  show "bpf_map_lookup_elem (start s') (task_pid p) = Some (if b then first_woken e2 p else first_departed e1 p)"
    using insert_over [OF room] by (simp add: eq)
  show "slots_ready s'" and "args_map s' = args_map s" and "perf_out s' = perf_out s"
    using s1 by (simp_all add: eq slots_ready_def)
qed

lemma resume_quiet:
  assumes ready: "slots_ready s" and "task_pid q \<noteq> task_pid t"
    and ep: "bpf_map_lookup_elem (start s) (task_pid t) = Some ep" "target_offcpu_ns (te_target ep) = 0"
  shows "perf_out (offcpu_step (Switch env t q) s) = perf_out s"
proof -
  let ?m = "mid_switch env q s"
  have lk: "bpf_map_lookup_elem (start ?m) (task_pid t) = Some ep" using assms by (simp add: mid_switch_lookup)
  have out: "\<not> in_range args d (target_offcpu_ns (te_target ep))" for args d using ep(2) by (simp add: in_range_def)
  have "perf_out (record_cur env args t ?m) = perf_out ?m" for args
  proof (cases "is_target_task ?m (task_tgid t) (task_pid t)")
    case True
    from record_cur_quiet(2) [OF this lk out] show ?thesis by (metis offcpu_state.surjective offcpu_state.update_convs offcpu_state.select_convs)
  next
    case False
    then show ?thesis by (simp add: record_cur_skip)
  qed
  then show ?thesis using ready by (simp add: switch_mid)
qed

section \<open>Two wakers\<close>

text \<open>Two wake-ups of a task the map knows: both look it up, the first stores its thread id, the second stores its whole
  waker, then the first stores the rest.\<close>

definition two_wakers :: "bpf_env \<Rightarrow> bpf_env \<Rightarrow> task_struct \<Rightarrow> s32 \<Rightarrow> off_race_ev list" where
  "two_wakers e1 e2 p st =
     (let t1 = ucast (bpf_get_smp_processor_id e1); t2 = ucast (bpf_get_smp_processor_id e2)
      in [Hook (Wakeup e1 p st), Hook (Wakeup e2 p st)] @ replicate 2 (On_cpu t1) @ replicate 8 (On_cpu t2) @ replicate 6 (On_cpu t1))"

definition torn_waker :: "bpf_env \<Rightarrow> bpf_env \<Rightarrow> trace_event_t \<Rightarrow> trace_event_t" where
  "torn_waker e1 e2 ep = (set_waker e1 ep)\<lparr>te_waker := (te_waker (set_waker e1 ep))\<lparr>waker_pid := env_pid e2\<rparr>\<rparr>"

lemma two_wakers_state:
  assumes known: "bpf_map_lookup_elem (start s) (task_pid p) = Some ep" and cpus: "env_cpu e1 \<noteq> env_cpu e2"
    and wakes: "wake_applies s p st"
  shows "run off_race_step (two_wakers e1 e2 p st) \<lparr>shared = s, handlers = \<lambda>_. H_idle\<rparr>
    = \<lparr>shared = store_at (task_pid p) (torn_waker e1 e2) s, handlers = \<lambda>_. H_idle\<rparr>"
proof -
  let ?t1 = "ucast (env_cpu e1) :: u64" and ?t2 = "ucast (env_cpu e2) :: u64" and ?k = "task_pid p"
  have t: "?t1 \<noteq> ?t2" using cpus by (simp add: ucast_u32_u64_inj)
  let ?f = "waker_stores e1 ! 0"
  let ?s1 = "store_at ?k ?f s" and ?s2 = "store_at ?k (set_waker e2) (store_at ?k ?f s)"
  have begins: "off_begin (Wakeup e1 p st) s = (W_lookup e1 p st, s)" "off_begin (Wakeup e2 p st) s = (W_lookup e2 p st, s)"
    using wakes by (simp_all add: wake_applies_def)
  have a1: "advances off_advance 2 (W_lookup e1 p st) s = (W_stores e1 p 1, ?s1)"
    using known by (simp add: numeral_2_eq_2 store_counts)
  have "bpf_map_lookup_elem (start ?s1) ?k = Some (?f ep)" using known by (simp add: store_at_def map_laws)
  then have "advances off_advance 1 (W_lookup e2 p st) ?s1 = (W_stores e2 p 0, ?s1)" by simp
  then have a2: "advances off_advance 8 (W_lookup e2 p st) ?s1 = (H_idle, ?s2)"
    using advances_add [of off_advance 1 7 "W_lookup e2 p st" ?s1] waker_stores_row [of e2 p ?s1] by simp
  have a3: "advances off_advance 6 (W_stores e1 p 1) ?s2 = (H_idle, store_at ?k (fold (\<lambda>f. f) (drop 1 (waker_stores e1))) ?s2)"
    using stores_in_a_row [of "waker_stores e1" "W_stores e1 p" H_idle ?k 1 ?s2] by (simp add: store_counts)
  have "fold (\<lambda>f. f) (drop 1 (waker_stores e1)) \<circ> (set_waker e2 \<circ> ?f) = torn_waker e1 e2"
    by (simp add: waker_stores_def torn_waker_def set_waker_def Let_def fun_eq_iff)
  then have s3: "store_at ?k (fold (\<lambda>f. f) (drop 1 (waker_stores e1))) ?s2 = store_at ?k (torn_waker e1 e2) s"
    by (simp add: store_at_twice comp_assoc)
  show ?thesis
    using t begins a1 a2 a3 s3
    by (simp add: two_wakers_def run_append off.run_ticks bpf_get_smp_processor_id_def Let_def fun_upd_twist fun_eq_iff
        del: off_begin.simps)
qed

lemma torn_fields:
  "waker_pid (te_waker (torn_waker e1 e2 ep)) = env_pid e2" "waker_tgid (te_waker (torn_waker e1 e2 ep)) = env_tgid e1"
  "waker_comm (te_waker (torn_waker e1 e2 ep)) = bpf_get_current_comm TASK_COMM_LEN e1"
  "te_target (torn_waker e1 e2 ep) = (te_target ep)\<lparr>target_onrq_ns := env_ktime e1\<rparr>"
  by (simp_all add: torn_waker_def set_waker_def bpf_ktime_get_ns_def Let_def)



section \<open>Properties\<close>



text \<open>C10. Two wakers at once: when two processors wake the same task, both hooks store into its element, and the next report of the
  task can name as its waker a thread id of one waker with the process, name and time of the other, which no
  wake-up had. Whole hooks leave one of the two wakers.\<close>

theorem offcpu_waker_torn:
  assumes s: "s = run offcpu_step es (offcpu_init args)"
    and known: "bpf_map_lookup_elem (start s) (task_pid p) = Some ep" and cpus: "env_cpu e1 \<noteq> env_cpu e2"
    and wakes: "target_filter args (task_tgid p) (task_pid p)" "get_task_state p AND st \<noteq> 0" "task_on_rq p \<noteq> 1"
    and resumes: "task_pid q \<noteq> task_pid p" "in_range args (cur_delta e3 ep) (target_offcpu_ns (te_target ep))"
    and s': "s' = shared (run off_race_step (two_wakers e1 e2 p st) \<lparr>shared = s, handlers = \<lambda>_. H_idle\<rparr>)"
  shows "(\<exists>pe. perf_out (offcpu_step (Switch e3 p q) s') = perf_out s @ [pe] \<and> waker_pid (pe_waker pe) = env_pid e2 \<and>
      waker_tgid (pe_waker pe) = env_tgid e1 \<and> waker_comm (pe_waker pe) = bpf_get_current_comm TASK_COMM_LEN e1 \<and>
      waker_offcpu_ns (pe_waker pe) = env_ktime e1) \<and>
    map_option (\<lambda>ep. woken_of (te_waker ep)) (bpf_map_lookup_elem (start (run offcpu_step [Wakeup e1 p st, Wakeup e2 p st] s)) (task_pid p))
      = Some (last_woken [e2])"
proof -
  have inv: "offcpu_inv args s" unfolding s by (intro offcpu.run_inv offcpu_inv_init)
  then have tgt: "is_target_task s = target_filter args" by (simp add: offcpu_inv_def is_target_filter)
  then have applies: "wake_applies s p st" using wakes by (simp add: wake_applies_def)
  have eq: "s' = store_at (task_pid p) (torn_waker e1 e2) s"
    unfolding s' two_wakers_state [OF known cpus applies] by simp
  have "entry_ok args k (torn_waker e1 e2 ep)" if "entry_ok args k ep" for k ep
    using that by (simp add: entry_ok_def torn_fields)
  then have inv': "offcpu_inv args s'"
    using inv start_ok_write [of args "start s" "task_pid p" "torn_waker e1 e2"]
    by (simp add: eq store_at_def offcpu_inv_def slots_ready_def)
  have el: "bpf_map_lookup_elem (start s') (task_pid p) = Some (torn_waker e1 e2 ep)"
    using known by (simp add: eq store_at_def map_laws)
  have off: "target_offcpu_ns (te_target (torn_waker e1 e2 ep)) = target_offcpu_ns (te_target ep)" by (simp add: torn_fields)
  have "perf_out (offcpu_step (Switch e3 p q) s')
      = perf_out s' @ [cur_perf e3 args p (torn_waker e1 e2 ep) (perf_event_cache_map s' (env_cpu e3) ! 0)]"
    using resumes off by (intro resume_emits [OF inv' wakes(1) _ el]) (simp_all add: cur_delta_def)
  moreover have "perf_out s' = perf_out s" by (simp add: eq store_at_def)
  moreover have "waker_offcpu_ns (te_waker (torn_waker e1 e2 ep)) = env_ktime e1"
    by (simp add: torn_waker_def set_waker_fields)
  moreover have "bpf_map_lookup_elem (start (run offcpu_step [Wakeup e1 p st, Wakeup e2 p st] s)) (task_pid p)
      = Some (set_waker e2 (set_waker e1 ep))"
    using wake_entry [OF offcpu_inv_step [OF inv] wakes wake_entry [OF inv wakes known]] by simp
  ultimately show ?thesis
    by (simp add: torn_fields woken_of_def last_woken_def set_waker_fields del: offcpu_step.simps)
      (simp add: set_waker_def Let_def)
qed

definition on_cpu_1 :: "bpf_env \<Rightarrow> bpf_env" where "on_cpu_1 env = env\<lparr>env_cpu := 1\<rparr>"

text \<open>Task 7 is woken by thread 8 of process 8 and on processor 1 by thread 9 of process 9.\<close>

theorem offcpu_waker_torn_witness:
  "\<exists>pe. perf_out (offcpu_step (Switch (sample_env 7 4000000) (sample_task 7 0) (sample_task 9 0))
       (shared (run off_race_step (two_wakers (sample_env 8 2000000) (on_cpu_1 (sample_env 9 2000000)) (sample_task 7 0) 1)
         \<lparr>shared = run offcpu_step [Switch (sample_env 9 1000000) (sample_task 9 0) (sample_task 7 0)] (offcpu_init sample_args),
          handlers = \<lambda>_. H_idle\<rparr>)))
     = perf_out (run offcpu_step [Switch (sample_env 9 1000000) (sample_task 9 0) (sample_task 7 0)] (offcpu_init sample_args)) @ [pe] \<and>
     waker_pid (pe_waker pe) = 9 \<and> waker_tgid (pe_waker pe) = 8"
proof -
  let ?es = "[Switch (sample_env 9 1000000) (sample_task 9 0) (sample_task 7 0)]"
  let ?s = "run offcpu_step ?es (offcpu_init sample_args)" and ?p = "sample_task 7 0"
  have tgt: "target_filter sample_args (task_tgid ?p) (task_pid ?p)"
    by (simp add: sample_task_def sample_args_def target_filter_def)
  obtain ep where ep: "bpf_map_lookup_elem (start ?s) (task_pid ?p) = Some ep" "target_offcpu_ns (te_target ep) = 1000000"
    using depart_entry [OF offcpu_inv_init tgt, of "sample_task 9 0" "sample_env 9 1000000"]
    by (auto simp: sample_task_def sample_env_def offcpu_init_def MAX_ENTRIES_def)
  have "env_cpu (sample_env 8 2000000) \<noteq> env_cpu (on_cpu_1 (sample_env 9 2000000))" by (simp add: sample_env_def on_cpu_1_def)
  moreover have "get_task_state ?p AND 1 \<noteq> 0" "task_on_rq ?p \<noteq> 1" "task_pid (sample_task 9 0) \<noteq> task_pid ?p"
    by (simp_all add: sample_task_def get_task_state_def)
  moreover have "in_range sample_args (cur_delta (sample_env 7 4000000) ep) (target_offcpu_ns (te_target ep))"
    using ep(2) by (simp add: in_range_def cur_delta_def offcpu_delta_def sample_args_def sample_env_def)
  ultimately have "\<exists>pe. perf_out (offcpu_step (Switch (sample_env 7 4000000) ?p (sample_task 9 0))
       (shared (run off_race_step (two_wakers (sample_env 8 2000000) (on_cpu_1 (sample_env 9 2000000)) ?p 1) \<lparr>shared = ?s, handlers = \<lambda>_. H_idle\<rparr>)))
     = perf_out ?s @ [pe] \<and> waker_pid (pe_waker pe) = env_pid (on_cpu_1 (sample_env 9 2000000)) \<and>
     waker_tgid (pe_waker pe) = env_tgid (sample_env 8 2000000)"
    using offcpu_waker_torn [OF refl ep(1) _ tgt _ _ _ _ refl] by metis
  then show ?thesis by (simp add: sample_env_def on_cpu_1_def del: offcpu_step.simps run_Cons)
qed

lemma cur_frame: "args_map (record_cur env args t s) = args_map s"
  by (simp add: record_cur_def Let_def split: option.splits)

text \<open>C26. The first sleep of a task can go unreported: when the switch that takes the task off its processor
  and the wake-up from another one both miss it in the start map, the later insertion replaces the
  earlier record. If the waker's is the later one, the time the task left is lost and its
  return emits nothing; if the switch's is, the record has no waker. Hooks one after the other keep
  both.\<close>

theorem offcpu_first_sleep_race:
  assumes ready: "slots_ready s" and new: "bpf_map_lookup_elem (start s) (task_pid p) = None"
    and room: "0 < hash_free (start s)" and cpus: "env_cpu e1 \<noteq> env_cpu e2" and wakes: "wake_applies s p st"
    and others: "task_pid c \<noteq> task_pid p" "task_pid q \<noteq> task_pid p"
    and race: "\<And>b. s' b = shared (run off_race_step (first_sleep e1 c p e2 st b) \<lparr>shared = s, handlers = \<lambda>_. H_idle\<rparr>)"
  shows "perf_out (offcpu_step (Switch e3 p q) (s' True)) = perf_out s \<and>
    map_option te_waker (bpf_map_lookup_elem (start (s' False)) (task_pid p)) = Some zero_waker \<and>
    bpf_map_lookup_elem (start (run offcpu_step [Switch e1 c p, Wakeup e2 p st] s)) (task_pid p)
      = Some (set_waker e2 (first_departed e1 p))"
proof (intro conjI)
  note entry = first_sleep_entry [OF ready new room cpus wakes race]
  have "perf_out (offcpu_step (Switch e3 p q) (s' True)) = perf_out (s' True)"
    by (rule resume_quiet [OF entry(2) others(2) entry(1)]) (simp add: first_woken_def set_waker_def zero_target_def Let_def)
  then show "perf_out (offcpu_step (Switch e3 p q) (s' True)) = perf_out s" using entry(4) by simp
  show "map_option te_waker (bpf_map_lookup_elem (start (s' False)) (task_pid p)) = Some zero_waker"
    by (simp add: entry(1) first_departed_def zero_event_def)
  show "bpf_map_lookup_elem (start (run offcpu_step [Switch e1 c p, Wakeup e2 p st] s)) (task_pid p)
      = Some (set_waker e2 (first_departed e1 p))"
    using ready new room others(1) wakes is_target_cong [of "record_cur e1 (args_map s ! 0) c (mid_switch e1 p s)" s]
    by (simp add: switch_mid wake_start cur_start mid_switch_ready mid_switch_lookup put_lookup put_value_def
        wake_applies_def cur_frame map_laws)
qed

theorem offcpu_first_sleep_race_witness:
  "perf_out (offcpu_step (Switch (sample_env 7 4000000) (sample_task 7 0) (sample_task 9 0))
     (shared (run off_race_step (first_sleep (sample_env 9 1000000) (sample_task 9 0) (sample_task 7 0)
       (on_cpu_1 (sample_env 8 2000000)) 1 True) \<lparr>shared = offcpu_init sample_args, handlers = \<lambda>_. H_idle\<rparr>))) = []"
proof -
  let ?s = "offcpu_init sample_args"
  have inv: "offcpu_inv sample_args ?s" by (rule offcpu_inv_init)
  then have ready: "slots_ready ?s" by (simp add: offcpu_inv_def)
  have new: "bpf_map_lookup_elem (start ?s) (task_pid (sample_task 7 0)) = None" "0 < hash_free (start ?s)"
    by (simp_all add: offcpu_init_def eval_defs)
  have "is_target_task ?s = target_filter sample_args" using inv is_target_filter [OF ready] by (simp add: offcpu_inv_def)
  then have "wake_applies ?s (sample_task 7 0) 1"
    by (simp add: wake_applies_def get_task_state_def sample_task_def) (simp add: sample_args_def target_filter_def)
  moreover have "env_cpu (sample_env 9 1000000) \<noteq> env_cpu (on_cpu_1 (sample_env 8 2000000))"
    by (simp add: sample_env_def on_cpu_1_def)
  moreover have "task_pid (sample_task 9 0) \<noteq> task_pid (sample_task 7 0)" by (simp add: sample_task_def)
  ultimately show ?thesis
    using offcpu_first_sleep_race [OF ready new _ _ _ _ refl,
        of "sample_env 9 1000000" "on_cpu_1 (sample_env 8 2000000)" 1 "sample_task 9 0" "sample_task 9 0" "sample_env 7 4000000"]
    by (simp add: offcpu_init_def)
qed

end
