(* ===== verification/Oncpu_Race.thy ===== *)
theory Oncpu_Race
  imports Oncpu Interleave
begin

text \<open>
  The sampling handler of oncpu on several processors at once, one access at a time. Threads of one process
  with equal stacks share a counter, which is changed by a plain load and store. No schedule
  counts a sample twice, but samples taken at the same moment can be counted once only.
\<close>

section \<open>The handler in steps\<close>

datatype prof_handler =
    O_idle
  | O_insert profile_key_t
  | O_load profile_key_t
  | O_store profile_key_t u32

type_synonym prof_race = "(prof_handler, oncpu_state) conc"

text \<open>The handler up to and with its lookup.\<close>

definition prof_begin :: "bpf_env \<Rightarrow> oncpu_state \<Rightarrow> prof_handler" where
  "prof_begin env s =
     (let id = bpf_get_current_pid_tgid env; tgid = tgid_of id; pid = tid_of id
      in case array_lookup_elem (args s) 0 of
        None \<Rightarrow> O_idle
      | Some arg \<Rightarrow>
          if tgid_filter arg \<noteq> 0 \<and> tgid \<noteq> tgid_filter arg then O_idle
          else if pid = 0 \<and> space_filter arg = 0 then O_idle
          else
            let key = \<lparr>pk_pid = tgid, kern_stack = bpf_get_stackid env KERN_STACKID_FLAGS,
                  user_stack = bpf_get_stackid env USER_STACKID_FLAGS,
                  pk_comm = bpf_get_current_comm 16 env\<rparr>
            in case bpf_map_lookup_elem (counts s) key of
              Some val \<Rightarrow> O_load key
            | None \<Rightarrow> O_insert key)"

fun prof_advance :: "prof_handler \<Rightarrow> oncpu_state \<Rightarrow> prof_handler \<times> oncpu_state" where
  "prof_advance O_idle s = (O_idle, s)"
| "prof_advance (O_insert key) s =
     (O_idle, s\<lparr>counts := snd (bpf_map_update_elem (counts s) key 1 BPF_NOEXIST)\<rparr>)"
| "prof_advance (O_load key) s =
     (case bpf_map_lookup_elem (counts s) key of
        Some val \<Rightarrow> (O_store key val, s)
      | None \<Rightarrow> (O_idle, s))"
| "prof_advance (O_store key val) s = (O_idle, s\<lparr>counts := elem_write (counts s) key (\<lambda>_. val + 1)\<rparr>)"

text \<open>A sample is taken by the processor it is taken on.\<close>

datatype prof_race_ev = Sample bpf_env | Cpu u64

fun prof_race_step :: "prof_race_ev \<Rightarrow> prof_race \<Rightarrow> prof_race" where
  "prof_race_step (Sample env) r =
     (let t = ucast (bpf_get_smp_processor_id env)
      in if handlers r t \<noteq> O_idle then r
         else r\<lparr>handlers := (handlers r)(t := prof_begin env (shared r))\<rparr>)"
| "prof_race_step (Cpu t) r = access prof_advance t r"

interpretation prof: stepped prof_advance O_idle prof_race_step Cpu
  by unfold_locales simp_all

lemma prof_begin_eq:
  "prof_begin env s = (case sample_key s env of
     None \<Rightarrow> O_idle
   | Some k \<Rightarrow> if bpf_map_lookup_elem (counts s) k = None then O_insert k else O_load k)"
  by (auto simp: prof_begin_def sample_key_def sampled_def profile_key_def array_lookup_elem_def Let_def
      split: list.split option.split)

lemma prof_accesses: "advances prof_advance 2 (prof_begin env s) s = (O_idle, do_perf_event env s)"
proof (cases "sample_key s env")
  case None
  then show ?thesis by (simp add: prof_begin_eq prof.advances_idle do_perf_event_skip)
next
  case (Some k)
  show ?thesis
  proof (cases "bpf_map_lookup_elem (counts s) k")
    case None
    then show ?thesis using Some by (simp add: prof_begin_eq do_perf_event_count eval_nat_numeral)
  next
    case found: (Some v)
    then show ?thesis
      using Some elem_write_cong [OF found, of "\<lambda>_. v + 1" "\<lambda>v. v + 1"]
      by (simp add: prof_begin_eq do_perf_event_count eval_nat_numeral)
  qed
qed

section \<open>No sample is counted twice\<close>

fun key_of :: "prof_handler \<Rightarrow> profile_key_t option" where
  "key_of O_idle = None"
| "key_of (O_insert k) = Some k"
| "key_of (O_load k) = Some k"
| "key_of (O_store k n) = Some k"

fun loaded_val :: "profile_key_t \<Rightarrow> prof_handler \<Rightarrow> nat option" where
  "loaded_val k (O_store k' n) = (if k' = k then Some (unat n) else None)"
| "loaded_val k h = None"

fun hits :: "profile_bss_args_t \<Rightarrow> profile_key_t \<Rightarrow> prof_race_ev \<Rightarrow> bool" where
  "hits arg k (Sample env) \<longleftrightarrow> sampled arg env \<and> profile_key env = k"
| "hits arg k (Cpu t) \<longleftrightarrow> False"

definition sample_count :: "profile_key_t \<Rightarrow> oncpu_state \<Rightarrow> nat option" where
  "sample_count k s = map_option unat (bpf_map_lookup_elem (counts s) k)"

lemma prof_advance_count:
  assumes adv: "prof_advance h s = (h', s')" and small: "\<And>n. loaded_val k h = Some n \<Longrightarrow> Suc n < 2 ^ 32"
  shows "sample_count k s' = sample_count k s \<and> (key_of h' = Some k) = (key_of h = Some k) \<and>
      loaded_val k h' \<in> {None, loaded_val k h, sample_count k s} \<or>
    key_of h = Some k \<and> key_of h' \<noteq> Some k \<and>
      sample_count k s' \<in> {Some 1, sample_count k s, map_option Suc (loaded_val k h)}"
proof (cases h)
  case (O_insert k')
  have "sample_count k s' \<in> {Some 1, sample_count k s} \<and> (k' = k \<or> sample_count k s' = sample_count k s)"
    using adv O_insert by (cases "fst (bpf_map_update_elem (counts s) k' 1 BPF_NOEXIST) = 0")
      (auto simp: sample_count_def map_laws split: if_splits)
  with O_insert adv show ?thesis by auto
next
  case (O_load k')
  with adv show ?thesis by (cases "k' = k") (auto simp: sample_count_def split: option.splits)
next
  case (O_store k' old)
  have "unat (old + 1) = Suc (unat old)" if "k' = k"
    using small O_store that unat_inc [of old "2 ^ 32 - 1"] by simp
  with O_store adv show ?thesis
    by (cases "bpf_map_lookup_elem (counts s) k") (auto simp: sample_count_def map_laws)
qed (use adv in auto)

interpretation prof_count: racy_counter prof_advance O_idle prof_race_step Cpu
  "\<lambda>s. args s = [arg]" "sample_count k" "\<lambda>h. key_of h = Some k" "loaded_val k" "hits arg k" "2 ^ 32" for arg k
proof (unfold_locales, goal_cases)
  case (2 h n)
  then show ?case by (cases h) (auto split: if_splits)
next
  case (3 s h h' s')
  then show ?case by (cases h) (auto split: option.splits)
next
  case (4 h s h' s')
  then show ?case by (rule prof_advance_count)
next
  case (5 r e)
  show ?case
  proof (cases e)
    case (Sample env)
    have "loaded_val k (prof_begin env (shared r)) = None \<and> (key_of (prof_begin env (shared r)) = Some k \<longrightarrow> hits arg k e)"
      using 5 Sample by (auto simp: prof_begin_eq sample_key_def split: if_splits)
    then show ?thesis
      by (intro disjI2 begin_shape [where P = "\<lambda>h. loaded_val k h = None \<and> (key_of h = Some k \<longrightarrow> hits arg k e)"])
        (simp_all add: Sample Let_def)
  qed auto
qed auto

section \<open>Properties\<close>

text \<open>The handler that nothing interrupts is the handler of \<^emph>\<open>Oncpu\<close>.\<close>

lemma oncpu_alone:
  assumes "t = ucast (bpf_get_smp_processor_id env)" and "handlers r t = O_idle"
  shows "run prof_race_step (Sample env # replicate 2 (Cpu t)) r = r\<lparr>shared := do_perf_event env (shared r)\<rparr>"
  using prof.run_alone [OF assms(2) prof_accesses [of env "shared r"]] assms by (simp add: Let_def)

text \<open>However the samples of the processors interleave, the counter of a key is positive and at most the
  number of accepted samples with that key.\<close>

theorem oncpu_race_no_overcount:
  assumes "length es < 2 ^ 32"
    and "r = run prof_race_step es \<lparr>shared = oncpu_init arg, handlers = \<lambda>_. O_idle\<rparr>"
    and "bpf_map_lookup_elem (counts (shared r)) k = Some n"
  shows "0 < unat n \<and> unat n \<le> length (filter (hits arg k) es)"
proof -
  have "length (filter (hits arg k) es) < 2 ^ 32" using assms(1) length_filter_le [of "hits arg k" es] by linarith
  moreover have "sample_count k (oncpu_init arg) = None" "args (oncpu_init arg) = [arg]"
    by (simp_all add: sample_count_def oncpu_init_def)
  moreover have "sample_count k (shared (run prof_race_step es \<lparr>shared = oncpu_init arg, handlers = \<lambda>_. O_idle\<rparr>)) = Some (unat n)"
    using assms(2,3) by (simp add: sample_count_def)
  ultimately show ?thesis by (intro prof_count.no_overcount)
qed

lemma sample_sampled:
  "sampled \<lparr>tgid_filter = 0, cpu_filter = 0, space_filter = 0\<rparr> (sample_sample 3)"
  by (simp add: sampled_def sample_sample_def)

theorem oncpu_race_no_overcount_witness:
  "\<exists>n. bpf_map_lookup_elem (counts (shared (run prof_race_step [Sample (sample_sample 3), Cpu 0]
      \<lparr>shared = oncpu_init \<lparr>tgid_filter = 0, cpu_filter = 0, space_filter = 0\<rparr>, handlers = \<lambda>_. O_idle\<rparr>)))
      (profile_key (sample_sample 3)) = Some n \<and> unat n \<le> 1"
proof -
  let ?arg = "\<lparr>tgid_filter = 0, cpu_filter = 0, space_filter = 0\<rparr> :: profile_bss_args_t"
  let ?k = "profile_key (sample_sample 3)" and ?es = "[Sample (sample_sample 3), Cpu 0]"
  let ?r = "run prof_race_step ?es \<lparr>shared = oncpu_init ?arg, handlers = \<lambda>_. O_idle\<rparr>"
  have cpu: "bpf_get_smp_processor_id (sample_sample 3) = 0" by (simp add: sample_sample_def bpf_get_smp_processor_id_def)
  have first: "prof_begin (sample_sample 3) (oncpu_init ?arg) = O_insert ?k"
    using sample_sampled by (simp add: prof_begin_eq sample_key_def oncpu_init_def)
  have "0 < hash_free (counts (oncpu_init ?arg))" by (simp add: oncpu_init_def PROFILE_MAPS_SIZE_def)
  then have "bpf_map_lookup_elem (counts (shared ?r)) ?k = Some 1"
    using insert_effect(1) [of "counts (oncpu_init ?arg)" ?k BPF_NOEXIST 1]
    by (simp add: Let_def access_def first cpu) (simp add: oncpu_init_def)
  from oncpu_race_no_overcount [OF _ refl this] this show ?thesis by simp
qed

text \<open>Two samples whose lookups and loads both come before the other's store.\<close>

definition overlap :: "bpf_env \<Rightarrow> bpf_env \<Rightarrow> prof_race_ev list" where
  "overlap env1 env2 =
     (let t1 = ucast (bpf_get_smp_processor_id env1); t2 = ucast (bpf_get_smp_processor_id env2)
      in [Sample env1, Sample env2, Cpu t1, Cpu t2, Cpu t1, Cpu t2])"

text \<open>Two processors that sample the same key at the same time can count one sample only: a counter that
  exists grows by one, and one that does not starts at one.\<close>

theorem oncpu_race_loses_sample:
  assumes "sample_key (shared r) env1 = Some k" and "sample_key (shared r) env2 = Some k"
    and "env_cpu env1 \<noteq> env_cpu env2" and "\<And>t. handlers r t = O_idle"
    and "0 < hash_free (counts (shared r)) \<or> bpf_map_lookup_elem (counts (shared r)) k \<noteq> None"
    and "r' = run prof_race_step (overlap env1 env2) r"
  shows "(\<forall>t. handlers r' t = O_idle) \<and> bpf_map_lookup_elem (counts (shared r')) k =
    Some (case bpf_map_lookup_elem (counts (shared r)) k of None \<Rightarrow> 1 | Some v \<Rightarrow> v + 1)"
proof (cases "bpf_map_lookup_elem (counts (shared r)) k")
  case None
  let ?m = "counts (shared r)" and ?m1 = "snd (bpf_map_update_elem (counts (shared r)) k 1 BPF_NOEXIST)"
  have "bpf_map_lookup_elem ?m1 k = Some 1"
    using insert_effect(1) [OF None, of BPF_NOEXIST 1] assms(5) None by simp
  moreover from this have "bpf_map_lookup_elem (snd (bpf_map_update_elem ?m1 k 1 BPF_NOEXIST)) k = Some 1"
    by (simp add: map_laws)
  ultimately show ?thesis
    using assms None
    by (simp add: overlap_def Let_def prof_begin_eq access_def bpf_get_smp_processor_id_def ucast_u32_u64_inj
        assms(3) [symmetric])
next
  case (Some v)
  with assms show ?thesis
    by (simp add: overlap_def Let_def prof_begin_eq access_def bpf_get_smp_processor_id_def map_laws
        ucast_u32_u64_inj assms(3) [symmetric])
qed

theorem oncpu_race_loses_sample_witness:
  "bpf_map_lookup_elem (counts (shared (run prof_race_step
      (overlap (sample_sample 3) ((sample_sample 3)\<lparr>env_cpu := 1\<rparr>))
      \<lparr>shared = oncpu_init \<lparr>tgid_filter = 0, cpu_filter = 0, space_filter = 0\<rparr>, handlers = \<lambda>_. O_idle\<rparr>)))
      (profile_key (sample_sample 3)) = Some 1"
proof -
  let ?arg = "\<lparr>tgid_filter = 0, cpu_filter = 0, space_filter = 0\<rparr> :: profile_bss_args_t"
  let ?r = "\<lparr>shared = oncpu_init ?arg, handlers = \<lambda>_. O_idle\<rparr>" and ?k = "profile_key (sample_sample 3)"
  have "sample_key (shared ?r) (sample_sample 3) = Some ?k"
    "sample_key (shared ?r) ((sample_sample 3)\<lparr>env_cpu := 1\<rparr>) = Some ?k"
    by (simp_all add: sample_key_def oncpu_init_def sampled_def sample_sample_def profile_key_def
        bpf_get_stackid_def bpf_get_current_comm_def)
  moreover have "env_cpu (sample_sample 3) \<noteq> env_cpu ((sample_sample 3)\<lparr>env_cpu := 1\<rparr>)"
    by (simp add: sample_sample_def)
  moreover have "0 < hash_free (counts (shared ?r)) \<or> bpf_map_lookup_elem (counts (shared ?r)) ?k \<noteq> None"
    "bpf_map_lookup_elem (counts (shared ?r)) ?k = None"
    by (simp_all add: oncpu_init_def PROFILE_MAPS_SIZE_def)
  ultimately show ?thesis using oncpu_race_loses_sample [where r = ?r and k = ?k, OF _ _ _ _ _ refl] by simp
qed

end
