(* ===== verification/Syscall_Race.thy ===== *)
theory Syscall_Race
  imports Syscall_Trace Interleave
begin

text \<open>
  The system call hooks one access at a time. Every hook works on the element of its own thread, and the
  start map forgets nothing, so interleaved hooks do what whole hooks do in the order in which
  they end: the theorems about runs of whole hooks hold for concurrent ones.
\<close>

section \<open>Hooks in steps\<close>

datatype sys_handler =
    S_idle
  | S_update bpf_env s64 syscall_event
  | S_lookup bpf_env s64 user_args
  | S_read bpf_env s64 user_args
  | S_copy bpf_env s64 user_args u64
  | S_emit bpf_env s64 syscall_event

type_synonym sys_race = "(sys_handler, syscall_state) conc"

text \<open>A hook up to its first access of the start map.\<close>

fun sys_begin :: "syscall_ev \<Rightarrow> syscall_state \<Rightarrow> sys_handler" where
  "sys_begin (Sys_enter env nr) s =
     (let pid_tgid = bpf_get_current_pid_tgid env; pid = tgid_of pid_tgid; tid = tid_of pid_tgid
      in case array_lookup_elem (args_map s) 0 of
        None \<Rightarrow> S_idle
      | Some user_args \<Rightarrow>
          if filtered_out user_args pid tid (ucast nr) then S_idle
          else S_update env nr (zero_event\<lparr>ts_ns := bpf_ktime_get_ns env, se_pid := pid, se_tid := tid\<rparr>))"
| "sys_begin (Sys_exit env nr) s =
     (let pid_tgid = bpf_get_current_pid_tgid env; pid = tgid_of pid_tgid; tid = tid_of pid_tgid
      in if nr = - 1 then S_idle
      else case array_lookup_elem (args_map s) 0 of
        None \<Rightarrow> S_idle
      | Some user_args \<Rightarrow>
          if filtered_out user_args pid tid (ucast nr) then S_idle else S_lookup env nr user_args)"

text \<open>The element a lookup has found stays in the map, so later accesses through the pointer find it.\<close>

fun sys_advance :: "sys_handler \<Rightarrow> syscall_state \<Rightarrow> sys_handler \<times> syscall_state" where
  "sys_advance S_idle s = (S_idle, s)"
| "sys_advance (S_update env nr event) s =
     (S_idle, s\<lparr>start := snd (bpf_map_update_elem (start s) (tid_of (bpf_get_current_pid_tgid env)) event 0)\<rparr>)"
| "sys_advance (S_lookup env nr user_args) s =
     (case bpf_map_lookup_elem (start s) (tid_of (bpf_get_current_pid_tgid env)) of
        None \<Rightarrow> (S_idle, s)
      | Some eventp \<Rightarrow> (S_read env nr user_args, s))"
| "sys_advance (S_read env nr user_args) s =
     (case bpf_map_lookup_elem (start s) (tid_of (bpf_get_current_pid_tgid env)) of
        None \<Rightarrow> (S_idle, s)
      | Some eventp \<Rightarrow>
          let dur = bpf_ktime_get_ns env - ts_ns eventp
          in (if dur div 1000000 \<ge> ucast (min_syscall_ms user_args) \<and>
                dur div 1000000 \<le> ucast (max_syscall_ms user_args)
              then S_copy env nr user_args dur else S_idle, s))"
| "sys_advance (S_copy env nr user_args dur) s =
     (case bpf_map_lookup_elem (start s) (tid_of (bpf_get_current_pid_tgid env)) of
        None \<Rightarrow> (S_idle, s)
      | Some eventp \<Rightarrow>
          let event = eventp\<lparr>dur_us := dur div 1000\<rparr>;
              event = (if ua_stack user_args
                then event\<lparr>u_stack_id := bpf_get_stackid env (BPF_F_USER_STACK OR BPF_F_FAST_STACK_CMP),
                           k_stack_id := bpf_get_stackid env BPF_F_FAST_STACK_CMP\<rparr>
                else event);
              event = event\<lparr>se_syscall_id := ucast (ucast nr :: u32), se_comm := bpf_get_current_comm 16 env\<rparr>
          in (S_emit env nr event, s))"
| "sys_advance (S_emit env nr event) s = (S_idle, s\<lparr>perf_out := perf_out s @ [event]\<rparr>)"

fun sys_env :: "syscall_ev \<Rightarrow> bpf_env" where
  "sys_env (Sys_enter env nr) = env"
| "sys_env (Sys_exit env nr) = env"

text \<open>Threads are told apart by the thread id, as in the map.\<close>

definition sys_thread :: "syscall_ev \<Rightarrow> u64" where
  "sys_thread e = ucast (tid_of (bpf_get_current_pid_tgid (sys_env e)))"

datatype sys_race_ev = Call syscall_ev | Move u64

fun sys_race_step :: "sys_race_ev \<Rightarrow> sys_race \<Rightarrow> sys_race" where
  "sys_race_step (Call e) r =
     (let t = sys_thread e
      in if handlers r t \<noteq> S_idle then r
         else r\<lparr>handlers := (handlers r)(t := sys_begin e (shared r))\<rparr>)"
| "sys_race_step (Move t) r = access sys_advance t r"

interpretation sys: stepped sys_advance S_idle sys_race_step Move
  by unfold_locales simp_all

section \<open>Where a hook takes effect\<close>

fun held :: "sys_handler \<Rightarrow> syscall_ev list" where
  "held S_idle = []"
| "held (S_update env nr event) = [Sys_enter env nr]"
| "held (S_lookup env nr user_args) = [Sys_exit env nr]"
| "held (S_read env nr user_args) = [Sys_exit env nr]"
| "held (S_copy env nr user_args dur) = [Sys_exit env nr]"
| "held (S_emit env nr event) = [Sys_exit env nr]"

text \<open>The calls that begin at a step and those that end there.\<close>

fun starts :: "sys_race_ev \<Rightarrow> sys_race \<Rightarrow> syscall_ev list" where
  "starts (Call e) r = (if handlers r (sys_thread e) = S_idle then [e] else [])"
| "starts (Move t) r = []"

fun ends :: "sys_race_ev \<Rightarrow> sys_race \<Rightarrow> syscall_ev list" where
  "ends (Call e) r = (if handlers r (sys_thread e) = S_idle \<and> sys_begin e (shared r) = S_idle then [e] else [])"
| "ends (Move t) r = (if fst (sys_advance (handlers r t) (shared r)) = S_idle then held (handlers r t) else [])"

text \<open>What the local variables of a hook say.\<close>

definition my_entry :: "user_args \<Rightarrow> bpf_env \<Rightarrow> s64 \<Rightarrow> syscall_state \<Rightarrow> syscall_event \<Rightarrow> bool" where
  "my_entry args env nr s ev \<longleftrightarrow> has_args args s \<and> nr \<noteq> - 1 \<and> passes args env nr \<and>
     bpf_map_lookup_elem (start s) (env_pid env) = Some ev"

fun local_ok :: "syscall_state \<Rightarrow> sys_handler \<Rightarrow> bool" where
  "local_ok s S_idle \<longleftrightarrow> True"
| "local_ok s (S_update env nr event) \<longleftrightarrow>
     event = entered env \<and> (\<exists>args. has_args args s \<and> passes args env nr)"
| "local_ok s (S_lookup env nr args) \<longleftrightarrow> has_args args s \<and> nr \<noteq> - 1 \<and> passes args env nr"
| "local_ok s (S_read env nr args) \<longleftrightarrow> (\<exists>ev. my_entry args env nr s ev)"
| "local_ok s (S_copy env nr args dur) \<longleftrightarrow>
     (\<exists>ev. my_entry args env nr s ev \<and> dur = env_ktime env - ts_ns ev \<and> in_window args dur)"
| "local_ok s (S_emit env nr event) \<longleftrightarrow>
     (\<exists>args ev. my_entry args env nr s ev \<and> in_window args (env_ktime env - ts_ns ev) \<and>
        event = completed args env nr ev)"

definition sys_race_inv :: "sys_race \<Rightarrow> bool" where
  "sys_race_inv r \<longleftrightarrow> (\<forall>t. local_ok (shared r) (handlers r t) \<and> (\<forall>op \<in> set (held (handlers r t)). sys_thread op = t))"

lemma sys_thread_env: "sys_thread e = ucast (env_pid (sys_env e))"
  by (simp add: sys_thread_def)

lemma sys_begin_enter:
  "sys_begin (Sys_enter env nr) s = (if \<exists>args. has_args args s \<and> passes args env nr
     then S_update env nr (entered env) else S_idle)"
  by (auto simp: has_args_def passes_def entered_def bpf_ktime_get_ns_def Let_def split: option.splits)

lemma sys_begin_exit:
  "sys_begin (Sys_exit env nr) s = (case array_lookup_elem (args_map s) 0 of
     None \<Rightarrow> S_idle
   | Some args \<Rightarrow> if nr \<noteq> - 1 \<and> passes args env nr then S_lookup env nr args else S_idle)"
  by (auto simp: passes_def Let_def split: option.splits)

lemma begin_ok:
  "local_ok s (sys_begin e s)" "sys_begin e s = S_idle \<Longrightarrow> syscall_step e s = s"
  "held (sys_begin e s) = (if sys_begin e s = S_idle then [] else [e])"
  by (cases e; auto simp: has_args_def passes_def entered_def sys_enter_def sys_exit_def bpf_ktime_get_ns_def Let_def
      split: option.splits if_splits)+

lemma advance_commits:
  assumes "local_ok s h" and "sys_advance h s = (h', s')"
  shows "local_ok s' h'" and "held h' = (if h' = S_idle then [] else held h)"
    and "s' = run syscall_step (if h' = S_idle then held h else []) s"
proof -
  have "local_ok s' h' \<and> held h' = (if h' = S_idle then [] else held h) \<and>
      s' = run syscall_step (if h' = S_idle then held h else []) s"
  proof (cases h)
    case (S_update env nr event)
    with assms show ?thesis by (auto simp: sys_enter_eq BPF_ANY_def)
  next
    case (S_lookup env nr args)
    with assms show ?thesis by (auto simp: sys_exit_eq my_entry_def [abs_def] split: option.splits)
  next
    case (S_read env nr args)
    with assms show ?thesis
      by (auto simp: my_entry_def sys_exit_eq in_window_word bpf_ktime_get_ns_def Let_def split: if_splits)
  next
    case (S_copy env nr args dur)
    with assms show ?thesis
      by (fastforce simp: my_entry_def completed_def bpf_get_stackid_def BPF_F_USER_STACK_def
          BPF_F_FAST_STACK_CMP_def Let_def)
  next
    case (S_emit env nr event)
    with assms show ?thesis by (auto simp: my_entry_def sys_exit_eq)
  qed (use assms in auto)
  then show "local_ok s' h'" "held h' = (if h' = S_idle then [] else held h)"
    "s' = run syscall_step (if h' = S_idle then held h else []) s" by auto
qed

lemma advance_frame:
  assumes "sys_advance h s = (h', s')"
  shows "args_map s' = args_map s"
    and "\<forall>op \<in> set (held h). env_pid (sys_env op) \<noteq> k \<Longrightarrow>
      bpf_map_lookup_elem (start s') k = bpf_map_lookup_elem (start s) k"
  using assms by (cases h; auto simp: map_laws Let_def split: option.splits)+

text \<open>Another thread's element and the arguments are untouched, so what its variables say stays true.\<close>

lemma local_ok_frame:
  assumes "local_ok s h" and "args_map s' = args_map s"
    and "\<And>op. op \<in> set (held h) \<Longrightarrow>
      bpf_map_lookup_elem (start s') (env_pid (sys_env op)) = bpf_map_lookup_elem (start s) (env_pid (sys_env op))"
  shows "local_ok s' h"
  using assms by (cases h) (fastforce simp: my_entry_def has_args_def)+

lemma threads_apart:
  assumes "sys_race_inv r" and "t' \<noteq> t" and "op \<in> set (held (handlers r t))" and "op' \<in> set (held (handlers r t'))"
  shows "env_pid (sys_env op) \<noteq> env_pid (sys_env op')"
proof -
  have "sys_thread op = t" "sys_thread op' = t'" using assms by (auto simp: sys_race_inv_def)
  with assms(2) show ?thesis by (auto simp: sys_thread_env)
qed

lemma move_inv:
  assumes inv: "sys_race_inv r"
  shows "sys_race_inv (sys_race_step (Move t) r)"
proof -
  obtain h s where adv: "sys_advance (handlers r t) (shared r) = (h, s)" by fastforce
  have mine: "local_ok (shared r) (handlers r t)" using inv by (simp add: sys_race_inv_def)
  note ok = advance_commits [OF mine adv]
  have "local_ok s (handlers r t')" if "t' \<noteq> t" for t'
  proof (rule local_ok_frame [of "shared r"])
    show "local_ok (shared r) (handlers r t')" using inv by (simp add: sys_race_inv_def)
    show "args_map s = args_map (shared r)" by (rule advance_frame(1) [OF adv])
    fix op assume "op \<in> set (held (handlers r t'))"
    then have "\<forall>op' \<in> set (held (handlers r t)). env_pid (sys_env op') \<noteq> env_pid (sys_env op)"
      using threads_apart [OF inv that] by blast
    then show "bpf_map_lookup_elem (start s) (env_pid (sys_env op))
        = bpf_map_lookup_elem (start (shared r)) (env_pid (sys_env op))"
      by (rule advance_frame(2) [OF adv])
  qed
  moreover have "set (held h) \<subseteq> set (held (handlers r t))" using ok(2) by auto
  ultimately show ?thesis using inv ok(1) adv by (auto simp: sys_race_inv_def access_def)
qed

interpretation sys_linear: linearized sys_race_step syscall_step sys_thread starts ends held
  "\<lambda>_. True" sys_race_inv
proof (unfold_locales, goal_cases)
  case (1 e r)
  then show ?case
  proof (cases e)
    case (Call c)
    with 1 show ?thesis using begin_ok(1) [of "shared r" c] begin_ok(3) [of c "shared r"] by (auto simp: sys_race_inv_def Let_def split: if_splits)
  next
    case (Move t)
    with 1 show ?thesis using move_inv by simp
  qed
next
  case (2 e r)
  then show ?case
  proof (cases e)
    case (Call c)
    then show ?thesis using begin_ok(2) [of c "shared r"] by (simp add: Let_def)
  next
    case (Move t)
    have "local_ok (shared r) (handlers r t)" using 2 by (simp add: sys_race_inv_def)
    from advance_commits(3) [OF this] Move show ?thesis by (simp add: access_def split: prod.split)
  qed
next
  case (3 e r t)
  show ?case
  proof (cases e)
    case (Call c)
    then show ?thesis using begin_ok(3) [of c "shared r"] by (auto simp: Let_def)
  next
    case (Move t')
    have ok: "local_ok (shared r) (handlers r t')" "\<forall>op \<in> set (held (handlers r t')). sys_thread op = t'"
      using 3 by (simp_all add: sys_race_inv_def)
    from advance_commits(2) [OF ok(1)] ok(2) Move show ?thesis
      by (auto simp: access_def filter_id_conv filter_empty_conv split: prod.split)
  qed
qed

section \<open>Properties\<close>

text \<open>C11. Interleaved system call hooks are linearizable: the maps and the records sent after any schedule of
  accesses are those of a run of whole hooks, the ones that have ended, in the order of their last
  accesses. For every thread these are the hooks it began, in that order, without the one still
  running.\<close>

theorem syscall_hooks_linearize:
  assumes "r0 = \<lparr>shared = s, handlers = \<lambda>_. S_idle\<rparr>" and "r = run sys_race_step es r0"
    and "done = history sys_race_step ends es r0" and "begun = history sys_race_step starts es r0"
  shows "shared r = run syscall_step done s \<and>
    filter (\<lambda>e. sys_thread e = t) begun = filter (\<lambda>e. sys_thread e = t) done @ held (handlers r t)"
proof -
  have inv: "sys_race_inv r0" by (simp add: assms(1) sys_race_inv_def)
  from sys_linear.run_linear [OF _ inv, of es] sys_linear.run_order [OF _ inv, of es t] show ?thesis
    using assms by (simp add: list_all_iff)
qed

text \<open>Two threads enter a call; the second ends its hook first.\<close>

definition two_entries :: "sys_race_ev list" where
  "two_entries = [Call (Sys_enter (call_env 7 5) 0), Call (Sys_enter (call_env 8 6) 1), Move 8, Move 7]"

lemma entry_begins: "sys_begin (Sys_enter (call_env tid ts) nr) (syscall_init call_args)
    = S_update (call_env tid ts) nr (entered (call_env tid ts))"
proof -
  have "passes call_args (call_env tid ts) nr" by (simp add: passes_def filtered_out_def call_args_def call_env_def)
  then show ?thesis using has_args_init unfolding sys_begin_enter by auto
qed

theorem syscall_hooks_linearize_witness:
  "shared (run sys_race_step two_entries \<lparr>shared = syscall_init call_args, handlers = \<lambda>_. S_idle\<rparr>) =
   run syscall_step [Sys_enter (call_env 8 6) 1, Sys_enter (call_env 7 5) 0] (syscall_init call_args)"
proof -
  let ?r = "\<lparr>shared = syscall_init call_args, handlers = \<lambda>_. S_idle\<rparr>"
  have t: "sys_thread (Sys_enter (call_env 7 5) 0) = 7" "sys_thread (Sys_enter (call_env 8 6) 1) = 8"
    by (simp_all add: sys_thread_env call_env_def)
  have "history sys_race_step ends two_entries ?r = [Sys_enter (call_env 8 6) 1, Sys_enter (call_env 7 5) 0]"
    by (simp add: two_entries_def t entry_begins access_def Let_def del: sys_begin.simps)
  with syscall_hooks_linearize [OF refl refl refl refl, of two_entries "syscall_init call_args"] show ?thesis by simp
qed

text \<open>So concurrent hooks only ever send justified events: whatever the schedule, every event is about a
  selected thread and call and has a duration in the window.\<close>

lemma concurrent_syscall_events_sound:
  assumes "r = run sys_race_step es \<lparr>shared = syscall_init args, handlers = \<lambda>_. S_idle\<rparr>"
  shows "\<forall>ev \<in> set (perf_out (shared r)). event_ok args ev"
proof -
  have "sys_race_inv \<lparr>shared = syscall_init args, handlers = \<lambda>_. S_idle\<rparr>" by (simp add: sys_race_inv_def)
  from sys_linear.run_linear [OF _ this, of es] show ?thesis
    using assms syscalls.run_inv [OF syscall_inv_init] by (simp add: syscall_inv_def list_all_iff)
qed

end
