(* ===== verification/Cachestat_Race.thy ===== *)
theory Cachestat_Race
  imports Cachestat Interleave
begin

text \<open>
  The cachestat hooks one access at a time. Threads of one process that use the same file share an
  element, and the hooks change it by plain loads and stores. An uninterrupted hook does what the
  one-step model of \<^emph>\<open>Cachestat\<close> does. Interleaved hooks never count a call twice and keep the identity
  of an element, but two hooks at the same time lose an update.
\<close>

section \<open>Hooks in steps\<close>

datatype cache_handler =
    C_idle
  | C_insert vfs_ev cache_key
  | C_cpu vfs_ev cache_key
  | C_load vfs_ev cache_key
  | C_store vfs_ev cache_key u64
  | C_load_cnt cache_key
  | C_store_cnt cache_key u64

type_synonym cache_race = "(cache_handler, cachestat_state) conc"

text \<open>A hook up to its lookup.\<close>

definition hook_begin :: "vfs_ev \<Rightarrow> cachestat_state \<Rightarrow> cache_handler" where
  "hook_begin e s =
     (let pid_tgid = bpf_get_current_pid_tgid (ev_env e); cpu = bpf_get_smp_processor_id (ev_env e);
          key_pid = drop_bit 32 pid_tgid
      in case array_lookup_elem (args_map s) 0 of
        None \<Rightarrow> C_idle
      | Some args \<Rightarrow>
          if ca_pid args \<noteq> minus1 \<and> ucast (ca_pid args) \<noteq> key_pid then C_idle
          else if ca_cpu args \<noteq> minus1 \<and> ca_cpu args \<noteq> cpu then C_idle
          else if wrong_kind args e then C_idle
          else
            let key = \<lparr>ck_pid = key_pid, ck_file = dn_name (ev_call e)\<rparr>
            in case bpf_map_lookup_elem (cachestat_map s) key of
              None \<Rightarrow> C_insert e key
            | Some info \<Rightarrow> C_cpu e key)"

text \<open>The total a hook adds to.\<close>

fun size_of :: "vfs_ev \<Rightarrow> cache_info \<Rightarrow> u64" where
  "size_of (Vfs_write env ctx) info = write_size info"
| "size_of (Vfs_read env ctx) info = read_size info"

fun set_size :: "vfs_ev \<Rightarrow> u64 \<Rightarrow> cache_info \<Rightarrow> cache_info" where
  "set_size (Vfs_write env ctx) n info = info\<lparr>write_size := n\<rparr>"
| "set_size (Vfs_read env ctx) n info = info\<lparr>read_size := n\<rparr>"

text \<open>One access. Elements are never removed, so a pointer from a lookup stays good.\<close>

fun hook_advance :: "cache_handler \<Rightarrow> cachestat_state \<Rightarrow> cache_handler \<times> cachestat_state" where
  "hook_advance C_idle s = (C_idle, s)"
| "hook_advance (C_insert e k) s =
     (C_idle, s\<lparr>cachestat_map := snd (bpf_map_update_elem (cachestat_map s) k (first_info e) BPF_ANY)\<rparr>)"
| "hook_advance (C_cpu e k) s =
     (C_load e k, s\<lparr>cachestat_map := elem_write (cachestat_map s) k
        (\<lambda>info. info\<lparr>ci_cpu := bpf_get_smp_processor_id (ev_env e)\<rparr>)\<rparr>)"
| "hook_advance (C_load e k) s =
     (case bpf_map_lookup_elem (cachestat_map s) k of
        Some info \<Rightarrow> (C_store e k (size_of e info), s)
      | None \<Rightarrow> (C_idle, s))"
| "hook_advance (C_store e k old) s =
     (C_load_cnt k, s\<lparr>cachestat_map := elem_write (cachestat_map s) k (set_size e (old + amount e))\<rparr>)"
| "hook_advance (C_load_cnt k) s =
     (case bpf_map_lookup_elem (cachestat_map s) k of
        Some info \<Rightarrow> (C_store_cnt k (ci_cnt info), s)
      | None \<Rightarrow> (C_idle, s))"
| "hook_advance (C_store_cnt k old) s =
     (C_idle, s\<lparr>cachestat_map := elem_write (cachestat_map s) k (\<lambda>info. info\<lparr>ci_cnt := old + 1\<rparr>)\<rparr>)"

datatype cache_race_ev = Hook vfs_ev | Access u64

fun cache_race_step :: "cache_race_ev \<Rightarrow> cache_race \<Rightarrow> cache_race" where
  "cache_race_step (Hook e) r =
     (let t = bpf_get_current_pid_tgid (ev_env e)
      in if handlers r t \<noteq> C_idle then r
         else r\<lparr>handlers := (handlers r)(t := hook_begin e (shared r))\<rparr>)"
| "cache_race_step (Access t) r = access hook_advance t r"

interpretation hook: stepped hook_advance C_idle cache_race_step Access
  by unfold_locales simp_all

section \<open>Uninterrupted hooks\<close>

lemma hook_begin_eq:
  "hook_begin e s = (case count_key s e of
     None \<Rightarrow> C_idle
   | Some k \<Rightarrow> if bpf_map_lookup_elem (cachestat_map s) k = None then C_insert e k else C_cpu e k)"
  by (auto simp: hook_begin_def count_key_def counted_def ev_key_def key_pid_tgid ucast_u32_u64_inj
      bpf_get_smp_processor_id_def array_lookup_elem_def Let_def split: list.split option.split)

lemma hook_accesses: "advances hook_advance 5 (hook_begin e s) s = (C_idle, cachestat_step e s)"
proof (cases "count_key s e")
  case None
  then show ?thesis by (simp add: hook_begin_eq hook.advances_idle cachestat_skip)
next
  case (Some k)
  show ?thesis
  proof (cases "bpf_map_lookup_elem (cachestat_map s) k")
    case None
    then show ?thesis
      using Some by (simp add: hook_begin_eq cachestat_count eval_nat_numeral)
  next
    case found: (Some info)
    let ?w = "\<lambda>info'. (set_size e (size_of e info + amount e) (info'\<lparr>ci_cpu := bpf_get_smp_processor_id (ev_env e)\<rparr>))
      \<lparr>ci_cnt := ci_cnt info + 1\<rparr>"
    have "?w info = next_info e info"
      by (cases e) (simp_all add: next_info_def bpf_get_smp_processor_id_def)
    from elem_write_cong [OF found, of ?w "next_info e", OF this] show ?thesis
      using cachestat_count [OF Some] Some found
      by (cases e) (simp_all add: hook_begin_eq eval_nat_numeral map_laws elem_write_twice comp_def)
  qed
qed

section \<open>Interleaved hooks\<close>

text \<open>The calls that begin in a schedule.\<close>

fun calls :: "cache_race_ev list \<Rightarrow> vfs_ev list" where
  "calls [] = []"
| "calls (Hook e # es) = e # calls es"
| "calls (Access t # es) = calls es"

fun key_of :: "cache_handler \<Rightarrow> cache_key option" where
  "key_of C_idle = None"
| "key_of (C_insert e k) = Some k"
| "key_of (C_cpu e k) = Some k"
| "key_of (C_load e k) = Some k"
| "key_of (C_store e k n) = Some k"
| "key_of (C_load_cnt k) = Some k"
| "key_of (C_store_cnt k n) = Some k"

fun loaded_cnt :: "cache_key \<Rightarrow> cache_handler \<Rightarrow> nat option" where
  "loaded_cnt k (C_store_cnt k' old) = (if k' = k then Some (unat old) else None)"
| "loaded_cnt k h = None"

fun hits :: "user_args \<Rightarrow> cache_key \<Rightarrow> cache_race_ev \<Rightarrow> bool" where
  "hits args k (Hook e) \<longleftrightarrow> counted args e \<and> ev_key e = k"
| "hits args k (Access t) \<longleftrightarrow> False"

definition call_count :: "cache_key \<Rightarrow> cachestat_state \<Rightarrow> nat option" where
  "call_count k s = map_option (\<lambda>info. unat (ci_cnt info)) (bpf_map_lookup_elem (cachestat_map s) k)"

lemma hits_calls: "length (filter (hits args k) es) = length (filter (\<lambda>e. counted args e \<and> ev_key e = k) (calls es))"
  by (induction es rule: calls.induct) simp_all

lemma size_keeps [simp]:
  "ci_cnt (set_size e n info) = ci_cnt info" "ci_pid (set_size e n info) = ci_pid info"
  "ci_file (set_size e n info) = ci_file info"
  by (cases e; simp)+

lemma first_fields [simp]:
  "ci_cnt (first_info e) = 1" "ci_pid (first_info e) = env_tgid (ev_env e)" "ci_file (first_info e) = file_name (ev_call e)"
  by (simp_all add: first_info_def)

lemma hook_advance_args: "hook_advance h s = (h', s') \<Longrightarrow> args_map s' = args_map s"
  by (cases h) (auto split: option.splits)

lemma call_count_write:
  "(\<And>info. ci_cnt (f info) = ci_cnt info) \<Longrightarrow>
     call_count k (s\<lparr>cachestat_map := elem_write (cachestat_map s) k' f\<rparr>) = call_count k s"
  by (auto simp: call_count_def map_laws map_option.compositionality comp_def)

text \<open>An access either leaves the counter and stays on the key, or is the last one of its hook.\<close>

lemma hook_advance_count:
  assumes adv: "hook_advance h s = (h', s')" and small: "\<And>n. loaded_cnt k h = Some n \<Longrightarrow> Suc n < 2 ^ 64"
  shows "call_count k s' = call_count k s \<and> (key_of h' = Some k) = (key_of h = Some k) \<and>
      loaded_cnt k h' \<in> {None, loaded_cnt k h, call_count k s} \<or>
    key_of h = Some k \<and> key_of h' \<noteq> Some k \<and>
      call_count k s' \<in> {Some 1, call_count k s, map_option Suc (loaded_cnt k h)}"
proof (cases h)
  case (C_store_cnt k' old)
  have "unat (old + 1) = Suc (unat old)" if "k' = k"
    using small C_store_cnt that unat_inc [of old "2 ^ 64 - 1"] by simp
  with C_store_cnt adv show ?thesis
    by (cases "bpf_map_lookup_elem (cachestat_map s) k") (auto simp: call_count_def map_laws)
next
  case (C_insert e k')
  have "call_count k s' \<in> {Some 1, call_count k s} \<and> (k' = k \<or> call_count k s' = call_count k s)"
    using adv C_insert by (cases "fst (bpf_map_update_elem (cachestat_map s) k' (first_info e) BPF_ANY) = 0")
      (auto simp: call_count_def map_laws split: if_splits)
  with C_insert adv show ?thesis by auto
next
  case (C_load_cnt k')
  with adv show ?thesis by (cases "k' = k") (auto simp: call_count_def split: option.splits)
qed (use adv in \<open>auto simp: call_count_write split: option.splits\<close>)

lemma hook_begin_hit:
  assumes "args_map s = args # replicate 7 zero_args"
  shows "loaded_cnt k (hook_begin e s) = None"
    and "key_of (hook_begin e s) = Some k \<Longrightarrow> counted args e \<and> ev_key e = k"
  using assms by (auto simp: hook_begin_eq count_key_def split: option.splits if_splits)

interpretation cache_count: racy_counter hook_advance C_idle cache_race_step Access
  "\<lambda>s. args_map s = args # replicate 7 zero_args" "call_count k" "\<lambda>h. key_of h = Some k" "loaded_cnt k" "hits args k"
  "2 ^ 64" for args k
proof (unfold_locales, goal_cases)
  case (2 h n)
  then show ?case by (cases h) (auto split: if_splits)
next
  case (4 h s h' s')
  then show ?case by (rule hook_advance_count)
next
  case (5 r e)
  show ?case
  proof (cases e)
    case (Hook c)
    have "loaded_cnt k (hook_begin c (shared r)) = None \<and> (key_of (hook_begin c (shared r)) = Some k \<longrightarrow> hits args k e)"
      using hook_begin_hit [OF 5] Hook by simp
    then show ?thesis
      by (intro disjI2 begin_shape [where P = "\<lambda>h. loaded_cnt k h = None \<and> (key_of h = Some k \<longrightarrow> hits args k e)"])
        (simp_all add: Hook Let_def)
  qed auto
qed (auto simp: hook_advance_args)

text \<open>The identity of an element comes from one of the calls.\<close>

definition named_by :: "vfs_ev set \<Rightarrow> cache_info \<Rightarrow> bool" where
  "named_by H info \<longleftrightarrow> (\<exists>e \<in> H. ci_pid info = env_tgid (ev_env e) \<and> ci_file info = file_name (ev_call e))"

definition name_inv :: "user_args \<Rightarrow> cache_key \<Rightarrow> vfs_ev set \<Rightarrow> cache_race \<Rightarrow> bool" where
  "name_inv args k H r \<longleftrightarrow> args_map (shared r) = args # replicate 7 zero_args \<and>
     (\<forall>t e. handlers r t = C_insert e k \<longrightarrow> e \<in> H) \<and>
     (\<forall>info. bpf_map_lookup_elem (cachestat_map (shared r)) k = Some info \<longrightarrow> named_by H info)"

lemma advance_named:
  assumes "hook_advance h s = (h', s')" and "\<forall>e. h = C_insert e k \<longrightarrow> e \<in> H"
    and "\<forall>info. bpf_map_lookup_elem (cachestat_map s) k = Some info \<longrightarrow> named_by H info"
  shows "(\<forall>e. h' \<noteq> C_insert e k) \<and>
    (\<forall>info. bpf_map_lookup_elem (cachestat_map s') k = Some info \<longrightarrow> named_by H info)"
  using assms by (cases h) (fastforce simp: map_laws named_by_def split: option.splits if_splits)+

lemma name_inv_step:
  assumes inv: "name_inv args k H r" and H: "\<And>e. ev = Hook e \<Longrightarrow> counted args e \<Longrightarrow> ev_key e = k \<Longrightarrow> e \<in> H"
  shows "name_inv args k H (cache_race_step ev r)"
proof (cases ev)
  case (Hook e)
  have "e' \<in> H" if "hook_begin e (shared r) = C_insert e' k" for e'
    using that inv H [OF Hook] hook_begin_hit(2) [of "shared r" args e k]
    by (auto simp: name_inv_def hook_begin_eq split: option.splits if_splits)
  then show ?thesis using inv Hook by (auto simp: name_inv_def Let_def)
next
  case (Access t)
  obtain h s where hs: "hook_advance (handlers r t) (shared r) = (h, s)" by fastforce
  from advance_named [OF this, of k H] hook_advance_args [OF hs] inv show ?thesis
    using Access hs by (auto simp: name_inv_def access_def)
qed

lemma name_inv_run:
  "name_inv args k H r \<Longrightarrow> set (filter (\<lambda>e. counted args e \<and> ev_key e = k) (calls es)) \<subseteq> H \<Longrightarrow>
     name_inv args k H (run cache_race_step es r)"
proof (induction es arbitrary: r)
  case (Cons ev es)
  have "name_inv args k H (cache_race_step ev r)"
    using Cons.prems by (intro name_inv_step) auto
  moreover have "set (filter (\<lambda>e. counted args e \<and> ev_key e = k) (calls es)) \<subseteq> H"
    using Cons.prems(2) by (cases ev) (auto split: if_splits)
  ultimately show ?case using Cons.IH by simp
qed simp

section \<open>Properties\<close>

text \<open>A cachestat hook that nothing interrupts needs at most five accesses and changes the maps exactly as
  the one-step hook does; the other threads' hooks stay where they are.\<close>

theorem cache_race_refines_hooks:
  assumes "t = bpf_get_current_pid_tgid (ev_env e)" and "handlers r t = C_idle"
  shows "run cache_race_step (Hook e # replicate 5 (Access t)) r = r\<lparr>shared := cachestat_step e (shared r)\<rparr>"
  using hook.run_alone [OF assms(2) hook_accesses [of e "shared r"]] assms by (simp add: Let_def)

theorem cache_race_refines_hooks_witness:
  "run cache_race_step (Hook (Vfs_read (vfs_env 1) (vfs_req 30)) #
       replicate 5 (Access (bpf_get_current_pid_tgid (vfs_env 1))))
     \<lparr>shared = cachestat_init vfs_args, handlers = \<lambda>_. C_idle\<rparr>
   = \<lparr>shared = cachestat_step (Vfs_read (vfs_env 1) (vfs_req 30)) (cachestat_init vfs_args), handlers = \<lambda>_. C_idle\<rparr>"
  using cache_race_refines_hooks [OF refl, of "\<lparr>shared = cachestat_init vfs_args, handlers = \<lambda>_. C_idle\<rparr>"
      "Vfs_read (vfs_env 1) (vfs_req 30)"]
  by simp

text \<open>C13. However the accesses of the hooks interleave, the element of a process and file counts at least one
  and at most as many calls as began for it, and names the process and the file of one of them.\<close>

theorem cache_race_no_overcount:
  assumes "length es < 2 ^ 64" and "hs = filter (\<lambda>e. counted args e \<and> ev_key e = k) (calls es)"
    and "r = run cache_race_step es \<lparr>shared = cachestat_init args, handlers = \<lambda>_. C_idle\<rparr>"
    and "bpf_map_lookup_elem (cachestat_map (shared r)) k = Some info"
  shows "0 < unat (ci_cnt info) \<and> unat (ci_cnt info) \<le> length hs \<and>
    (\<exists>e. e \<in> set hs \<and> ci_pid info = env_tgid (ev_env e) \<and> ci_file info = file_name (ev_call e))"
proof -
  let ?r0 = "\<lparr>shared = cachestat_init args, handlers = \<lambda>_. C_idle\<rparr>"
  have "length (filter (hits args k) es) < 2 ^ 64" using assms(1) length_filter_le [of "hits args k" es] by linarith
  moreover have "call_count k (cachestat_init args) = None" "args_map (cachestat_init args) = args # replicate 7 zero_args"
    by (simp_all add: call_count_def cachestat_init_def)
  moreover have "call_count k (shared (run cache_race_step es ?r0)) = Some (unat (ci_cnt info))"
    using assms(3,4) by (simp add: call_count_def)
  ultimately have "0 < unat (ci_cnt info) \<and> unat (ci_cnt info) \<le> length hs"
    unfolding assms(2) hits_calls [symmetric] by (intro cache_count.no_overcount)
  moreover have "name_inv args k (set hs) ?r0" by (simp add: name_inv_def cachestat_init_def)
  from name_inv_run [OF this, of es] assms have "named_by (set hs) info" by (simp add: name_inv_def)
  ultimately show ?thesis by (auto simp: named_by_def)
qed

lemma sample_tgid: "env_tgid (vfs_env cpu) = 7"
  by (simp add: vfs_env_def)

lemma sample_key:
  "env_tgid env = 7 \<Longrightarrow> count_key (cachestat_init vfs_args) (Vfs_write env (vfs_req n)) = Some \<lparr>ck_pid = 7, ck_file = 4096\<rparr>"
  by (simp add: count_key_def cachestat_init_def ev_key_def counted_def vfs_args_def vfs_req_def)

lemma sample_written:
  "bpf_map_lookup_elem (cachestat_map (vfs_write_hook (vfs_env 0) (vfs_req 100) (cachestat_init vfs_args)))
     \<lparr>ck_pid = 7, ck_file = 4096\<rparr> = Some (first_info (Vfs_write (vfs_env 0) (vfs_req 100)))"
  using cache.miss [OF sample_key [of "vfs_env 0" 100]]
  by (simp add: cachestat_init_def CACHESTAT_MAP_SIZE_def vfs_env_def)

theorem cache_race_no_overcount_witness:
  "\<exists>info. bpf_map_lookup_elem (cachestat_map (shared (run cache_race_step
       (Hook (Vfs_write (vfs_env 0) (vfs_req 100)) # replicate 5 (Access (bpf_get_current_pid_tgid (vfs_env 0))))
       \<lparr>shared = cachestat_init vfs_args, handlers = \<lambda>_. C_idle\<rparr>))) \<lparr>ck_pid = 7, ck_file = 4096\<rparr> = Some info \<and>
     unat (ci_cnt info) \<le> 1"
proof -
  let ?e = "Vfs_write (vfs_env 0) (vfs_req 100)" and ?k = "\<lparr>ck_pid = 7, ck_file = 4096\<rparr> :: cache_key"
  let ?es = "Hook ?e # replicate 5 (Access (bpf_get_current_pid_tgid (vfs_env 0)))"
  let ?r = "\<lparr>shared = cachestat_init vfs_args, handlers = \<lambda>_. C_idle\<rparr>"
  have calls: "calls ?es = [?e]" by (simp add: eval_nat_numeral)
  have "run cache_race_step ?es ?r = ?r\<lparr>shared := cachestat_step ?e (shared ?r)\<rparr>"
    using hook.run_alone [where r = ?r, OF _ hook_accesses [of ?e "shared ?r"]] by (simp add: Let_def)
  then have found: "bpf_map_lookup_elem (cachestat_map (shared (run cache_race_step ?es ?r))) ?k = Some (first_info ?e)"
    using sample_written by simp
  have "length (filter (\<lambda>e. counted vfs_args e \<and> ev_key e = ?k) (calls ?es)) \<le> 1" unfolding calls by simp
  with cache_race_no_overcount [OF _ refl refl found] found show ?thesis by fastforce
qed

text \<open>Two hooks on one element whose loads both come before the other's store.\<close>

definition overlap :: "vfs_ev \<Rightarrow> vfs_ev \<Rightarrow> cache_race_ev list" where
  "overlap e1 e2 =
     (let t1 = bpf_get_current_pid_tgid (ev_env e1); t2 = bpf_get_current_pid_tgid (ev_env e2)
      in [Hook e1, Hook e2, Access t1, Access t1, Access t2, Access t2, Access t1, Access t2,
          Access t1, Access t2, Access t1, Access t2])"

text \<open>C28. Two threads that write to the same file at the same time can lose an update: both hooks finish, but
  the element's total has grown by the second size only and its counter by one.\<close>

theorem cache_race_loses_update:
  assumes "e1 = Vfs_write env1 ctx1" and "e2 = Vfs_write env2 ctx2"
    and "t1 = bpf_get_current_pid_tgid env1" and "t2 = bpf_get_current_pid_tgid env2" and "t1 \<noteq> t2"
    and "handlers r t1 = C_idle" and "handlers r t2 = C_idle"
    and "count_key (shared r) e1 = Some k" and "count_key (shared r) e2 = Some k"
    and "bpf_map_lookup_elem (cachestat_map (shared r)) k = Some info"
    and "r' = run cache_race_step (overlap e1 e2) r"
  shows "handlers r' t1 = C_idle \<and> handlers r' t2 = C_idle \<and>
    (\<exists>info'. bpf_map_lookup_elem (cachestat_map (shared r')) k = Some info' \<and>
      write_size info' = write_size info + amount e2 \<and> ci_cnt info' = ci_cnt info + 1)"
  using assms by (simp add: overlap_def Let_def hook_begin_eq access_def map_laws)

theorem cache_race_loses_update_witness:
  "\<exists>info. bpf_map_lookup_elem (cachestat_map (shared (run cache_race_step
       (overlap (Vfs_write (vfs_env 0) (vfs_req 20)) (Vfs_write ((vfs_env 1)\<lparr>env_pid := 9\<rparr>) (vfs_req 3)))
       \<lparr>shared = vfs_write_hook (vfs_env 0) (vfs_req 100) (cachestat_init vfs_args), handlers = \<lambda>_. C_idle\<rparr>)))
       \<lparr>ck_pid = 7, ck_file = 4096\<rparr> = Some info \<and> write_size info = 103 \<and> ci_cnt info = 2"
proof -
  let ?s = "vfs_write_hook (vfs_env 0) (vfs_req 100) (cachestat_init vfs_args)"
  let ?r = "\<lparr>shared = ?s, handlers = \<lambda>_. C_idle\<rparr>" and ?env = "(vfs_env 1)\<lparr>env_pid := 9\<rparr>"
  have key: "count_key ?s (Vfs_write env (vfs_req n)) = Some \<lparr>ck_pid = 7, ck_file = 4096\<rparr>" if "env_tgid env = 7" for env n
    using sample_key [OF that, of n] cache.sel_const [of "Vfs_write (vfs_env 0) (vfs_req 100)" "cachestat_init vfs_args"]
    by (simp add: fun_eq_iff)
  have t: "bpf_get_current_pid_tgid (vfs_env 0) \<noteq> bpf_get_current_pid_tgid ?env"
    by (simp add: pid_tgid_inject vfs_env_def)
  have "amount (Vfs_write ?env (vfs_req 3)) = 3" "write_size (first_info (Vfs_write (vfs_env 0) (vfs_req 100))) = 100"
    "ci_cnt (first_info (Vfs_write (vfs_env 0) (vfs_req 100))) = 1"
    by (simp_all add: amount_small vfs_req_def first_info_def)
  moreover have "count_key (shared ?r) (Vfs_write (vfs_env 0) (vfs_req 20)) = Some \<lparr>ck_pid = 7, ck_file = 4096\<rparr>"
    "count_key (shared ?r) (Vfs_write ?env (vfs_req 3)) = Some \<lparr>ck_pid = 7, ck_file = 4096\<rparr>"
    "handlers ?r (bpf_get_current_pid_tgid (vfs_env 0)) = C_idle" "handlers ?r (bpf_get_current_pid_tgid ?env) = C_idle"
    "bpf_map_lookup_elem (cachestat_map (shared ?r)) \<lparr>ck_pid = 7, ck_file = 4096\<rparr>
       = Some (first_info (Vfs_write (vfs_env 0) (vfs_req 100)))"
    using sample_written by (simp_all add: key sample_tgid)
  note cache_race_loses_update [OF refl refl refl refl t this(3,4,1,2,5) refl]
  ultimately show ?thesis by auto
qed

end
