(* ===== verification/Workloads.thy ===== *)
theory Workloads
  imports Prelude
begin

text \<open>
  The programs under \<open>test\<close> that produce the load the tracers are tried on. \<open>lock.c\<close> lets five threads
  take one mutex three times each; \<open>thread_wake.c\<close> wakes a thread through a condition variable;
  \<open>sched_delay.c\<close> starts threads that never end. The first two are transition systems over the calls
  that can block; sleeping and printing change nothing another thread sees.
\<close>

section \<open>lock.c\<close>

definition N_THREADS :: nat where "N_THREADS = 5"

text \<open>The round a thread of \<open>my_handle\<close> is in, outside or inside the mutex.\<close>

datatype worker = W_none | W_want nat | W_hold nat | W_done

datatype lock_main = M_start | M_create nat | M_join nat | M_lock | M_unlock | M_destroy | M_done

datatype owner = Free | Worker nat | Main

record lock_prog =
  mutex :: owner
  workers :: "nat \<Rightarrow> worker"
  main_pc :: lock_main

definition lock_start :: lock_prog where
  "lock_start = \<lparr>mutex = Free, workers = \<lambda>_. W_none, main_pc = M_start\<rparr>"

text \<open>\<open>ok i\<close> says whether the \<open>i\<close>-th call of \<open>pthread_create\<close> succeeds; \<open>main\<close> goes on in any case. The join of a thread that
  was not created reads an identifier that was never set, which C leaves undefined, and has no step here.\<close>

inductive lock_step :: "(nat \<Rightarrow> bool) \<Rightarrow> lock_prog \<Rightarrow> lock_prog \<Rightarrow> bool" for ok where
  init: "main_pc s = M_start \<Longrightarrow> lock_step ok s (s\<lparr>mutex := Free, main_pc := M_create 0\<rparr>)"
| create: "main_pc s = M_create i \<Longrightarrow> i < N_THREADS \<Longrightarrow> ok i \<Longrightarrow>
    lock_step ok s (s\<lparr>workers := (workers s)(i := W_want 0), main_pc := M_create (Suc i)\<rparr>)"
| create_fails: "main_pc s = M_create i \<Longrightarrow> i < N_THREADS \<Longrightarrow> \<not> ok i \<Longrightarrow> lock_step ok s (s\<lparr>main_pc := M_create (Suc i)\<rparr>)"
| created: "main_pc s = M_create i \<Longrightarrow> \<not> i < N_THREADS \<Longrightarrow> lock_step ok s (s\<lparr>main_pc := M_join 0\<rparr>)"
| join: "main_pc s = M_join i \<Longrightarrow> i < N_THREADS \<Longrightarrow> ok i \<Longrightarrow> workers s i = W_done \<Longrightarrow>
    lock_step ok s (s\<lparr>main_pc := M_join (Suc i)\<rparr>)"
| joined: "main_pc s = M_join i \<Longrightarrow> \<not> i < N_THREADS \<Longrightarrow> lock_step ok s (s\<lparr>main_pc := M_lock\<rparr>)"
| test_lock: "workers s i = W_want k \<Longrightarrow> k < 3 \<Longrightarrow> mutex s = Free \<Longrightarrow>
    lock_step ok s (s\<lparr>mutex := Worker i, workers := (workers s)(i := W_hold k)\<rparr>)"
| test_unlock: "workers s i = W_hold k \<Longrightarrow>
    lock_step ok s (s\<lparr>mutex := Free, workers := (workers s)(i := W_want (Suc k))\<rparr>)"
| thread_exit: "workers s i = W_want k \<Longrightarrow> \<not> k < 3 \<Longrightarrow> lock_step ok s (s\<lparr>workers := (workers s)(i := W_done)\<rparr>)"
| main_lock: "main_pc s = M_lock \<Longrightarrow> mutex s = Free \<Longrightarrow> lock_step ok s (s\<lparr>mutex := Main, main_pc := M_unlock\<rparr>)"
| main_unlock: "main_pc s = M_unlock \<Longrightarrow> lock_step ok s (s\<lparr>mutex := Free, main_pc := M_destroy\<rparr>)"
| main_destroy: "main_pc s = M_destroy \<Longrightarrow> lock_step ok s (s\<lparr>main_pc := M_done\<rparr>)"

inductive lock_runs :: "(nat \<Rightarrow> bool) \<Rightarrow> nat \<Rightarrow> lock_prog \<Rightarrow> bool" for ok where
  lock_runs_start: "lock_runs ok 0 lock_start"
| lock_runs_step: "lock_runs ok n s \<Longrightarrow> lock_step ok s s' \<Longrightarrow> lock_runs ok (Suc n) s'"

text \<open>How many steps a worker and the main thread still have to make.\<close>

fun worker_left :: "worker \<Rightarrow> nat" where
  "worker_left W_none = 7"
| "worker_left (W_want k) = 7 - 2 * k"
| "worker_left (W_hold k) = 6 - 2 * k"
| "worker_left W_done = 0"

fun main_left :: "lock_main \<Rightarrow> nat" where
  "main_left M_start = 16"
| "main_left (M_create i) = 15 - i"
| "main_left (M_join i) = 9 - i"
| "main_left M_lock = 3"
| "main_left M_unlock = 2"
| "main_left M_destroy = 1"
| "main_left M_done = 0"

definition steps_left :: "lock_prog \<Rightarrow> nat" where
  "steps_left s = main_left (main_pc s) + (\<Sum>i<N_THREADS. worker_left (workers s i))"

text \<open>How many workers the main thread has created, and how many of them it has joined.\<close>

fun n_created :: "lock_main \<Rightarrow> nat" where
  "n_created M_start = 0"
| "n_created (M_create i) = i"
| "n_created _ = N_THREADS"

fun n_joined :: "lock_main \<Rightarrow> nat" where
  "n_joined M_start = 0"
| "n_joined (M_create i) = 0"
| "n_joined (M_join i) = i"
| "n_joined _ = N_THREADS"

fun round_ok :: "worker \<Rightarrow> bool" where
  "round_ok (W_want k) \<longleftrightarrow> k \<le> 3"
| "round_ok (W_hold k) \<longleftrightarrow> k < 3"
| "round_ok _ \<longleftrightarrow> True"

definition lock_inv :: "lock_prog \<Rightarrow> bool" where
  "lock_inv s \<longleftrightarrow> n_created (main_pc s) \<le> N_THREADS \<and> n_joined (main_pc s) \<le> N_THREADS \<and>
     (\<forall>i. round_ok (workers s i)) \<and>
     (\<forall>i. workers s i = W_none \<longleftrightarrow> n_created (main_pc s) \<le> i) \<and>
     (\<forall>i < n_joined (main_pc s). workers s i = W_done) \<and>
     (\<forall>i. mutex s = Worker i \<longleftrightarrow> (\<exists>k. workers s i = W_hold k)) \<and>
     (mutex s = Main \<longleftrightarrow> main_pc s = M_unlock)"

lemma lock_inv_start: "lock_inv lock_start"
  by (simp add: lock_inv_def lock_start_def N_THREADS_def)

lemma lock_inv_worker:
  assumes inv: "lock_inv s" and w: "workers s i \<notin> {W_none, W_done}" and x: "x \<noteq> W_none" "round_ok x"
    and m: "m = Worker i \<longleftrightarrow> (\<exists>k. x = W_hold k)" "\<And>j. j \<noteq> i \<Longrightarrow> m = Worker j \<longleftrightarrow> mutex s = Worker j"
      "m = Main \<longleftrightarrow> mutex s = Main"
  shows "lock_inv (s\<lparr>mutex := m, workers := (workers s)(i := x)\<rparr>)"
proof -
  have "\<not> n_created (main_pc s) \<le> i" "\<not> i < n_joined (main_pc s)"
    using inv w unfolding lock_inv_def by blast+
  then show ?thesis using inv x m by (simp add: lock_inv_def)
qed

lemma lock_inv_step: "lock_step ok s s' \<Longrightarrow> \<forall>i < N_THREADS. ok i \<Longrightarrow> lock_inv s \<Longrightarrow> lock_inv s'"
proof (induction rule: lock_step.induct)
  case (create s i)
  then have "workers s i = W_none" by (auto simp: lock_inv_def)
  then have "\<nexists>k. workers s i = W_hold k" by simp
  with create show ?case by (auto simp: lock_inv_def N_THREADS_def)
next
  case (test_lock s i k)
  then show ?case by (intro lock_inv_worker) auto
next
  case (test_unlock s i k)
  then have "mutex s = Worker i" "k < 3" unfolding lock_inv_def by (blast, metis round_ok.simps(2))
  with test_unlock show ?case by (intro lock_inv_worker) auto
next
  case (thread_exit s i k)
  then have "mutex s \<noteq> Worker i" unfolding lock_inv_def by simp
  with thread_exit lock_inv_worker [of s i W_done "mutex s"] show ?case by simp
qed (auto simp: lock_inv_def N_THREADS_def less_Suc_eq)

lemma worker_index: "lock_inv s \<Longrightarrow> workers s i \<noteq> W_none \<Longrightarrow> i < N_THREADS"
  by (fastforce simp: lock_inv_def)

lemma sum_worker_update:
  assumes "i < N_THREADS" and "worker_left (w i) = Suc (worker_left x)"
  shows "(\<Sum>j<N_THREADS. worker_left (w j)) = Suc (\<Sum>j<N_THREADS. worker_left ((w(i := x)) j))"
proof -
  have "(\<Sum>j<N_THREADS. worker_left (w j)) = worker_left (w i) + (\<Sum>j\<in>{..<N_THREADS} - {i}. worker_left (w j))"
    using assms(1) by (intro sum.remove) auto
  moreover have "(\<Sum>j<N_THREADS. worker_left ((w(i := x)) j)) =
      worker_left x + (\<Sum>j\<in>{..<N_THREADS} - {i}. worker_left (w j))"
    using assms(1) by (subst sum.remove [of _ i]) (auto intro: sum.cong)
  ultimately show ?thesis using assms(2) by simp
qed

lemma steps_left_step: "lock_step ok s s' \<Longrightarrow> \<forall>i < N_THREADS. ok i \<Longrightarrow> lock_inv s \<Longrightarrow> steps_left s = Suc (steps_left s')"
proof (induction rule: lock_step.induct)
  case (create s i)
  then have "workers s i = W_none" by (simp add: lock_inv_def)
  then have "worker_left (((workers s)(i := W_want 0)) j) = worker_left (workers s j)" for j by simp
  with create show ?case by (simp add: steps_left_def N_THREADS_def del: fun_upd_apply)
next
  case (test_lock s i k)
  with worker_index [of s i] show ?case
    using sum_worker_update [of i "workers s" "W_hold k"] by (simp add: steps_left_def)
next
  case (test_unlock s i k)
  then have "k < 3" by (metis lock_inv_def round_ok.simps(2))
  with test_unlock worker_index [of s i] show ?case
    using sum_worker_update [of i "workers s" "W_want (Suc k)"] by (simp add: steps_left_def)
next
  case (thread_exit s i k)
  then have "k = 3" by (metis lock_inv_def round_ok.simps(1) le_neq_implies_less)
  with thread_exit worker_index [of s i] show ?case
    using sum_worker_update [of i "workers s" W_done] by (simp add: steps_left_def)
qed (auto simp: steps_left_def lock_inv_def N_THREADS_def)

lemma lock_runs_inv: "lock_runs ok n s \<Longrightarrow> \<forall>i < N_THREADS. ok i \<Longrightarrow> lock_inv s \<and> n + steps_left s = 51"
proof (induction rule: lock_runs.induct)
  case lock_runs_start
  show ?case using lock_inv_start by (simp add: steps_left_def lock_start_def N_THREADS_def)
next
  case (lock_runs_step n s s')
  then show ?case using lock_inv_step [of ok s s'] steps_left_step [of ok s s'] by simp
qed

text \<open>Some thread can always go on: the owner of the mutex, or anyone when it is free.\<close>

lemma lock_progress:
  assumes inv: "lock_inv s" and "main_pc s \<noteq> M_done" and ok: "\<forall>i < N_THREADS. ok i"
  shows "\<exists>s'. lock_step ok s s'"
proof (cases "\<exists>i k. workers s i = W_hold k")
  case True
  then show ?thesis by (blast intro: lock_step.test_unlock)
next
  case free: False
  show ?thesis
  proof (cases "\<exists>i k. workers s i = W_want k")
    case True
    then obtain i k where i: "workers s i = W_want k" by blast
    show ?thesis
    proof (cases "mutex s = Main")
      case True
      then have "main_pc s = M_unlock" using inv by (simp add: lock_inv_def)
      then show ?thesis by (blast intro: lock_step.main_unlock)
    next
      case False
      then have "mutex s = Free" using inv free by (cases "mutex s") (auto simp: lock_inv_def)
      with i show ?thesis by (blast intro: lock_step.test_lock lock_step.thread_exit)
    qed
  next
    case False
    have fin: "workers s i = W_done" if "i < n_created (main_pc s)" for i
      using that free False inv by (cases "workers s i") (auto simp: lock_inv_def)
    have "mutex s = Free" if "main_pc s = M_lock"
      using inv free that by (cases "mutex s") (auto simp: lock_inv_def)
    moreover have "\<exists>s'. lock_step ok s s'" if "main_pc s = M_create i" for i
      using that ok by (cases "i < N_THREADS") (blast intro: lock_step.create lock_step.created)+
    moreover have "\<exists>s'. lock_step ok s s'" if "main_pc s = M_join i" for i
      using that fin ok by (cases "i < N_THREADS") (auto intro: lock_step.join lock_step.joined)
    ultimately show ?thesis
      using assms(2) by (cases "main_pc s") (blast intro: lock_step.init lock_step.main_lock
        lock_step.main_unlock lock_step.main_destroy)+
  qed
qed

section \<open>thread_wake.c\<close>

datatype signaller = S_none | S_lock | S_signal | S_unlock | S_done

datatype sleeper = L_none | L_lock | L_wait | L_blocked | L_relock | L_unlock | L_done

datatype wake_main = K_create1 | K_create2 | K_join1 | K_join2 | K_destroy | K_done

datatype wake_owner = Nobody | Thread1 | Thread2

record wake_prog =
  wlock :: wake_owner
  thread1 :: signaller
  thread2 :: sleeper
  wmain :: wake_main

definition wake_start :: wake_prog where
  "wake_start = \<lparr>wlock = Nobody, thread1 = S_none, thread2 = L_none, wmain = K_create1\<rparr>"

text \<open>\<open>pthread_cond_wait\<close> releases the mutex and blocks in one step and takes the mutex again when it is
  woken; \<open>pthread_cond_signal\<close> wakes a thread that is blocked and is lost otherwise. The flag allows
  the spurious wake-ups POSIX speaks of.\<close>

inductive wake_step :: "bool \<Rightarrow> wake_prog \<Rightarrow> wake_prog \<Rightarrow> bool" for spurious where
  "wmain s = K_create1 \<Longrightarrow> wake_step spurious s (s\<lparr>thread1 := S_lock, wmain := K_create2\<rparr>)"
| "wmain s = K_create2 \<Longrightarrow> wake_step spurious s (s\<lparr>thread2 := L_lock, wmain := K_join1\<rparr>)"
| "wmain s = K_join1 \<Longrightarrow> thread1 s = S_done \<Longrightarrow> wake_step spurious s (s\<lparr>wmain := K_join2\<rparr>)"
| "wmain s = K_join2 \<Longrightarrow> thread2 s = L_done \<Longrightarrow> wake_step spurious s (s\<lparr>wmain := K_destroy\<rparr>)"
| "wmain s = K_destroy \<Longrightarrow> wake_step spurious s (s\<lparr>wmain := K_done\<rparr>)"
| "thread1 s = S_lock \<Longrightarrow> wlock s = Nobody \<Longrightarrow>
     wake_step spurious s (s\<lparr>wlock := Thread1, thread1 := S_signal\<rparr>)"
| "thread1 s = S_signal \<Longrightarrow> wake_step spurious s (s\<lparr>thread1 := S_unlock,
     thread2 := if thread2 s = L_blocked then L_relock else thread2 s\<rparr>)"
| "thread1 s = S_unlock \<Longrightarrow> wake_step spurious s (s\<lparr>wlock := Nobody, thread1 := S_done\<rparr>)"
| "thread2 s = L_lock \<Longrightarrow> wlock s = Nobody \<Longrightarrow>
     wake_step spurious s (s\<lparr>wlock := Thread2, thread2 := L_wait\<rparr>)"
| "thread2 s = L_wait \<Longrightarrow> wake_step spurious s (s\<lparr>wlock := Nobody, thread2 := L_blocked\<rparr>)"
| "thread2 s = L_blocked \<Longrightarrow> spurious \<Longrightarrow> wake_step spurious s (s\<lparr>thread2 := L_relock\<rparr>)"
| "thread2 s = L_relock \<Longrightarrow> wlock s = Nobody \<Longrightarrow>
     wake_step spurious s (s\<lparr>wlock := Thread2, thread2 := L_unlock\<rparr>)"
| "thread2 s = L_unlock \<Longrightarrow> wake_step spurious s (s\<lparr>wlock := Nobody, thread2 := L_done\<rparr>)"

inductive_simps wake_step_iff: "wake_step spurious s s'"

inductive wake_reach :: "bool \<Rightarrow> wake_prog \<Rightarrow> bool" for spurious where
  wake_reach_start: "wake_reach spurious wake_start"
| wake_reach_step: "wake_reach spurious s \<Longrightarrow> wake_step spurious s s' \<Longrightarrow> wake_reach spurious s'"

text \<open>The mutex is held by the thread that is between its lock and unlock, and the main thread is not
  ahead of the threads it has joined.\<close>

definition wake_inv :: "wake_prog \<Rightarrow> bool" where
  "wake_inv s \<longleftrightarrow> (wlock s = Thread1 \<longleftrightarrow> thread1 s \<in> {S_signal, S_unlock}) \<and>
     (wlock s = Thread2 \<longleftrightarrow> thread2 s \<in> {L_wait, L_unlock}) \<and>
     (thread1 s = S_none \<longleftrightarrow> wmain s = K_create1) \<and>
     (thread2 s = L_none \<longleftrightarrow> wmain s \<in> {K_create1, K_create2}) \<and>
     (wmain s \<in> {K_join2, K_destroy, K_done} \<longrightarrow> thread1 s = S_done) \<and>
     (wmain s \<in> {K_destroy, K_done} \<longrightarrow> thread2 s = L_done)"

lemma wake_inv_step: "wake_step spurious s s' \<Longrightarrow> wake_inv s \<Longrightarrow> wake_inv s'"
  by (induction rule: wake_step.induct) (auto simp: wake_inv_def)

lemma wake_reach_inv: "wake_reach spurious s \<Longrightarrow> wake_inv s"
proof (induction rule: wake_reach.induct)
  case wake_reach_start
  show ?case by (simp add: wake_start_def wake_inv_def)
qed (rule wake_inv_step)

text \<open>The program stops either at its end or with the second thread blocked for good.\<close>

lemma wake_stuck:
  assumes "wake_reach spurious s" and "\<nexists>s'. wake_step spurious s s'"
  shows "wmain s = K_done \<or> wmain s = K_join2 \<and> thread1 s = S_done \<and> thread2 s = L_blocked"
proof -
  have inv: "wake_inv s" using assms(1) by (rule wake_reach_inv)
  have "thread1 s \<notin> {S_signal, S_unlock}" "thread2 s \<notin> {L_wait, L_unlock}"
    using assms(2) by (auto simp: wake_step_iff)
  then have "wlock s = Nobody" using inv by (cases "wlock s") (auto simp: wake_inv_def)
  then show ?thesis
    using assms(2) inv
    by (cases "wmain s"; cases "thread1 s"; cases "thread2 s") (simp_all add: wake_step_iff wake_inv_def, blast+)
qed

section \<open>sched_delay.c\<close>

definition NUM_THREADS :: nat where "NUM_THREADS = 8"

text \<open>Where the main thread ends: it exits when a thread cannot be created, or it waits for ever for
  threads that never return.\<close>

datatype sched_outcome = Exited int nat | Joining nat

fun create_sleepers :: "(nat \<Rightarrow> int) \<Rightarrow> nat \<Rightarrow> nat \<Rightarrow> nat + nat" where
  "create_sleepers rc t 0 = Inr t"
| "create_sleepers rc t (Suc n) = (if rc t \<noteq> 0 then Inl t else create_sleepers rc (t + 1) n)"

definition sched_main :: "(nat \<Rightarrow> int) \<Rightarrow> sched_outcome" where
  "sched_main rc =
     (case create_sleepers rc 0 NUM_THREADS of
        Inl t \<Rightarrow> Exited (- 1) t
      | Inr t \<Rightarrow> if rc t \<noteq> 0 then Exited (- 1) t else Joining (NUM_THREADS + 1))"

lemma create_sleepers_Inr: "create_sleepers rc t n = Inr t' \<longleftrightarrow> t' = t + n \<and> (\<forall>j < n. rc (t + j) = 0)"
proof (induction n arbitrary: t)
  case 0
  then show ?case by auto
next
  case (Suc n)
  show ?case using Suc.IH [of "t + 1"] by (auto simp: less_Suc_eq_0_disj)
qed

lemma sched_main_joins: "sched_main rc = Joining n \<longleftrightarrow> n = 9 \<and> (\<forall>t \<le> 8. rc t = 0)"
  using create_sleepers_Inr [of rc 0 8]
  by (auto simp: sched_main_def NUM_THREADS_def less_Suc_eq_le le_eq_less_or_eq [of _ 8] split: sum.splits)

section \<open>Properties\<close>

text \<open>C39. When every \<open>pthread_create\<close> succeeds, \<open>lock.c\<close> ends: it makes 51 steps, whatever the schedule, and can only stop when
  the main thread has returned. Then every worker has ended and the mutex is free. On the way no two threads are
  inside the mutex at once, the main thread included.\<close>

theorem lock_terminates:
  assumes "lock_runs ok n s" and "\<forall>i < N_THREADS. ok i"
  shows "n \<le> 51 \<and> ((\<nexists>s'. lock_step ok s s') \<longleftrightarrow> main_pc s = M_done) \<and>
    (main_pc s = M_done \<longrightarrow> n = 51 \<and> mutex s = Free \<and> (\<forall>i < N_THREADS. workers s i = W_done)) \<and>
    (workers s i = W_hold k \<longrightarrow> mutex s = Worker i \<and> main_pc s \<noteq> M_unlock \<and> (\<forall>j k'. workers s j = W_hold k' \<longrightarrow> j = i)) \<and>
    (main_pc s = M_unlock \<longrightarrow> mutex s = Main \<and> (\<forall>j k'. workers s j \<noteq> W_hold k'))"
proof -
  have inv: "lock_inv s" and left: "n + steps_left s = 51" using lock_runs_inv [OF assms] by simp_all
  have fin: "mutex s = Free \<and> (\<forall>i < N_THREADS. workers s i = W_done) \<and> steps_left s = 0" if "main_pc s = M_done"
  proof -
    have all: "\<forall>i < N_THREADS. workers s i = W_done" using inv that by (auto simp: lock_inv_def)
    then have "workers s i \<noteq> W_hold k" for i k using worker_index [OF inv, of i] by force
    then have "mutex s = Free" using inv that by (cases "mutex s") (auto simp: lock_inv_def)
    with all that show ?thesis by (simp add: steps_left_def)
  qed
  have "\<nexists>s'. lock_step ok s s'" if "main_pc s = M_done"
    using fin [OF that] steps_left_step [OF _ assms(2) inv] by fastforce
  then have "(\<nexists>s'. lock_step ok s s') \<longleftrightarrow> main_pc s = M_done" using lock_progress [OF inv _ assms(2)] by blast
  moreover have "mutex s = Worker i \<and> main_pc s \<noteq> M_unlock \<and> (\<forall>j k'. workers s j = W_hold k' \<longrightarrow> j = i)" if "workers s i = W_hold k"
  proof -
    have own: "mutex s = Worker j \<longleftrightarrow> (\<exists>k. workers s j = W_hold k)" for j using inv by (simp add: lock_inv_def)
    then have "mutex s = Worker i" using that by blast
    moreover have "mutex s = Main \<longleftrightarrow> main_pc s = M_unlock" using inv by (simp add: lock_inv_def)
    ultimately show ?thesis using own by (metis owner.distinct(5) owner.inject)
  qed
  moreover have "mutex s = Main \<and> (\<forall>j k'. workers s j \<noteq> W_hold k')" if "main_pc s = M_unlock"
  proof -
    have "mutex s = Main" using inv that by (simp add: lock_inv_def)
    moreover have "mutex s = Worker j \<longleftrightarrow> (\<exists>k. workers s j = W_hold k)" for j using inv by (simp add: lock_inv_def)
    ultimately show ?thesis by simp
  qed
  moreover have "n = 51 \<and> mutex s = Free \<and> (\<forall>i < N_THREADS. workers s i = W_done)" if "main_pc s = M_done"
    using left fin [OF that] by simp
  ultimately show ?thesis using left by simp
qed

text \<open>The first worker inside the mutex after three steps.\<close>

theorem lock_terminates_witness:
  "\<exists>s. lock_runs (\<lambda>_. True) 3 s \<and> workers s 0 = W_hold 0 \<and> main_pc s \<noteq> M_unlock \<and> (\<exists>s'. lock_step (\<lambda>_. True) s s')"
proof -
  let ?ok = "\<lambda>_ :: nat. True"
  let ?s1 = "lock_start\<lparr>mutex := Free, main_pc := M_create 0\<rparr>"
  let ?s2 = "?s1\<lparr>workers := (workers ?s1)(0 := W_want 0), main_pc := M_create 1\<rparr>"
  let ?s3 = "?s2\<lparr>mutex := Worker 0, workers := (workers ?s2)(0 := W_hold 0)\<rparr>"
  have "lock_runs ?ok (Suc 0) ?s1" by (rule lock_runs_step [OF lock_runs_start lock_step.init]) (simp add: lock_start_def)
  then have "lock_runs ?ok (Suc (Suc 0)) ?s2"
    by (rule lock_runs_step) (use lock_step.create [of ?s1 0 ?ok] in \<open>simp add: N_THREADS_def\<close>)
  then have "lock_runs ?ok (Suc (Suc (Suc 0))) ?s3"
    by (rule lock_runs_step) (use lock_step.test_lock [of ?s2 0 0 ?ok] in simp)
  then have runs: "lock_runs ?ok 3 ?s3" by (simp only: numeral_3_eq_3)
  have "main_pc ?s3 \<noteq> M_done" and hold: "workers ?s3 0 = W_hold 0" by simp_all
  then have "main_pc ?s3 \<noteq> M_unlock \<and> (\<exists>s'. lock_step ?ok ?s3 s')" using lock_terminates [OF runs, of 0 0] by blast
  with runs hold show ?thesis by (metis (no_types))
qed

text \<open>\<open>thread_wake.c\<close> can hang: if the signal is sent before the second thread waits, it is lost, and
  the program stops with that thread blocked and the main thread waiting for it.\<close>

theorem thread_wake_can_hang:
  "\<exists>s. wake_reach False s \<and> (\<nexists>s'. wake_step False s s') \<and> thread1 s = S_done \<and>
     thread2 s = L_blocked \<and> wmain s = K_join2"
proof -
  let ?s = "\<lparr>wlock = Nobody, thread1 = S_done, thread2 = L_blocked, wmain = K_join2\<rparr>"
  have step: "wake_reach False s \<Longrightarrow> wake_step False s s' \<Longrightarrow> wake_reach False s'" for s s'
    by (rule wake_reach_step)
  have "wake_reach False \<lparr>wlock = Nobody, thread1 = S_lock, thread2 = L_none, wmain = K_create2\<rparr>"
    by (rule step [OF wake_reach_start]) (simp add: wake_step_iff wake_start_def)
  then have "wake_reach False \<lparr>wlock = Nobody, thread1 = S_lock, thread2 = L_lock, wmain = K_join1\<rparr>"
    by (rule step) (simp add: wake_step_iff)
  then have "wake_reach False \<lparr>wlock = Thread1, thread1 = S_signal, thread2 = L_lock, wmain = K_join1\<rparr>"
    by (rule step) (simp add: wake_step_iff)
  then have "wake_reach False \<lparr>wlock = Thread1, thread1 = S_unlock, thread2 = L_lock, wmain = K_join1\<rparr>"
    by (rule step) (simp add: wake_step_iff)
  then have "wake_reach False \<lparr>wlock = Nobody, thread1 = S_done, thread2 = L_lock, wmain = K_join1\<rparr>"
    by (rule step) (simp add: wake_step_iff)
  then have "wake_reach False \<lparr>wlock = Thread2, thread1 = S_done, thread2 = L_wait, wmain = K_join1\<rparr>"
    by (rule step) (simp add: wake_step_iff)
  then have "wake_reach False \<lparr>wlock = Nobody, thread1 = S_done, thread2 = L_blocked, wmain = K_join1\<rparr>"
    by (rule step) (simp add: wake_step_iff)
  then have "wake_reach False ?s" by (rule step) (simp add: wake_step_iff)
  then show ?thesis by (intro exI [of _ ?s]) (simp add: wake_step_iff)
qed

end
