(* ===== verification/Wire_Offcpu.thy ===== *)
theory Wire_Offcpu
  imports Wire
begin

text \<open>
  The two ways offcpu's data reach the Go side: the records in the perf buffer, and the backup of a
  processor's ring, which \<open>schedCacheDump\<close> reads from the map when a record carries the dump flag.
  Every array in the program's state keeps its declared size in every run, so both decode exactly.
\<close>

section \<open>The ring's backup\<close>

definition sched_record_fields :: "sched_record \<Rightarrow> field list" where
  "sched_record_fields x = [u32f (sr_pid x), u32f (sr_prio x), charsf (sr_comm x), u64f (sr_ts x)]"

definition sched_cached_fields :: "sched_cached \<Rightarrow> field list" where
  "sched_cached_fields c = [u32f (sc_status c), u32f (sc_cpu c), u32f (sc_id c), u32f (sc_pad c)] @
     concat (map sched_record_fields (sc_records c))"

text \<open>The Go declarations.\<close>

definition SchedRecord :: "nat list" where
  "SchedRecord = [4, 4, 16, 8]"

definition SchedCached :: "nat list" where
  "SchedCached = [4, 4, 4, 4] @ concat (replicate 512 SchedRecord)"

definition SCHED_CACHE_DUMP_STEP :: nat where "SCHED_CACHE_DUMP_STEP = 10"

text \<open>\<open>schedCacheDump\<close> turns every tenth record into an event with its index. A failed lookup ends it; a
  value that does not decode is logged and leaves the struct zero, and its events are sent.\<close>

function dump_indices :: "nat \<Rightarrow> nat list" where
  "dump_indices i = (if i < SCHED_CACHE_SIZE then i # dump_indices (i + SCHED_CACHE_DUMP_STEP) else [])"
  by pat_completeness auto
termination
  by (relation "measure (\<lambda>i. SCHED_CACHE_SIZE - i)") (auto simp: SCHED_CACHE_DUMP_STEP_def)

declare dump_indices.simps [simp del]

definition schedCacheDump :: "bytes option \<Rightarrow> (nat \<times> bytes list) list" where
  "schedCacheDump got =
     (case got of
        None \<Rightarrow> []
      | Some value \<Rightarrow>
          let cache_event = (case binary_read SchedCached value of
                Some fs \<Rightarrow> fs
              | None \<Rightarrow> map (\<lambda>n. replicate n 0) SchedCached)
          in map (\<lambda>i. (i, take 4 (drop (4 + 4 * i) cache_event))) (dump_indices 0))"

lemma dump_indices_less: "i \<in> set (dump_indices k) \<Longrightarrow> i < SCHED_CACHE_SIZE"
  by (induction k rule: dump_indices.induct) (subst (asm) (2) dump_indices.simps, auto split: if_splits)

lemma record_packed:
  assumes "length (sr_comm x) = 16"
  shows "no_padding (8 * q) (sched_record_fields x)" and "map (length \<circ> snd) (sched_record_fields x) = SchedRecord"
proof -
  have "pad_to 4 (8 * q) = 0" "pad_to 4 (8 * q + 4) = 0" "pad_to 1 (8 * q + 8) = 0" "pad_to 8 (8 * q + 24) = 0"
    by (rule pad_to_eq_0, presburger)+
  then show "no_padding (8 * q) (sched_record_fields x)"
    using assms by (simp add: sched_record_fields_def field_defs add.assoc)
  show "map (length \<circ> snd) (sched_record_fields x) = SchedRecord"
    using assms by (simp add: sched_record_fields_def field_defs SchedRecord_def)
qed

lemma records_packed:
  assumes "\<forall>x \<in> set xs. length (sr_comm x) = 16"
  shows "no_padding (8 * q) (concat (map sched_record_fields xs)) \<and>
    map (length \<circ> snd) (concat (map sched_record_fields xs)) = concat (replicate (length xs) SchedRecord)"
  using assms
proof (induction xs arbitrary: q)
  case Nil
  then show ?case by simp
next
  case (Cons x xs)
  have len: "map (length \<circ> snd) (sched_record_fields x) = SchedRecord" and "no_padding (8 * q) (sched_record_fields x)"
    using Cons.prems record_packed(1) [of x q] record_packed(2) [of x] by simp_all
  moreover have "sum_list SchedRecord = 32" by (simp add: SchedRecord_def)
  moreover have "8 * q + 32 = 8 * (q + 4)" by simp
  ultimately show ?case using Cons.IH [of "q + 4"] Cons.prems by (simp add: no_padding_append comp_def)
qed

definition cache_sized :: "sched_cached \<Rightarrow> bool" where
  "cache_sized c \<longleftrightarrow> length (sc_records c) = SCHED_CACHE_SIZE \<and> (\<forall>x \<in> set (sc_records c). length (sr_comm x) = 16)"

lemma cached_packed:
  assumes "cache_sized c"
  shows "no_padding 0 (sched_cached_fields c)" and "map (length \<circ> snd) (sched_cached_fields c) = SchedCached"
proof -
  have len: "length (sc_records c) = 512" and xs: "\<forall>x \<in> set (sc_records c). length (sr_comm x) = 16"
    using assms by (simp_all add: cache_sized_def SCHED_CACHE_SIZE_def)
  note rec = records_packed [OF xs, of 2]
  show "no_padding 0 (sched_cached_fields c)"
    using rec by (simp add: sched_cached_fields_def no_padding_append) (simp add: layout_simps)
  show "map (length \<circ> snd) (sched_cached_fields c) = SchedCached"
    using rec len by (simp add: sched_cached_fields_def SchedCached_def) (simp add: field_defs)
qed

text \<open>The fields of the record with a given index.\<close>

lemma nth_record_fields:
  assumes "i < length xs"
  shows "take 4 (drop (4 * i) (concat (map sched_record_fields xs))) = sched_record_fields (xs ! i)"
  using assms
proof (induction xs arbitrary: i)
  case Nil
  then show ?case by simp
next
  case (Cons x xs)
  have "length (sched_record_fields x) = 4" by (simp add: sched_record_fields_def)
  with Cons show ?case by (cases i) auto
qed

lemma schedCacheDump_decodes:
  assumes "cache_sized c"
  shows "schedCacheDump (Some (c_struct 0 (sched_cached_fields c))) =
    map (\<lambda>i. (i, map snd (sched_record_fields (sc_records c ! i)))) (dump_indices 0)"
proof -
  note packed = cached_packed [OF assms]
  have "binary_read SchedCached (c_struct 0 (sched_cached_fields c)) = Some (map snd (sched_cached_fields c))"
    using binary_read_no_padding [OF packed(1), of "[]"] packed(2) by simp
  moreover have "take 4 (drop (4 + 4 * i) (map snd (sched_cached_fields c)))
      = map snd (sched_record_fields (sc_records c ! i))" if "i \<in> set (dump_indices 0)" for i
  proof -
    have "drop 4 (map snd (sched_cached_fields c)) = map snd (concat (map sched_record_fields (sc_records c)))"
      by (simp add: sched_cached_fields_def)
    then have "drop (4 + 4 * i) (map snd (sched_cached_fields c))
        = map snd (drop (4 * i) (concat (map sched_record_fields (sc_records c))))"
      using drop_drop [of "4 * i" 4 "map snd (sched_cached_fields c)"] by (simp only: add.commute drop_map)
    then show ?thesis
      using dump_indices_less [OF that] nth_record_fields [of i "sc_records c"] assms
      by (simp add: cache_sized_def take_map)
  qed
  ultimately show ?thesis by (simp add: schedCacheDump_def)
qed

section \<open>Sizes in every run\<close>

definition te_sized :: "trace_event_t \<Rightarrow> bool" where
  "te_sized ep \<longleftrightarrow> length (waker_t_comm (te_waker ep)) = 16 \<and> length (waker_comm (te_waker ep)) = 16 \<and>
     length (target_w_comm (te_target ep)) = 16 \<and> length (target_comm (te_target ep)) = 16"

definition pe_sized :: "perf_event_t \<Rightarrow> bool" where
  "pe_sized pe \<longleftrightarrow> te_sized \<lparr>te_waker = pe_waker pe, te_target = pe_target pe\<rparr>"

definition offcpu_typed :: "offcpu_state \<Rightarrow> bool" where
  "offcpu_typed s \<longleftrightarrow> slots_ready s \<and> hash_wf (offcpu_state.start s) \<and> hash_wf (sched_cache_backup_map s) \<and>
     max_entries (offcpu_state.start s) = Offcpu.MAX_ENTRIES \<and> max_entries (sched_cache_backup_map s) = 1024 \<and>
     (\<forall>k ep. bpf_map_lookup_elem (offcpu_state.start s) k = Some ep \<longrightarrow> te_sized ep) \<and>
     (\<forall>pe \<in> set (offcpu_state.perf_out s). pe_sized pe) \<and>
     (\<forall>c. cache_sized (sched_cache_map s c ! 0)) \<and>
     (\<forall>c x. bpf_map_lookup_elem (sched_cache_backup_map s) c = Some x \<longrightarrow> cache_sized x)"

lemma te_sized_updates [simp]:
  "te_sized ep \<Longrightarrow> te_sized (set_waker env ep)"
  "te_sized ep \<Longrightarrow> te_sized (departed env t ep)"
  "te_sized (first_woken env t)"
  "te_sized (first_departed env t)"
  by (simp_all add: te_sized_def set_waker_def departed_def first_woken_def first_departed_def Offcpu.zero_event_def
      zero_waker_def zero_target_def Let_def TASK_COMM_LEN_def)

lemma cache_sized_push [simp]: "cache_sized c \<Longrightarrow> cache_sized (cache_push p ts cpu c)"
  using set_update_subset_insert [of "sc_records c"]
  by (auto simp: cache_sized_def cache_push_def Let_def task_record_def TASK_COMM_LEN_def
      dest!: subsetD [OF set_update_subset_insert])

lemma max_entries_put [simp]: "max_entries (put m k f v) = max_entries m"
  by (simp add: put_def split: option.split)

text \<open>The stores the hooks are made of.\<close>

lemma typed_start:
  assumes "offcpu_typed s" and "hash_wf m" and "max_entries m = Offcpu.MAX_ENTRIES" and "\<And>k ep. bpf_map_lookup_elem m k = Some ep \<Longrightarrow> te_sized ep"
  shows "offcpu_typed (s\<lparr>offcpu_state.start := m\<rparr>)"
  using assms by (simp add: offcpu_typed_def slots_ready_def)

lemma typed_write:
  assumes "offcpu_typed s" and "\<And>ep. bpf_map_lookup_elem (offcpu_state.start s) k = Some ep \<Longrightarrow> te_sized (f ep)"
  shows "offcpu_typed (s\<lparr>offcpu_state.start := elem_write (offcpu_state.start s) k f\<rparr>)"
  using assms by (intro typed_start) (auto simp: offcpu_typed_def map_laws split: if_splits)

lemma typed_put:
  assumes "offcpu_typed s" and "te_sized v"
  shows "offcpu_typed (s\<lparr>offcpu_state.start := snd (bpf_map_update_elem (offcpu_state.start s) k v BPF_ANY)\<rparr>)"
  using assms by (intro typed_start) (auto simp: offcpu_typed_def map_laws split: if_splits)

lemma typed_emit:
  assumes "offcpu_typed s" and "pe_sized pe"
  shows "offcpu_typed (s\<lparr>perf_event_cache_map := percpu_elem_write (perf_event_cache_map s) c 0 (\<lambda>_. pe),
    offcpu_state.perf_out := offcpu_state.perf_out s @ [pe]\<rparr>)"
  using assms by (auto simp: offcpu_typed_def slots_ready_def)

lemma typed_dump: "offcpu_typed s \<Longrightarrow> offcpu_typed (sched_cache_dump c s)"
  using slots_lookup(2) [of s c]
  by (auto simp: offcpu_typed_def sched_cache_dump_def Let_def slots_ready_def percpu_write_nth map_laws
      cache_sized_def split: if_splits)

lemma typed_cache_update: "offcpu_typed s \<Longrightarrow> offcpu_typed (sched_cache_update p ts c s)"
  using slots_lookup(2) [of s c]
  by (auto simp: offcpu_typed_def sched_cache_update_def slots_ready_def percpu_write_nth split: if_splits)

lemma typed_wake: "offcpu_typed s \<Longrightarrow> offcpu_typed (try_to_wake_up_hook env t st s)"
proof -
  assume typed: "offcpu_typed s"
  have "try_to_wake_up_hook env t st s = s\<lparr>offcpu_state.start := offcpu_state.start (try_to_wake_up_hook env t st s)\<rparr>"
    by (simp add: try_to_wake_up_hook_def Let_def split: option.split)
  moreover have "offcpu_typed (s\<lparr>offcpu_state.start := offcpu_state.start (try_to_wake_up_hook env t st s)\<rparr>)"
    using typed
    by (intro typed_start)
      (auto simp: offcpu_typed_def wake_start put_wf put_lookup put_value_def split: if_splits option.splits)
  ultimately show ?thesis by simp
qed

lemma typed_prev: "offcpu_typed s \<Longrightarrow> offcpu_typed (record_prev env t s)"
proof -
  assume typed: "offcpu_typed s"
  have "record_prev env t s = s\<lparr>offcpu_state.start := offcpu_state.start (record_prev env t s)\<rparr>"
    by (simp add: record_prev_def update_new_task_info_def Let_def split: option.split)
  moreover have "offcpu_typed (s\<lparr>offcpu_state.start := offcpu_state.start (record_prev env t s)\<rparr>)"
    using typed
    by (intro typed_start)
      (auto simp: offcpu_typed_def prev_start put_wf put_lookup put_value_def split: if_splits option.splits)
  ultimately show ?thesis by simp
qed

lemma pe_sized_fill: "te_sized ep \<Longrightarrow> pe_sized (fill_perf_event env ep d q pe)"
  by (simp add: pe_sized_def te_sized_def fill_perf_event_def TASK_COMM_LEN_def)

lemma pe_sized_flag: "pe_sized pe \<Longrightarrow> pe_sized (pe\<lparr>pe_is_sched_cache_dump := a, pe_cpu := b\<rparr>)"
  by (simp add: pe_sized_def)

lemma te_sized_target:
  "te_sized ep \<Longrightarrow> te_sized (ep\<lparr>te_target := (te_target ep)\<lparr>target_oncpu_id := a, target_oncpu_ns := b\<rparr>\<rparr>)"
  "te_sized ep \<Longrightarrow> te_sized (ep\<lparr>te_target := (te_target ep)\<lparr>target_run_delay_ns := c\<rparr>\<rparr>)"
  by (simp_all add: te_sized_def)

lemma typed_cur:
  assumes typed: "offcpu_typed s"
  shows "offcpu_typed (record_cur env args t s)"
proof (cases "is_target_task s (task_tgid t) (task_pid t) \<and> bpf_map_lookup_elem (offcpu_state.start s) (task_pid t) \<noteq> None")
  case False
  then show ?thesis using typed by (subst record_cur_skip) auto
next
  case True
  then obtain ep where target: "is_target_task s (task_tgid t) (task_pid t)"
    and ep: "bpf_map_lookup_elem (offcpu_state.start s) (task_pid t) = Some ep" by auto
  define ep' where "ep' = ep\<lparr>te_target := (te_target ep)\<lparr>target_oncpu_id := env_cpu env, target_oncpu_ns := env_ktime env\<rparr>\<rparr>"
  define s1 where "s1 = s\<lparr>offcpu_state.start := elem_write (offcpu_state.start s) (task_pid t) (\<lambda>_. ep')\<rparr>"
  have "te_sized ep" using typed ep by (auto simp: offcpu_typed_def)
  then have sized: "te_sized ep'" by (simp add: ep'_def te_sized_target)
  then have s1: "offcpu_typed s1" unfolding s1_def by (intro typed_write [OF typed]) simp
  have settle: "offcpu_typed (x\<lparr>offcpu_state.start := elem_write (offcpu_state.start x) (task_pid t)
      (\<lambda>ep. ep\<lparr>te_target := (te_target ep)\<lparr>target_run_delay_ns := task_run_delay t\<rparr>\<rparr>)\<rparr>)" if "offcpu_typed x" for x
    using that by (intro typed_write) (auto simp: offcpu_typed_def te_sized_target)
  have emit: "offcpu_typed (x\<lparr>perf_event_cache_map := percpu_elem_write (perf_event_cache_map x) c 0 (\<lambda>_. pe),
      offcpu_state.perf_out := offcpu_state.perf_out x @ [pe],
      offcpu_state.start := elem_write (offcpu_state.start x) (task_pid t)
        (\<lambda>ep. ep\<lparr>te_target := (te_target ep)\<lparr>target_run_delay_ns := task_run_delay t\<rparr>\<rparr>)\<rparr>)"
    if "offcpu_typed x" "pe_sized pe" for x c pe using settle [OF typed_emit [OF that]] by simp
  note emits = emit [OF s1] emit [OF typed_dump [OF s1], simplified]
  note fill = pe_sized_fill [OF sized] pe_sized_flag [OF pe_sized_fill [OF sized]]
  show ?thesis
    using target ep s1 settle [OF s1] emits fill
    by (simp add: record_cur_def Let_def bpf_ktime_get_ns_def bpf_get_smp_processor_id_def
        ep'_def [symmetric] s1_def [symmetric] split: option.split)
qed

lemma typed_step: "offcpu_typed s \<Longrightarrow> offcpu_typed (offcpu_step e s)"
proof (cases e)
  case (Switch env cur pre)
  assume "offcpu_typed s"
  moreover from this have "slots_ready s" by (simp add: offcpu_typed_def)
  ultimately show ?thesis
    using Switch by (simp add: switch_hook_ready typed_cache_update typed_prev typed_cur)
qed (simp add: typed_wake)

interpretation typed: handler_invariant offcpu_step offcpu_typed
  by unfold_locales (rule typed_step)

lemma typed_init: "offcpu_typed (offcpu_init args)"
  by (simp add: offcpu_typed_def offcpu_init_def slots_ready_def cache_sized_def zero_cache_def zero_record_def
      TASK_COMM_LEN_def)
    (simp_all add: hash_empty_def)

section \<open>Properties\<close>

text \<open>Whatever offcpu hands to the Go side in a run decodes exactly: every record in the perf buffer,
  also with bytes behind it, and the saved ring of a processor, of which \<open>schedCacheDump\<close> reports
  every tenth record as the kernel stored it.\<close>

theorem wire_offcpu_records_decode:
  assumes "s = run offcpu_step es (offcpu_init args)"
  shows "(pe \<in> set (offcpu_state.perf_out s) \<longrightarrow>
      binary_read OffCpuEvent (c_struct 0 (perf_event_fields pe) @ rest) = Some (map snd (perf_event_fields pe))) \<and>
    (bpf_map_lookup_elem (sched_cache_backup_map s) cpu = Some c \<longrightarrow>
      schedCacheDump (Some (c_struct 0 (sched_cached_fields c))) =
        map (\<lambda>i. (i, map snd (sched_record_fields (sc_records c ! i)))) (dump_indices 0))"
proof -
  have typed: "offcpu_typed s" unfolding assms by (rule typed.run_inv [OF typed_init])
  have "binary_read OffCpuEvent (c_struct 0 (perf_event_fields pe) @ rest) = Some (map snd (perf_event_fields pe))"
    if "pe \<in> set (offcpu_state.perf_out s)"
  proof -
    have "pe_sized pe" using typed that by (simp add: offcpu_typed_def)
    then show ?thesis
      using perf_event_packed [of pe] binary_read_no_padding [of 0 "perf_event_fields pe" rest]
      by (simp add: pe_sized_def te_sized_def)
  qed
  moreover have "cache_sized c" if "bpf_map_lookup_elem (sched_cache_backup_map s) cpu = Some c"
    using typed that by (simp add: offcpu_typed_def)
  ultimately show ?thesis using schedCacheDump_decodes by blast
qed

theorem wire_offcpu_records_decode_witness:
  "\<exists>pe. pe \<in> set sample_out \<and>
     binary_read OffCpuEvent (c_struct 0 (perf_event_fields pe) @ [0, 0]) = Some (map snd (perf_event_fields pe))"
proof -
  obtain pe where "pe \<in> set sample_out" using sample_out_one by (metis list.set_intros(1))
  with wire_offcpu_records_decode [OF refl, of pe "sample_sleep 1000000 0 5000000" Offcpu.sample_args "[0, 0]"]
  show ?thesis by (auto simp: sample_out_def)
qed

end
