(* ===== verification/Btf.thy ===== *)
theory Btf
  imports Prelude
begin

text \<open>
  The inline helpers of \<open>btf.h\<close> over type records. The macros that take the info word and the member
  offset apart are in a kernel header outside the repository, so they are a record of functions here.
  The words behind a type record in memory, which \<open>t + 1\<close> points to, are a list.
\<close>

section \<open>Type records\<close>

definition BTF_KIND_UNKN :: u16 where "BTF_KIND_UNKN = 0"
definition BTF_KIND_INT :: u16 where "BTF_KIND_INT = 1"
definition BTF_KIND_PTR :: u16 where "BTF_KIND_PTR = 2"
definition BTF_KIND_ARRAY :: u16 where "BTF_KIND_ARRAY = 3"
definition BTF_KIND_STRUCT :: u16 where "BTF_KIND_STRUCT = 4"
definition BTF_KIND_UNION :: u16 where "BTF_KIND_UNION = 5"
definition BTF_KIND_ENUM :: u16 where "BTF_KIND_ENUM = 6"
definition BTF_KIND_FWD :: u16 where "BTF_KIND_FWD = 7"
definition BTF_KIND_TYPEDEF :: u16 where "BTF_KIND_TYPEDEF = 8"
definition BTF_KIND_VOLATILE :: u16 where "BTF_KIND_VOLATILE = 9"
definition BTF_KIND_CONST :: u16 where "BTF_KIND_CONST = 10"
definition BTF_KIND_RESTRICT :: u16 where "BTF_KIND_RESTRICT = 11"
definition BTF_KIND_FUNC :: u16 where "BTF_KIND_FUNC = 12"
definition BTF_KIND_FUNC_PROTO :: u16 where "BTF_KIND_FUNC_PROTO = 13"
definition BTF_KIND_VAR :: u16 where "BTF_KIND_VAR = 14"
definition BTF_KIND_DATASEC :: u16 where "BTF_KIND_DATASEC = 15"
definition BTF_KIND_FLOAT :: u16 where "BTF_KIND_FLOAT = 16"
definition BTF_KIND_DECL_TAG :: u16 where "BTF_KIND_DECL_TAG = 17"
definition BTF_KIND_TYPE_TAG :: u16 where "BTF_KIND_TYPE_TAG = 18"
definition BTF_KIND_ENUM64 :: u16 where "BTF_KIND_ENUM64 = 19"

lemmas kind_defs = BTF_KIND_UNKN_def BTF_KIND_INT_def BTF_KIND_PTR_def BTF_KIND_ARRAY_def BTF_KIND_STRUCT_def
  BTF_KIND_UNION_def BTF_KIND_ENUM_def BTF_KIND_FWD_def BTF_KIND_TYPEDEF_def BTF_KIND_VOLATILE_def
  BTF_KIND_CONST_def BTF_KIND_RESTRICT_def BTF_KIND_FUNC_def BTF_KIND_FUNC_PROTO_def BTF_KIND_VAR_def
  BTF_KIND_DATASEC_def BTF_KIND_FLOAT_def BTF_KIND_DECL_TAG_def BTF_KIND_TYPE_TAG_def BTF_KIND_ENUM64_def

record btf_type =
  name_off :: u32
  info :: u32
  size_or_type :: u32
  behind :: "u32 list"

record btf_uapi =
  BTF_INFO_KIND :: "u32 \<Rightarrow> u32"
  BTF_INFO_VLEN :: "u32 \<Rightarrow> u32"
  BTF_INFO_KFLAG :: "u32 \<Rightarrow> u32"
  BTF_INT_ENCODING :: "u32 \<Rightarrow> u32"
  BTF_INT_OFFSET :: "u32 \<Rightarrow> u32"
  BTF_INT_BITS :: "u32 \<Rightarrow> u32"
  BTF_MEMBER_BIT_OFFSET :: "u32 \<Rightarrow> u32"
  BTF_MEMBER_BITFIELD_SIZE :: "u32 \<Rightarrow> u32"

definition btf_kind :: "btf_uapi \<Rightarrow> btf_type \<Rightarrow> u16" where
  "btf_kind u t = ucast (BTF_INFO_KIND u (info t))"

definition btf_vlen :: "btf_uapi \<Rightarrow> btf_type \<Rightarrow> u16" where
  "btf_vlen u t = ucast (BTF_INFO_VLEN u (info t))"

definition btf_kflag :: "btf_uapi \<Rightarrow> btf_type \<Rightarrow> bool" where
  "btf_kflag u t \<longleftrightarrow> BTF_INFO_KFLAG u (info t) \<noteq> 0"

section \<open>Kinds\<close>

definition btf_is_void :: "btf_uapi \<Rightarrow> btf_type \<Rightarrow> bool" where "btf_is_void u t \<longleftrightarrow> btf_kind u t = BTF_KIND_UNKN"
definition btf_is_int :: "btf_uapi \<Rightarrow> btf_type \<Rightarrow> bool" where "btf_is_int u t \<longleftrightarrow> btf_kind u t = BTF_KIND_INT"
definition btf_is_ptr :: "btf_uapi \<Rightarrow> btf_type \<Rightarrow> bool" where "btf_is_ptr u t \<longleftrightarrow> btf_kind u t = BTF_KIND_PTR"
definition btf_is_array :: "btf_uapi \<Rightarrow> btf_type \<Rightarrow> bool" where "btf_is_array u t \<longleftrightarrow> btf_kind u t = BTF_KIND_ARRAY"
definition btf_is_struct :: "btf_uapi \<Rightarrow> btf_type \<Rightarrow> bool" where "btf_is_struct u t \<longleftrightarrow> btf_kind u t = BTF_KIND_STRUCT"
definition btf_is_union :: "btf_uapi \<Rightarrow> btf_type \<Rightarrow> bool" where "btf_is_union u t \<longleftrightarrow> btf_kind u t = BTF_KIND_UNION"

definition btf_is_composite :: "btf_uapi \<Rightarrow> btf_type \<Rightarrow> bool" where
  "btf_is_composite u t \<longleftrightarrow> (let kind = btf_kind u t in kind = BTF_KIND_STRUCT \<or> kind = BTF_KIND_UNION)"

definition btf_is_enum :: "btf_uapi \<Rightarrow> btf_type \<Rightarrow> bool" where "btf_is_enum u t \<longleftrightarrow> btf_kind u t = BTF_KIND_ENUM"
definition btf_is_enum64 :: "btf_uapi \<Rightarrow> btf_type \<Rightarrow> bool" where "btf_is_enum64 u t \<longleftrightarrow> btf_kind u t = BTF_KIND_ENUM64"
definition btf_is_fwd :: "btf_uapi \<Rightarrow> btf_type \<Rightarrow> bool" where "btf_is_fwd u t \<longleftrightarrow> btf_kind u t = BTF_KIND_FWD"
definition btf_is_typedef :: "btf_uapi \<Rightarrow> btf_type \<Rightarrow> bool" where "btf_is_typedef u t \<longleftrightarrow> btf_kind u t = BTF_KIND_TYPEDEF"
definition btf_is_volatile :: "btf_uapi \<Rightarrow> btf_type \<Rightarrow> bool" where "btf_is_volatile u t \<longleftrightarrow> btf_kind u t = BTF_KIND_VOLATILE"
definition btf_is_const :: "btf_uapi \<Rightarrow> btf_type \<Rightarrow> bool" where "btf_is_const u t \<longleftrightarrow> btf_kind u t = BTF_KIND_CONST"
definition btf_is_restrict :: "btf_uapi \<Rightarrow> btf_type \<Rightarrow> bool" where "btf_is_restrict u t \<longleftrightarrow> btf_kind u t = BTF_KIND_RESTRICT"

definition btf_is_mod :: "btf_uapi \<Rightarrow> btf_type \<Rightarrow> bool" where
  "btf_is_mod u t \<longleftrightarrow> (let kind = btf_kind u t in kind = BTF_KIND_VOLATILE \<or> kind = BTF_KIND_CONST \<or>
     kind = BTF_KIND_RESTRICT \<or> kind = BTF_KIND_TYPE_TAG)"

definition btf_is_func :: "btf_uapi \<Rightarrow> btf_type \<Rightarrow> bool" where "btf_is_func u t \<longleftrightarrow> btf_kind u t = BTF_KIND_FUNC"
definition btf_is_func_proto :: "btf_uapi \<Rightarrow> btf_type \<Rightarrow> bool" where "btf_is_func_proto u t \<longleftrightarrow> btf_kind u t = BTF_KIND_FUNC_PROTO"
definition btf_is_var :: "btf_uapi \<Rightarrow> btf_type \<Rightarrow> bool" where "btf_is_var u t \<longleftrightarrow> btf_kind u t = BTF_KIND_VAR"
definition btf_is_datasec :: "btf_uapi \<Rightarrow> btf_type \<Rightarrow> bool" where "btf_is_datasec u t \<longleftrightarrow> btf_kind u t = BTF_KIND_DATASEC"
definition btf_is_float :: "btf_uapi \<Rightarrow> btf_type \<Rightarrow> bool" where "btf_is_float u t \<longleftrightarrow> btf_kind u t = BTF_KIND_FLOAT"
definition btf_is_decl_tag :: "btf_uapi \<Rightarrow> btf_type \<Rightarrow> bool" where "btf_is_decl_tag u t \<longleftrightarrow> btf_kind u t = BTF_KIND_DECL_TAG"
definition btf_is_type_tag :: "btf_uapi \<Rightarrow> btf_type \<Rightarrow> bool" where "btf_is_type_tag u t \<longleftrightarrow> btf_kind u t = BTF_KIND_TYPE_TAG"

definition btf_is_any_enum :: "btf_uapi \<Rightarrow> btf_type \<Rightarrow> bool" where
  "btf_is_any_enum u t \<longleftrightarrow> btf_is_enum u t \<or> btf_is_enum64 u t"

definition btf_kind_core_compat :: "btf_uapi \<Rightarrow> btf_type \<Rightarrow> btf_type \<Rightarrow> bool" where
  "btf_kind_core_compat u t1 t2 \<longleftrightarrow> btf_kind u t1 = btf_kind u t2 \<or>
     (btf_is_any_enum u t1 \<and> btf_is_any_enum u t2)"

lemmas is_defs = btf_is_void_def btf_is_int_def btf_is_ptr_def btf_is_array_def btf_is_struct_def btf_is_union_def
  btf_is_composite_def btf_is_enum_def btf_is_enum64_def btf_is_fwd_def btf_is_typedef_def btf_is_volatile_def
  btf_is_const_def btf_is_restrict_def btf_is_mod_def btf_is_func_def btf_is_func_proto_def btf_is_var_def
  btf_is_datasec_def btf_is_float_def btf_is_decl_tag_def btf_is_type_tag_def btf_is_any_enum_def

section \<open>What stands behind a type record\<close>

text \<open>A word behind the record; reading past the end has no value.\<close>

definition word_behind :: "btf_type \<Rightarrow> nat \<Rightarrow> u32 option" where
  "word_behind t i = (if i < length (behind t) then Some (behind t ! i) else None)"

definition btf_int_encoding :: "btf_uapi \<Rightarrow> btf_type \<Rightarrow> u8 option" where
  "btf_int_encoding u t = map_option (\<lambda>w. ucast (BTF_INT_ENCODING u w)) (word_behind t 0)"

definition btf_int_offset :: "btf_uapi \<Rightarrow> btf_type \<Rightarrow> u8 option" where
  "btf_int_offset u t = map_option (\<lambda>w. ucast (BTF_INT_OFFSET u w)) (word_behind t 0)"

definition btf_int_bits :: "btf_uapi \<Rightarrow> btf_type \<Rightarrow> u8 option" where
  "btf_int_bits u t = map_option (\<lambda>w. ucast (BTF_INT_BITS u w)) (word_behind t 0)"

text \<open>The value of a \<open>struct btf_enum64\<close>, its three words in order.\<close>

fun btf_enum64_value :: "u32 \<times> u32 \<times> u32 \<Rightarrow> u64" where
  "btf_enum64_value (name, lo32, hi32) = push_bit 32 (ucast hi32) OR ucast lo32"

text \<open>A member is three words, of which the third is its offset.\<close>

definition member_offset :: "btf_type \<Rightarrow> u32 \<Rightarrow> u32 option" where
  "member_offset t member_idx = word_behind t (3 * unat member_idx + 2)"

definition btf_member_bit_offset :: "btf_uapi \<Rightarrow> btf_type \<Rightarrow> u32 \<Rightarrow> u32 option" where
  "btf_member_bit_offset u t member_idx =
     map_option (\<lambda>off. if btf_kflag u t then BTF_MEMBER_BIT_OFFSET u off else off) (member_offset t member_idx)"

definition btf_member_bitfield_size :: "btf_uapi \<Rightarrow> btf_type \<Rightarrow> u32 \<Rightarrow> u32 option" where
  "btf_member_bitfield_size u t member_idx =
     map_option (\<lambda>off. if btf_kflag u t then BTF_MEMBER_BITFIELD_SIZE u off else 0) (member_offset t member_idx)"

section \<open>Lemmas\<close>

lemma enum64_round_trip: "btf_enum64_value (n, ucast v, ucast (drop_bit 32 v)) = v"
  by (rule bit_word_eqI) (auto simp: bit_simps)

lemma core_compat_equivalence:
  "btf_kind_core_compat u t t"
  "btf_kind_core_compat u t1 t2 = btf_kind_core_compat u t2 t1"
  "btf_kind_core_compat u t1 t2 \<Longrightarrow> btf_kind_core_compat u t2 t3 \<Longrightarrow> btf_kind_core_compat u t1 t3"
  by (auto simp: btf_kind_core_compat_def is_defs)

text \<open>The kind tests, one for each of the twenty kinds.\<close>

definition kind_tests :: "btf_uapi \<Rightarrow> btf_type \<Rightarrow> bool list" where
  "kind_tests u t = map (\<lambda>p. p u t) [btf_is_void, btf_is_int, btf_is_ptr, btf_is_array, btf_is_struct, btf_is_union,
     btf_is_enum, btf_is_fwd, btf_is_typedef, btf_is_volatile, btf_is_const, btf_is_restrict, btf_is_func,
     btf_is_func_proto, btf_is_var, btf_is_datasec, btf_is_float, btf_is_decl_tag, btf_is_type_tag, btf_is_enum64]"

lemma kind_tests_eq: "kind_tests u t = map (\<lambda>k. btf_kind u t = of_nat k) [0..<20]"
  by (simp add: kind_tests_def is_defs kind_defs upt_rec)

text \<open>A list of members behind a struct, as an encoder writes them: with the flag set, the size of a
  bitfield in the upper 8 bits and its offset in the lower 24.\<close>

definition encode_member :: "bool \<Rightarrow> u32 \<times> u32 \<times> u32 \<times> u32 \<Rightarrow> u32 list" where
  "encode_member kflag m = (case m of (name, ty, off, sz) \<Rightarrow>
     [name, ty, if kflag then push_bit 24 sz OR off else off])"

lemma nth_concat_threes:
  assumes "\<And>x. length (f x) = 3" and "i < length xs" and "j < 3"
  shows "concat (map f xs) ! (3 * i + j) = f (xs ! i) ! j"
  using assms(2)
proof (induction xs arbitrary: i)
  case Nil
  then show ?case by simp
next
  case (Cons x xs)
  then show ?case using assms(1,3) by (cases i) (auto simp: nth_append)
qed

lemma length_concat_threes: "(\<And>x. length (f x) = 3) \<Longrightarrow> length (concat (map f xs)) = 3 * length xs"
  by (induction xs) auto

text \<open>An offset of 24 bits and a size of 8 in one word.\<close>

lemma pack_member:
  fixes off sz :: u32
  assumes "off < 2 ^ 24" and "sz < 2 ^ 8"
  shows "(push_bit 24 sz OR off) AND 0xFFFFFF = off \<and> drop_bit 24 (push_bit 24 sz OR off) = sz"
proof -
  have "take_bit 24 off = off" "take_bit 8 sz = sz"
    using assms by (metis less_mask_eq take_bit_eq_mask)+
  then have off: "bit off n \<Longrightarrow> n < 24" and sz: "bit sz n \<Longrightarrow> n < 8" for n
    by (metis bit_take_bit_iff)+
  have mask: "(0xFFFFFF :: u32) = mask 24" by (simp add: mask_eq_exp_minus_1)
  have "(push_bit 24 sz OR off) AND 0xFFFFFF = off"
    unfolding mask by (auto intro!: bit_word_eqI simp: bit_simps dest: off)
  moreover have "drop_bit 24 (push_bit 24 sz OR off) = sz"
    by (rule bit_word_eqI) (auto simp: bit_simps dest: off sz)
  ultimately show ?thesis ..
qed

lemma length_encode_member [simp]: "length (encode_member kflag m) = 3"
  by (simp add: encode_member_def split: prod.split)

text \<open>Exactly one test holds for a kind the header knows.\<close>

lemma one_kind_test:
  assumes "btf_kind u t \<le> BTF_KIND_ENUM64"
  shows "length (filter id (kind_tests u t)) = 1"
proof -
  have k: "unat (btf_kind u t) < 20" using assms by (simp add: BTF_KIND_ENUM64_def word_le_nat_alt)
  have "filter id (kind_tests u t) = map (\<lambda>k. btf_kind u t = of_nat k) (filter (\<lambda>k. btf_kind u t = of_nat k) [0..<20])"
    by (simp add: kind_tests_eq filter_map comp_def)
  also have "filter (\<lambda>k. btf_kind u t = of_nat k) [0..<20] = filter (\<lambda>k. k = unat (btf_kind u t)) [0..<20]"
    by (rule filter_cong) (auto simp: word_unat_eq_iff unat_of_nat)
  also have "\<dots> = [unat (btf_kind u t)]" using k by (auto simp: upt_rec numeral_eq_Suc less_Suc_eq)
  finally show ?thesis by (simp add: id_def)
qed

section \<open>Properties\<close>

text \<open>The member accessors read back what an encoder wrote behind a struct: with the flag set the
  offset and the bitfield size that share a word, without it a plain offset and no bitfield. The
  kernel's two macros are the low 24 bits and the high 8.\<close>

theorem btf_members_decode:
  assumes "BTF_MEMBER_BIT_OFFSET u = (\<lambda>x. x AND 0xFFFFFF)" and "BTF_MEMBER_BITFIELD_SIZE u = drop_bit 24"
    and "behind t = concat (map (encode_member (btf_kflag u t)) ms) @ rest"
    and "unat i < length ms" and "ms ! unat i = (name, ty, off, sz)"
    and "btf_kflag u t \<longrightarrow> off < 2 ^ 24 \<and> sz < 2 ^ 8"
  shows "btf_member_bit_offset u t i = Some off \<and>
    btf_member_bitfield_size u t i = Some (if btf_kflag u t then sz else 0)"
proof -
  let ?ws = "concat (map (encode_member (btf_kflag u t)) ms)"
  have len: "length ?ws = 3 * length ms" by (rule length_concat_threes) simp
  have "member_offset t i = Some (?ws ! (3 * unat i + 2))"
    using assms(3,4) len by (simp add: member_offset_def word_behind_def nth_append)
  also have "?ws ! (3 * unat i + 2) = encode_member (btf_kflag u t) (ms ! unat i) ! 2"
    by (rule nth_concat_threes) (use assms(4) in simp_all)
  finally have off: "member_offset t i = Some (if btf_kflag u t then push_bit 24 sz OR off else off)"
    using assms(5) by (simp add: encode_member_def)
  have "(push_bit 24 sz OR off) AND 0xFFFFFF = off \<and> drop_bit 24 (push_bit 24 sz OR off) = sz"
    if "off < 2 ^ 24" "sz < 2 ^ 8" using that by (rule pack_member)
  then show ?thesis
    using off assms(1,2,6) by (simp add: btf_member_bit_offset_def btf_member_bitfield_size_def)
qed

definition sample_uapi :: btf_uapi where
  "sample_uapi = \<lparr>BTF_INFO_KIND = (\<lambda>x. drop_bit 24 x AND 31), BTF_INFO_VLEN = (\<lambda>x. x AND 0xFFFF),
     BTF_INFO_KFLAG = drop_bit 31, BTF_INT_ENCODING = id, BTF_INT_OFFSET = id, BTF_INT_BITS = id,
     BTF_MEMBER_BIT_OFFSET = (\<lambda>x. x AND 0xFFFFFF), BTF_MEMBER_BITFIELD_SIZE = drop_bit 24\<rparr>"

theorem btf_members_decode_witness:
  "btf_member_bit_offset sample_uapi \<lparr>name_off = 0, info = 0x84000001, size_or_type = 4,
     behind = [1, 2, push_bit 24 3 OR 5]\<rparr> 0 = Some 5"
proof -
  let ?t = "\<lparr>name_off = 0, info = 0x84000001, size_or_type = 4, behind = [1, 2, push_bit 24 3 OR 5]\<rparr>"
  have flag: "btf_kflag sample_uapi ?t"
    by (simp add: btf_kflag_def sample_uapi_def drop_bit_eq_div)
  then have "behind ?t = concat (map (encode_member (btf_kflag sample_uapi ?t)) [(1, 2, 5, 3)]) @ []"
    by (simp add: encode_member_def)
  from btf_members_decode [OF _ _ this, of 0 1 2 5 3] flag show ?thesis by (simp add: sample_uapi_def)
qed

end
