(* ===== verification/Skel_Data.thy ===== *)
theory Skel_Data
  imports Skel
begin

text \<open>
  The memory of a light skeleton, \<open>skel_internal.h\<close> lines 81 to 205: the structure itself and the data
  of its maps, in the kernel (names with \<open>kern_\<close>) and in user space (names with \<open>user_\<close>). The
  allocators are outside the repository: the address they return is an argument, zero or \<open>~0\<close> for a
  failure. An operation that would be undefined in C (a copy out of a block, a second free) has no
  value. The lemmas show that the data of a map is released exactly once, whether or not it was
  handed over to the map.
\<close>

section \<open>Blocks of a heap\<close>

type_synonym heap_blocks = "u64 \<rightharpoonup> bytes"

text \<open>\<open>kzalloc\<close>, \<open>calloc\<close> and \<open>kvmalloc\<close>: a block with the given contents at the address the allocator
  returns.\<close>

definition alloc :: "u64 \<Rightarrow> bytes \<Rightarrow> heap_blocks \<Rightarrow> heap_blocks" where
  "alloc a contents h = (if a = 0 then h else h(a \<mapsto> contents))"

text \<open>\<open>kfree\<close>, \<open>kvfree\<close> and \<open>free\<close>: a null pointer is accepted, any other must be a live block.\<close>

definition free_block :: "u64 \<Rightarrow> heap_blocks \<Rightarrow> heap_blocks option" where
  "free_block p h = (if p = 0 then Some h else if h p = None then None else Some (h(p := None)))"

definition memcpy_block :: "u64 \<Rightarrow> bytes \<Rightarrow> nat \<Rightarrow> heap_blocks \<Rightarrow> heap_blocks option" where
  "memcpy_block a src n h = (case h a of None \<Rightarrow> None
     | Some b \<Rightarrow> if n \<le> length b \<and> n \<le> length src then Some (h(a \<mapsto> take n src @ drop n b)) else None)"

section \<open>In the kernel\<close>

definition BPF_SKEL_KERNEL :: u8 where "BPF_SKEL_KERNEL = 1"

text \<open>The structure starts with a \<open>bpf_loader_ctx\<close>, whose \<open>flags\<close> are the bytes 4 to 7 (least
  significant first).\<close>

definition kern_skel_alloc :: "u64 \<Rightarrow> nat \<Rightarrow> heap_blocks \<Rightarrow> (u64 \<times> heap_blocks) option" where
  "kern_skel_alloc a sz h =
     (let h1 = alloc a (replicate sz 0) h
      in if a = 0 then Some (0, h1)
      else case h1 a of None \<Rightarrow> None
        | Some ctx \<Rightarrow> if 8 \<le> length ctx then Some (a, h1(a \<mapsto> ctx[4 := ctx ! 4 OR BPF_SKEL_KERNEL])) else None)"

definition kern_skel_free :: "u64 \<Rightarrow> heap_blocks \<Rightarrow> heap_blocks option" where
  "kern_skel_free p h = free_block p h"

definition kern_skel_free_map_data :: "u64 \<Rightarrow> u64 \<Rightarrow> nat \<Rightarrow> heap_blocks \<Rightarrow> heap_blocks option" where
  "kern_skel_free_map_data p addr sz h = (if addr \<noteq> - 1 then free_block p h else Some h)"

text \<open>\<open>junk\<close> is what the fresh block holds.\<close>

definition kern_skel_prep_map_data ::
    "u64 \<Rightarrow> (nat \<Rightarrow> u8) \<Rightarrow> bytes \<Rightarrow> nat \<Rightarrow> nat \<Rightarrow> heap_blocks \<Rightarrow> (u64 \<times> heap_blocks) option" where
  "kern_skel_prep_map_data a junk val mmap_sz val_sz h =
     (let addr = a; h1 = alloc a (map junk [0..<val_sz]) h
      in if addr = 0 then Some (0, h1) else map_option (Pair addr) (memcpy_block addr val val_sz h1))"

record bpf_map_obj =
  map_type :: u32
  array_value :: u64

text \<open>The map behind the descriptor (none for an error pointer) is an argument. The result is the
  address, the new \<open>*init_val\<close>, the blocks, and the references taken and dropped.\<close>

definition kern_skel_finalize_map_data ::
    "bpf_map_obj option \<Rightarrow> u64 \<Rightarrow> nat \<Rightarrow> int \<Rightarrow> int \<Rightarrow> heap_blocks \<Rightarrow> (u64 \<times> u64 \<times> heap_blocks \<times> nat \<times> nat) option" where
  "kern_skel_finalize_map_data found init_val mmap_sz flags fd h =
     (case free_block init_val h of None \<Rightarrow> None
      | Some h1 \<Rightarrow> (case found of None \<Rightarrow> Some (0, - 1, h1, 0, 0)
        | Some m \<Rightarrow>
            let addr = (if map_type m \<noteq> BPF_MAP_TYPE_ARRAY then 0 else array_value m)
            in Some (addr, - 1, h1, 1, 1)))"

section \<open>In user space\<close>

definition user_skel_alloc :: "u64 \<Rightarrow> nat \<Rightarrow> heap_blocks \<Rightarrow> u64 \<times> heap_blocks" where
  "user_skel_alloc a sz h = (a, alloc a (replicate sz 0) h)"

definition user_skel_free :: "u64 \<Rightarrow> heap_blocks \<Rightarrow> heap_blocks option" where
  "user_skel_free p h = free_block p h"

text \<open>The address space by byte: private memory or a byte of the value of a map.\<close>

datatype cell = Anon u8 | Map_byte int nat

type_synonym addr_space = "nat \<rightharpoonup> cell"

definition page_size :: nat where "page_size = 4096"

definition span :: "u64 \<Rightarrow> nat \<Rightarrow> nat \<Rightarrow> bool" where
  "span a sz x \<longleftrightarrow> unat a \<le> x \<and> x < unat a + (sz + page_size - 1) div page_size * page_size"

definition mmap_cells :: "u64 \<Rightarrow> nat \<Rightarrow> (nat \<Rightarrow> cell) \<Rightarrow> addr_space \<Rightarrow> addr_space" where
  "mmap_cells a sz c as = (\<lambda>x. if span a sz x then Some (c (x - unat a)) else as x)"

definition munmap :: "u64 \<Rightarrow> nat \<Rightarrow> addr_space \<Rightarrow> addr_space" where
  "munmap p sz as =
     (if unat p mod page_size = 0 \<and> 0 < sz then (\<lambda>x. if span p sz x then None else as x) else as)"

definition memcpy_cells :: "u64 \<Rightarrow> bytes \<Rightarrow> nat \<Rightarrow> addr_space \<Rightarrow> addr_space option" where
  "memcpy_cells a src n as =
     (if n \<le> length src \<and> list_all (\<lambda>i. as (unat a + i) \<noteq> None) [0..<n]
      then Some (\<lambda>x. if unat a \<le> x \<and> x < unat a + n then Some (Anon (src ! (x - unat a))) else as x)
      else None)"

definition user_skel_free_map_data :: "u64 \<Rightarrow> u64 \<Rightarrow> nat \<Rightarrow> addr_space \<Rightarrow> addr_space" where
  "user_skel_free_map_data p addr sz as = munmap p sz as"

definition user_skel_prep_map_data ::
    "u64 \<Rightarrow> bytes \<Rightarrow> nat \<Rightarrow> nat \<Rightarrow> addr_space \<Rightarrow> (u64 \<times> addr_space) option" where
  "user_skel_prep_map_data a val mmap_sz val_sz as =
     (if a = - 1 then Some (0, as)
      else map_option (Pair a) (memcpy_cells a val val_sz (mmap_cells a mmap_sz (\<lambda>_. Anon 0) as)))"

text \<open>A fixed mapping replaces what was there. When it is refused some of the old mapping may be gone:
  \<open>kept\<close> says which bytes of it are left.\<close>

definition user_skel_finalize_map_data ::
    "bool \<Rightarrow> (nat \<Rightarrow> bool) \<Rightarrow> u64 \<Rightarrow> nat \<Rightarrow> int \<Rightarrow> int \<Rightarrow> addr_space \<Rightarrow> u64 \<times> addr_space" where
  "user_skel_finalize_map_data granted kept init_val mmap_sz flags fd as =
     (if granted then (init_val, mmap_cells init_val mmap_sz (Map_byte fd) as)
      else (0, \<lambda>x. if span init_val mmap_sz x \<and> \<not> kept x then None else as x))"

section \<open>Lemmas\<close>

lemma free_alloc: "h a = None \<Longrightarrow> free_block a (alloc a b h) = Some h"
  by (auto simp: free_block_def alloc_def)

lemma memcpy_alloc:
  assumes "a \<noteq> 0" and "n \<le> length src" and "length b = n"
  shows "memcpy_block a src n (alloc a b h) = Some (alloc a (take n src) h)"
  using assms by (simp add: memcpy_block_def alloc_def)

text \<open>The structure of a skeleton is released as a whole, and in the kernel its flags say so.\<close>

lemma skel_struct_released:
  assumes "h a = None" and "8 \<le> sz"
  shows "\<exists>h1. kern_skel_alloc a sz h = Some (a, h1) \<and> kern_skel_free a h1 = Some h"
    and "user_skel_free a (snd (user_skel_alloc a sz h)) = Some h"
  using assms
  by (auto simp: kern_skel_alloc_def kern_skel_free_def user_skel_free_def user_skel_alloc_def alloc_def
      free_block_def)

lemma kern_prep:
  assumes "val_sz \<le> length val"
  shows "kern_skel_prep_map_data a junk val mmap_sz val_sz h = Some (a, alloc a (take val_sz val) h)"
  using assms by (cases "a = 0") (simp_all add: kern_skel_prep_map_data_def memcpy_alloc alloc_def [of 0])

lemma span_start: "unat a \<le> x \<Longrightarrow> x < unat a + sz \<Longrightarrow> span a sz x"
  by (auto simp: span_def page_size_def)

lemma munmap_mmap:
  assumes "unat a mod page_size = 0" and "0 < sz" and "\<And>x. span a sz x \<Longrightarrow> as x = None"
    and "\<And>x. \<not> span a sz x \<Longrightarrow> as' x = as x"
  shows "munmap a sz as' = as"
  using assms by (auto simp: munmap_def)

text \<open>In user space: the data are copied to fresh pages, and both before and after the value of the
  map is laid over them one unmapping gives the old address space back.\<close>

lemma user_data_released:
  assumes page: "unat a mod page_size = 0" "a \<noteq> - 1" and fresh: "\<And>x. span a mmap_sz x \<Longrightarrow> as x = None"
    and sz: "val_sz \<le> mmap_sz" "val_sz \<le> length val" "0 < mmap_sz"
  obtains as1 where "user_skel_prep_map_data a val mmap_sz val_sz as = Some (a, as1)"
    and "\<And>i. i < val_sz \<Longrightarrow> as1 (unat a + i) = Some (Anon (val ! i))"
    and "user_skel_free_map_data a addr mmap_sz as1 = as"
    and "user_skel_free_map_data (fst (user_skel_finalize_map_data True kept a mmap_sz flags fd as1)) addr mmap_sz
      (snd (user_skel_finalize_map_data True kept a mmap_sz flags fd as1)) = as"
proof -
  let ?as = "mmap_cells a mmap_sz (\<lambda>_. Anon 0) as"
  let ?as1 = "\<lambda>x. if unat a \<le> x \<and> x < unat a + val_sz then Some (Anon (val ! (x - unat a))) else ?as x"
  have mapped: "list_all (\<lambda>i. ?as (unat a + i) \<noteq> None) [0..<val_sz]"
    using sz(1) by (simp add: list_all_iff mmap_cells_def span_start)
  then have prep: "user_skel_prep_map_data a val mmap_sz val_sz as = Some (a, ?as1)"
    using page(2) sz(2) by (simp add: user_skel_prep_map_data_def memcpy_cells_def)
  have outside: "?as1 x = as x" if "\<not> span a mmap_sz x" for x
    using that span_start [of a x mmap_sz] sz(1) by (auto simp: mmap_cells_def)
  show ?thesis
  proof (rule that [OF prep])
    show "?as1 (unat a + i) = Some (Anon (val ! i))" if "i < val_sz" for i using that by simp
    show "user_skel_free_map_data a addr mmap_sz ?as1 = as"
      unfolding user_skel_free_map_data_def by (rule munmap_mmap [OF page(1) sz(3) fresh outside])
    show "user_skel_free_map_data (fst (user_skel_finalize_map_data True kept a mmap_sz flags fd ?as1)) addr mmap_sz
      (snd (user_skel_finalize_map_data True kept a mmap_sz flags fd ?as1)) = as"
      unfolding user_skel_free_map_data_def user_skel_finalize_map_data_def if_True fst_conv snd_conv
      by (rule munmap_mmap [OF page(1) sz(3) fresh]) (use outside in \<open>auto simp: mmap_cells_def\<close>)
  qed
qed

section \<open>Properties\<close>

text \<open>In the kernel the data prepared for a map are released exactly once. If loading failed, freeing
  them with the stored address gives the old heap back; if it succeeded, the hand-over already did,
  and the later call, told by \<open>~0\<close>, frees nothing, whatever map the descriptor names. References
  to the map are dropped as often as taken.\<close>

theorem skel_kernel_data_released:
  assumes "h a = None" and "a \<noteq> - 1" and "val_sz \<le> length val"
  shows "\<exists>h1 v init_val h2 got put.
    kern_skel_prep_map_data a junk val mmap_sz val_sz h = Some (a, h1) \<and>
    (a \<noteq> 0 \<longrightarrow> h1 a = Some (take val_sz val)) \<and>
    kern_skel_free_map_data a a sz h1 = Some h \<and>
    kern_skel_finalize_map_data found a mmap_sz flags fd h1 = Some (v, init_val, h2, got, put) \<and>
    h2 = h \<and> got = put \<and> kern_skel_free_map_data v init_val sz h2 = Some h"
proof -
  have "free_block a (alloc a (take val_sz val) h) = Some h" using assms(1) by (rule free_alloc)
  then show ?thesis
    using assms by (auto simp: kern_prep alloc_def kern_skel_free_map_data_def kern_skel_finalize_map_data_def Let_def
        split: option.split)
qed

theorem skel_kernel_data_released_witness:
  "\<exists>h1. kern_skel_prep_map_data 4096 (\<lambda>_. 7) [1, 2, 3] 4096 2 Map.empty = Some (4096, h1) \<and>
    h1 4096 = Some [1, 2] \<and> kern_skel_free_map_data 4096 4096 2 h1 = Some Map.empty"
  using skel_kernel_data_released [of Map.empty 4096 2 "[1, 2, 3]" "\<lambda>_. 7" 4096 2 None 0 3] by auto

end
