(* ===== verification/Profile_Trie.thy ===== *)
theory Profile_Trie
  imports Prelude "HOL-Library.Sublist"
begin

text \<open>
  The trie in which the Go side adds up sampled stacks (\<open>trie.go\<close>): \<open>Insert\<close> with its search, splitting and sorted
  insertion of nodes, \<open>Iterate\<close> with its two stacks, and \<open>IsEmpty\<close>. An access that Go would answer with a
  panic is \<open>None\<close>. The trie refines a map from keys to counters.
\<close>

section \<open>Library functions\<close>

text \<open>\<open>bytes.Compare\<close> below zero, and \<open>sort.Search\<close>, a binary search.\<close>

fun bytes_less :: "bytes \<Rightarrow> bytes \<Rightarrow> bool" where
  "bytes_less xs [] \<longleftrightarrow> False"
| "bytes_less [] (y # ys) \<longleftrightarrow> True"
| "bytes_less (x # xs) (y # ys) \<longleftrightarrow> x < y \<or> x = y \<and> bytes_less xs ys"

function search_from :: "(nat \<Rightarrow> bool) \<Rightarrow> nat \<Rightarrow> nat \<Rightarrow> nat" where
  "search_from f i j =
     (if i < j
      then let h = (i + j) div 2 in if \<not> f h then search_from f (h + 1) j else search_from f i h
      else i)"
  by pat_completeness auto
termination by (relation "measure (\<lambda>(f, i, j). j - i)") auto

declare search_from.simps [simp del]

section \<open>Nodes\<close>

datatype trieNode = Node (tn_name: bytes) (tn_value: u64) (tn_children: "trieNode list")

definition newTrieNode :: "bytes \<Rightarrow> trieNode" where
  "newTrieNode name = Node name 0 []"

primrec clone :: "trieNode \<Rightarrow> trieNode" where
  "clone (Node name val children) = Node name val (map clone children)"

definition node_insert :: "trieNode list \<Rightarrow> trieNode \<Rightarrow> trieNode list" where
  "node_insert children t2 =
     (let i = search_from (\<lambda>i. \<not> bytes_less (tn_name (children ! i)) (tn_name t2)) 0 (length children)
      in take i children @ t2 # drop i children)"

text \<open>The last child whose name begins with a byte. A child without a name is a panic.\<close>

fun lead_index :: "nat \<Rightarrow> nat option \<Rightarrow> u8 \<Rightarrow> trieNode list \<Rightarrow> nat option option" where
  "lead_index k found b [] = Some found"
| "lead_index k found b (v # vs) =
     (case tn_name v of
        [] \<Rightarrow> None
      | x # _ \<Rightarrow> lead_index (Suc k) (if x = b then Some k else found) b vs)"

text \<open>The comparison of a child's name with the key: the key goes on behind the name, the two part at an
  index, or they are equal.\<close>

datatype scan = Descend | Split nat | Match

fun scan_key :: "nat \<Rightarrow> bytes \<Rightarrow> bytes \<Rightarrow> scan" where
  "scan_key i ls [] = (if ls = [] then Match else Split i)"
| "scan_key i [] (k # ks) = Descend"
| "scan_key i (l # ls) (k # ks) = (if l \<noteq> k then Split i else scan_key (Suc i) ls ks)"

lemma lead_index_found:
  "lead_index k found b cs = Some (Some j) \<Longrightarrow>
     found = Some j \<or> (k \<le> j \<and> j < k + length cs \<and> (\<exists>xs. tn_name (cs ! (j - k)) = b # xs))"
proof (induction cs arbitrary: k found)
  case (Cons c cs)
  then obtain x xs where x: "tn_name c = x # xs" by (auto split: list.splits)
  with Cons.prems have "lead_index (Suc k) (if x = b then Some k else found) b cs = Some (Some j)" by simp
  from Cons.IH [OF this] show ?case using x by (auto simp: nth_Cons' split: if_splits)
qed simp

lemma scan_key_split:
  "scan_key i ls ks = Split j \<Longrightarrow>
     \<exists>p l r. ls = p @ l \<and> ks = p @ r \<and> j = i + length p \<and> l \<noteq> [] \<and> (r = [] \<or> hd r \<noteq> hd l)"
proof (induction i ls ks rule: scan_key.induct)
  case (3 i l ls k ks)
  show ?case
  proof (cases "l = k")
    case True
    then obtain p l' r where "ls = p @ l'" "ks = p @ r" "j = Suc i + length p" "l' \<noteq> []" "r = [] \<or> hd r \<noteq> hd l'"
      using 3 by auto
    then show ?thesis using True by (intro exI [of _ "l # p"] exI [of _ l'] exI [of _ r]) auto
  next
    case False
    then show ?thesis using 3(2) by (intro exI [of _ "[]"] exI [of _ "l # ls"] exI [of _ "k # ks"]) auto
  qed
qed (auto split: if_splits)

lemma scan_key_descend: "scan_key i ls ks = Descend \<Longrightarrow> strict_prefix ls ks"
  by (induction i ls ks rule: scan_key.induct) (auto split: if_splits simp: strict_prefix_def)

lemma scan_key_match: "scan_key i ls ks = Match \<Longrightarrow> ls = ks"
  by (induction i ls ks rule: scan_key.induct) (auto split: if_splits)

text \<open>\<open>findNodeAt\<close>: the callback of both callers changes the value of the node it is given.\<close>

function findNodeAt :: "bytes \<Rightarrow> (u64 \<Rightarrow> u64) \<Rightarrow> trieNode \<Rightarrow> trieNode option" where
  "findNodeAt key fn (Node name val children) =
     (case key of
        [] \<Rightarrow> Some (Node name (fn val) children)
      | b # _ \<Rightarrow>
          (case lead_index 0 None b children of
             None \<Rightarrow> None
           | Some None \<Rightarrow>
               let newTn = newTrieNode key
               in Some (Node name val (node_insert children (Node key (fn (tn_value newTn)) [])))
           | Some (Some leadIndex) \<Rightarrow>
               let child = children ! leadIndex; leadKey = tn_name child
               in case scan_key 0 leadKey key of
                 Descend \<Rightarrow>
                   map_option (\<lambda>c. Node name val (children[leadIndex := c]))
                     (findNodeAt (drop (length leadKey) key) fn child)
               | Split i \<Rightarrow>
                   map_option (\<lambda>c. Node name val (children[leadIndex := c]))
                     (findNodeAt (drop i key) fn
                       (Node (take i leadKey) 0 [Node (drop i leadKey) (tn_value child) (tn_children child)]))
               | Match \<Rightarrow>
                   Some (Node name val
                     (children[leadIndex := Node leadKey (fn (tn_value child)) (tn_children child)]))))"
  by pat_completeness auto
termination
proof (relation "measure (\<lambda>(key, fn, n). length key)", goal_cases)
  case (2 key fn name val children b bs r k child leadKey)
  then have "leadKey \<noteq> []" using lead_index_found [of 0 None b children k] by auto
  with 2 show ?case by (cases leadKey) auto
next
  case (3 key fn name val children b bs r k child leadKey i)
  then obtain xs where "leadKey = b # xs" using lead_index_found [of 0 None b children k] by auto
  moreover obtain p l r where "leadKey = p @ l" "key = p @ r" "i = length p" "r = [] \<or> hd r \<noteq> hd l"
    using scan_key_split [OF 3(6)] by auto
  ultimately show ?case using 3(1) by (cases p) auto
qed simp

declare findNodeAt.simps [simp del]

section \<open>The trie\<close>

record Trie =
  Multiplier :: int
  Divider :: int
  root :: trieNode

definition New :: Trie where
  "New = \<lparr>Multiplier = 1, Divider = 1, root = newTrieNode []\<rparr>"

definition Clone :: "int \<Rightarrow> int \<Rightarrow> Trie \<Rightarrow> Trie" where
  "Clone m d t = t\<lparr>Multiplier := m, Divider := d\<rparr>"

definition Insert :: "bytes \<Rightarrow> u64 \<Rightarrow> bool list \<Rightarrow> Trie \<Rightarrow> Trie option" where
  "Insert key val merge t =
     (let isMerge = (merge \<noteq> [] \<and> hd merge)
      in if isMerge then map_option (\<lambda>n. t\<lparr>root := n\<rparr>) (findNodeAt key (\<lambda>v. v + val) (root t))
         else map_option (\<lambda>n. t\<lparr>root := n\<rparr>) (findNodeAt key (\<lambda>_. val) (root t)))"

text \<open>\<open>Iterate\<close>: the nodes still to visit and the prefix of each; the calls it makes are the result.\<close>

function iterate_loop :: "trieNode list \<Rightarrow> bytes list \<Rightarrow> (bytes \<times> u64) list" where
  "iterate_loop [] pres = []"
| "iterate_loop (tn # nodes) pres =
     (let name = hd pres @ tn_name tn;
          rest = iterate_loop (tn_children tn @ nodes) (replicate (length (tn_children tn)) name @ tl pres)
      in if tn_value tn > 0 then (name, tn_value tn) # rest else rest)"
  by pat_completeness auto
termination
proof (relation "measure (\<lambda>(nodes, pres). sum_list (map size nodes))", goal_cases)
  case (2 tn nodes pres)
  have "sum_list (map size cs) < size (Node n v cs)" for n v cs by (induction cs) auto
  then show ?case by (cases tn) (simp del: trieNode.size)
qed simp

definition Iterate :: "Trie \<Rightarrow> (bytes \<times> u64) list" where
  "Iterate t = iterate_loop [root t] [[]]"

definition IsEmpty :: "Trie \<Rightarrow> bool" where
  "IsEmpty t \<longleftrightarrow> length (tn_children (root t)) = 0"

section \<open>Sorted insertion\<close>

lemma search_from_bounds: "i \<le> j \<Longrightarrow> i \<le> search_from f i j \<and> search_from f i j \<le> j"
proof (induction f i j rule: search_from.induct)
  case (1 f i j)
  show ?case
  proof (cases "i < j")
    case True
    then have h: "i \<le> (i + j) div 2" "(i + j) div 2 < j" by auto
    show ?thesis
    proof (cases "f ((i + j) div 2)")
      case f: True
      then show ?thesis using "1.IH"(2) [OF True refl] h True by (subst (1 2) search_from.simps) (auto simp: Let_def)
    next
      case f: False
      then show ?thesis using "1.IH"(1) [OF True refl] h True by (subst (1 2) search_from.simps) (auto simp: Let_def)
    qed
  qed (use 1 in \<open>simp add: search_from.simps\<close>)
qed

text \<open>For a predicate that stays true once it is, the search ends at the first place where it is.\<close>

lemma search_from_least:
  assumes mono: "\<And>a b. a \<le> b \<Longrightarrow> b < n \<Longrightarrow> f a \<Longrightarrow> f b"
  shows "i \<le> j \<Longrightarrow> j \<le> n \<Longrightarrow> (\<And>k. k < i \<Longrightarrow> \<not> f k) \<Longrightarrow> (\<And>k. j \<le> k \<Longrightarrow> k < n \<Longrightarrow> f k) \<Longrightarrow>
    (\<forall>k < search_from f i j. \<not> f k) \<and> (\<forall>k. search_from f i j \<le> k \<longrightarrow> k < n \<longrightarrow> f k)"
proof (induction "j - i" arbitrary: i j rule: less_induct)
  case less
  let ?h = "(i + j) div 2"
  show ?case
  proof (cases "i < j")
    case True
    then have h: "i \<le> ?h" "?h < j" by auto
    show ?thesis
    proof (cases "f ?h")
      case f: True
      have "f k" if "?h \<le> k" "k < n" for k using mono [OF that f] .
      with less.hyps [of ?h i] less.prems h have "(\<forall>k < search_from f i ?h. \<not> f k) \<and> (\<forall>k. search_from f i ?h \<le> k \<longrightarrow> k < n \<longrightarrow> f k)"
        by simp
      then show ?thesis using True f by (simp add: search_from.simps [of f i j] Let_def)
    next
      case f: False
      have "\<not> f k" if "k < ?h + 1" for k using mono [of k ?h] that f h less.prems(2) by auto
      with less.hyps [of j "?h + 1"] less.prems h have "(\<forall>k < search_from f (?h + 1) j. \<not> f k) \<and> (\<forall>k. search_from f (?h + 1) j \<le> k \<longrightarrow> k < n \<longrightarrow> f k)"
        by auto
      then show ?thesis using True f by (simp add: search_from.simps [of f i j] Let_def)
    qed
  next
    case False
    then show ?thesis using less.prems by (simp add: search_from.simps)
  qed
qed

section \<open>Well-formed nodes\<close>

definition first :: "trieNode \<Rightarrow> u8" where "first c = hd (tn_name c)"

text \<open>Children have names, with first bytes that increase strictly.\<close>

definition ordered :: "trieNode list \<Rightarrow> bool" where
  "ordered cs \<longleftrightarrow> sorted_wrt (\<lambda>a b. first a < first b) cs \<and> (\<forall>c \<in> set cs. tn_name c \<noteq> [])"

fun wf_node :: "trieNode \<Rightarrow> bool" where
  "wf_node (Node name val cs) \<longleftrightarrow> ordered cs \<and> (\<forall>c \<in> set cs. wf_node c)"

lemma wf_rename: "wf_node (Node nm v (tn_children c)) = wf_node c"
  by (cases c) simp

lemma ordered_distinct_first: "ordered cs \<Longrightarrow> distinct (map first cs)"
  using strict_sorted_iff [of "map first cs"] by (simp add: ordered_def sorted_wrt_map)

lemma ordered_first_inj: "ordered cs \<Longrightarrow> c \<in> set cs \<Longrightarrow> d \<in> set cs \<Longrightarrow> first c = first d \<Longrightarrow> c = d"
  using ordered_distinct_first by (auto simp: distinct_map dest: inj_onD)

lemma ordered_distinct: "ordered cs \<Longrightarrow> distinct cs"
  using ordered_distinct_first distinct_map by blast

lemma ordered_update:
  assumes "ordered cs" and "k < length cs" and "first c = first (cs ! k)" and "tn_name c \<noteq> []"
  shows "ordered (cs[k := c])"
  using assms set_update_subset_insert [of cs k c]
  by (auto simp: ordered_def sorted_wrt_iff_nth_less nth_list_update)

lemma first_decides:
  assumes "tn_name c \<noteq> []" and "key \<noteq> []" and "first c \<noteq> hd key"
  shows "bytes_less (tn_name c) key \<longleftrightarrow> first c < hd key"
  using assms by (cases "tn_name c"; cases key) (auto simp: first_def)

text \<open>A new first byte goes between the smaller and the larger ones.\<close>

lemma node_insert_ordered:
  assumes cs: "ordered cs" and new: "tn_name c \<noteq> []" "first c \<notin> first ` set cs"
  shows "ordered (node_insert cs c)" and "set (node_insert cs c) = insert c (set cs)"
proof -
  let ?f = "\<lambda>i. \<not> bytes_less (tn_name (cs ! i)) (tn_name c)"
  define i where "i = search_from ?f 0 (length cs)"
  have less: "bytes_less (tn_name (cs ! k)) (tn_name c) \<longleftrightarrow> first (cs ! k) < first c" if "k < length cs" for k
  proof -
    have "cs ! k \<in> set cs" using that by simp
    then have "first (cs ! k) \<noteq> first c" using new(2) by (metis imageI)
    moreover have "tn_name (cs ! k) \<noteq> []" using that cs by (simp add: ordered_def)
    ultimately show ?thesis using first_decides [of "cs ! k" "tn_name c"] new(1) by (simp add: first_def [of c])
  qed
  have lt: "first (cs ! a) < first (cs ! b)" if "a < b" "b < length cs" for a b
    using that cs by (simp add: ordered_def sorted_wrt_iff_nth_less)
  have mono: "?f b" if "a \<le> b" "b < length cs" "?f a" for a b
    using that less [of a] less [of b] lt [of a b] by (cases "a = b") auto
  have "(\<forall>k < i. \<not> ?f k) \<and> (\<forall>k. i \<le> k \<longrightarrow> k < length cs \<longrightarrow> ?f k)"
    unfolding i_def by (rule search_from_least) (use mono in auto)
  then have f: "\<forall>k < i. \<not> ?f k" "\<forall>k. i \<le> k \<longrightarrow> k < length cs \<longrightarrow> ?f k" by blast+
  have i: "i \<le> length cs" using search_from_bounds [of 0 "length cs" ?f] by (simp add: i_def)
  have eq: "node_insert cs c = take i cs @ c # drop i cs" by (simp add: node_insert_def i_def Let_def)
  show set: "set (node_insert cs c) = insert c (set cs)"
    unfolding eq using set_append [of "take i cs" "drop i cs"] by auto
  have low: "first x < first c" if "x \<in> set (take i cs)" for x
    using that f(1) less i by (auto simp: in_set_conv_nth)
  have high: "first c < first x" if "x \<in> set (drop i cs)" for x
  proof -
    obtain k where k: "x = cs ! k" "i \<le> k" "k < length cs" using \<open>x \<in> set (drop i cs)\<close> i
      by (auto simp: in_set_conv_nth)
    with f(2) less [of k] have "\<not> first x < first c" by auto
    moreover have "first x \<noteq> first c" using k new(2) nth_mem by (metis imageI)
    ultimately show ?thesis by simp
  qed
  have "sorted_wrt (\<lambda>a b. first a < first b) (take i cs @ drop i cs)" using cs by (simp add: ordered_def)
  then have "sorted_wrt (\<lambda>a b. first a < first b) (node_insert cs c)"
    unfolding eq using low high by (auto simp: sorted_wrt_append simp del: append_take_drop_id)
  then show "ordered (node_insert cs c)" using cs new(1) by (auto simp: ordered_def set)
qed

section \<open>What a trie stores\<close>

text \<open>The value at a key below a node, zero where there is none.\<close>

function value_at :: "bytes \<Rightarrow> trieNode \<Rightarrow> u64" where
  "value_at key (Node name val cs) =
     (if key = [] then val
      else case List.find (\<lambda>c. take 1 (tn_name c) = take 1 key) cs of
        None \<Rightarrow> 0
      | Some c \<Rightarrow> if prefix (tn_name c) key then value_at (drop (length (tn_name c)) key) c else 0)"
  by pat_completeness auto
termination
proof (relation "measure (\<lambda>(key, n). size n)", goal_cases)
  case (2 key name val cs c)
  then have "c \<in> set cs" by (auto simp: find_Some_iff in_set_conv_nth)
  then show ?case by (simp add: less_Suc_eq_le size_list_estimation')
qed simp

declare value_at.simps [simp del]

definition child_value :: "bytes \<Rightarrow> trieNode \<Rightarrow> u64" where
  "child_value key c = (if prefix (tn_name c) key then value_at (drop (length (tn_name c)) key) c else 0)"

lemma value_at_Nil [simp]: "value_at [] n = tn_value n"
  by (cases n) (simp add: value_at.simps)

lemma value_at_rename: "key \<noteq> [] \<Longrightarrow> value_at key (Node nm v (tn_children c)) = value_at key c"
  by (cases c) (simp add: value_at.simps)

lemma take1_first: "c \<in> set cs \<Longrightarrow> ordered cs \<Longrightarrow> key \<noteq> [] \<Longrightarrow> take 1 (tn_name c) = take 1 key \<longleftrightarrow> first c = hd key"
  by (cases "tn_name c"; cases key) (auto simp: ordered_def first_def)

lemma value_at_child:
  assumes "ordered cs" and "c \<in> set cs" and "key \<noteq> []" and "first c = hd key"
  shows "value_at key (Node nm v cs) = child_value key c"
proof -
  obtain d where d: "List.find (\<lambda>c. take 1 (tn_name c) = take 1 key) cs = Some d"
    using assms take1_first [OF assms(2,1,3)] by (cases "List.find (\<lambda>c. take 1 (tn_name c) = take 1 key) cs") (auto simp: find_None_iff)
  then have "d \<in> set cs" "take 1 (tn_name d) = take 1 key" by (auto simp: find_Some_iff in_set_conv_nth)
  then have "first d = first c" using take1_first [of d cs key] assms by simp
  then have "d = c" using ordered_first_inj [OF assms(1) \<open>d \<in> set cs\<close> assms(2)] by simp
  with d assms(3) show ?thesis by (simp add: value_at.simps child_value_def)
qed

lemma value_at_no_child:
  assumes "ordered cs" and "key \<noteq> []" and "hd key \<notin> first ` set cs"
  shows "value_at key (Node nm v cs) = 0"
proof -
  have "List.find (\<lambda>c. take 1 (tn_name c) = take 1 key) cs = None"
    using assms take1_first [of _ cs key] by (force simp: find_None_iff)
  with assms(2) show ?thesis by (simp add: value_at.simps)
qed

section \<open>Insertion\<close>

text \<open>A child in the place of another with the same first byte changes what lies behind that byte.\<close>

lemma value_at_update:
  assumes cs: "ordered cs" "k < length cs" and c: "first c = first (cs ! k)" "tn_name c \<noteq> []" and "key \<noteq> []"
  shows "value_at key (Node nm v (cs[k := c])) =
    (if hd key = first c then child_value key c else value_at key (Node nm v cs))"
proof -
  have ord: "ordered (cs[k := c])" by (rule ordered_update [OF cs c])
  have set: "set (cs[k := c]) = insert c (set cs - {cs ! k})"
    by (rule set_update_distinct [OF ordered_distinct [OF cs(1)] cs(2)])
  show ?thesis
  proof (cases "hd key = first c")
    case True
    then show ?thesis using value_at_child [OF ord _ assms(5), of c] set by simp
  next
    case other: False
    show ?thesis
    proof (cases "hd key \<in> first ` set cs")
      case True
      then obtain d where d: "d \<in> set cs" "first d = hd key" by auto
      then have "d \<in> set (cs[k := c])" using other c(1) by (auto simp: set)
      then show ?thesis using value_at_child [OF ord _ assms(5), of d] value_at_child [OF cs(1) d(1) assms(5)] d(2) other by simp
    next
      case False
      then have "hd key \<notin> first ` set (cs[k := c])" using other by (auto simp: set)
      then show ?thesis
        using value_at_no_child [OF ord assms(5)] value_at_no_child [OF cs(1) assms(5) False] other by simp
    qed
  qed
qed

text \<open>The same for a whole map: the new child holds what the old one held, changed at one key.\<close>

definition changed :: "bytes \<Rightarrow> (u64 \<Rightarrow> u64) \<Rightarrow> (bytes \<Rightarrow> u64) \<Rightarrow> bytes \<Rightarrow> u64" where
  "changed key fn m = m(key := fn (m key))"

lemma replace_child:
  assumes cs: "ordered cs" "k < length cs" and c: "first c = first (cs ! k)" "tn_name c \<noteq> []"
    and key: "key \<noteq> []" "hd key = first (cs ! k)"
    and vals: "(\<lambda>x. child_value x c) = changed key fn (\<lambda>x. child_value x (cs ! k))"
  shows "(\<lambda>x. value_at x (Node nm v (cs[k := c]))) = changed key fn (\<lambda>x. value_at x (Node nm v cs))"
proof
  fix x
  have old: "value_at y (Node nm v cs) = child_value y (cs ! k)" if "y \<noteq> []" "hd y = first (cs ! k)" for y
    using value_at_child [OF cs(1) _ that(1)] that(2) cs(2) by simp
  have new: "child_value y c = (if y = key then fn (child_value key (cs ! k)) else child_value y (cs ! k))" for y
    using fun_cong [OF vals, of y] by (simp add: changed_def)
  show "value_at x (Node nm v (cs[k := c])) = changed key fn (\<lambda>x. value_at x (Node nm v cs)) x"
  proof (cases "x = []")
    case True
    then show ?thesis using key(1) by (simp add: changed_def)
  next
    case False
    then show ?thesis
      using value_at_update [OF cs c False, of nm v] old [OF False] old [OF key] new [of x] c(1) key(2)
      by (auto simp: changed_def)
  qed
qed

text \<open>A split keeps what a child holds.\<close>

lemma child_value_split:
  assumes "tn_name c = p @ l" and "l \<noteq> []" and "n = Node l (tn_value c) (tn_children c)"
  shows "child_value x (Node p 0 [n]) = child_value x c"
proof -
  have ord: "ordered [n]" using assms by (simp add: ordered_def)
  have n: "value_at z (Node q 0 [n]) = child_value z n" if "z \<noteq> []" for z q
    using that value_at_child [OF ord _ that, of n] value_at_no_child [OF ord that] assms
    by (cases "hd z = first n") (auto simp: child_value_def first_def prefix_def)
  have eq: "value_at y n = value_at y c" for y
    by (cases "y = []") (simp_all add: assms(3) value_at_rename)
  show ?thesis
  proof (cases "prefix p x")
    case True
    then obtain y where x: "x = p @ y" by (auto simp: prefix_def)
    then show ?thesis
      using assms n [of y p] eq by (cases "y = []") (auto simp: child_value_def same_prefix_prefix)
  next
    case False
    then have "\<not> prefix (p @ l) x" using append_prefixD by blast
    then show ?thesis using False assms(1) by (simp add: child_value_def)
  qed
qed

lemma lead_index_ok:
  assumes "\<forall>c \<in> set cs. tn_name c \<noteq> []"
  shows "lead_index k found b cs \<noteq> None" and "lead_index k found b cs = Some None \<longleftrightarrow> found = None \<and> b \<notin> first ` set cs"
  using assms by (induction cs arbitrary: k found) (auto simp: first_def split: list.split)

lemma child_value_own: "tn_name c' = tn_name c \<Longrightarrow> (\<lambda>x. value_at x c') = changed rest fn (\<lambda>x. value_at x c) \<Longrightarrow>
    (\<lambda>x. child_value x c') = changed (tn_name c @ rest) fn (\<lambda>x. child_value x c)"
  by (auto simp: fun_eq_iff child_value_def changed_def prefix_def)

lemma new_child:
  assumes wf: "wf_node (Node nm v cs)" and key: "key \<noteq> []" "hd key \<notin> first ` set cs"
    and n: "n = Node nm v (node_insert cs (Node key (fn 0) []))"
  shows "wf_node n" and "(\<lambda>x. value_at x n) = changed key fn (\<lambda>x. value_at x (Node nm v cs))"
proof -
  let ?c = "Node key (fn 0) []"
  have ord: "ordered cs" using wf by simp
  have c: "tn_name ?c \<noteq> []" "first ?c \<notin> first ` set cs" using key by (simp_all add: first_def)
  note ins = node_insert_ordered [OF ord c]
  show "wf_node n" using ins wf by (auto simp: n ordered_def)
  have leaf: "child_value x ?c = (if x = key then fn 0 else 0)" for x
    by (auto simp: child_value_def prefix_def value_at.simps)
  have "value_at x n = changed key fn (\<lambda>x. value_at x (Node nm v cs)) x" for x
  proof (cases "x = []")
    case True
    then show ?thesis using key(1) by (simp add: n changed_def)
  next
    case False
    consider (new) "hd x = hd key" | (old) d where "hd x \<noteq> hd key" "d \<in> set cs" "first d = hd x"
      | (none) "hd x \<noteq> hd key" "hd x \<notin> first ` set cs" by (metis image_iff)
    then show ?thesis
    proof cases
      case new
      then show ?thesis
        using value_at_child [OF ins(1) _ False, of ?c] value_at_no_child [OF ord] key False leaf [of x] ins(2)
        by (simp add: n changed_def first_def)
    next
      case old
      then show ?thesis
        using value_at_child [OF ins(1) _ False, of d] value_at_child [OF ord old(2) False] ins(2)
        by (auto simp: n changed_def)
    next
      case none
      then have "hd x \<notin> first ` set (node_insert cs ?c)" using ins(2) by (auto simp: first_def)
      then show ?thesis using value_at_no_child [OF ins(1) False] value_at_no_child [OF ord False none(2)] none(1)
        by (auto simp: n changed_def)
    qed
  qed
  then show "(\<lambda>x. value_at x n) = changed key fn (\<lambda>x. value_at x (Node nm v cs))" by blast
qed

text \<open>A child that may take the place of another one, and the three ways to make it.\<close>

definition replaces :: "bytes \<Rightarrow> (u64 \<Rightarrow> u64) \<Rightarrow> trieNode \<Rightarrow> trieNode \<Rightarrow> bool" where
  "replaces key fn c c' \<longleftrightarrow> wf_node c' \<and> first c' = first c \<and> tn_name c' \<noteq> [] \<and>
     (\<lambda>x. child_value x c') = changed key fn (\<lambda>x. child_value x c)"

definition updates :: "bytes \<Rightarrow> (u64 \<Rightarrow> u64) \<Rightarrow> trieNode \<Rightarrow> trieNode \<Rightarrow> bool" where
  "updates key fn n n' \<longleftrightarrow> wf_node n' \<and> tn_name n' = tn_name n \<and>
     (\<lambda>x. value_at x n') = changed key fn (\<lambda>x. value_at x n)"

lemma put_child:
  assumes wf: "wf_node (Node nm v cs)" and k: "k < length cs" and key: "key \<noteq> []" "hd key = first (cs ! k)"
    and c: "replaces key fn (cs ! k) c"
  shows "updates key fn (Node nm v cs) (Node nm v (cs[k := c]))"
proof -
  have ord: "ordered cs" using wf by simp
  have c': "wf_node c" "first c = first (cs ! k)" "tn_name c \<noteq> []"
      "(\<lambda>x. child_value x c) = changed key fn (\<lambda>x. child_value x (cs ! k))"
    using c by (simp_all add: replaces_def)
  have "wf_node (Node nm v (cs[k := c]))"
    using ordered_update [OF ord k c'(2,3)] wf c'(1) set_update_subset_insert [of cs k c] by auto
  with replace_child [OF ord k c'(2,3) key c'(4)] show ?thesis by (simp add: updates_def)
qed

lemma descend_child:
  assumes "updates rest fn c c'" and "tn_name c \<noteq> []"
  shows "replaces (tn_name c @ rest) fn c c'"
  using assms child_value_own [of c' c rest fn] by (simp add: updates_def replaces_def first_def)

lemma match_child:
  assumes "wf_node c" and "tn_name c \<noteq> []"
  shows "replaces (tn_name c) fn c (Node (tn_name c) (fn (tn_value c)) (tn_children c))"
proof -
  let ?c' = "Node (tn_name c) (fn (tn_value c)) (tn_children c)"
  have "(\<lambda>x. value_at x ?c') = changed [] fn (\<lambda>x. value_at x c)"
    using value_at_rename [of _ "tn_name c" "fn (tn_value c)" c] by (auto simp: fun_eq_iff changed_def)
  then have "updates [] fn c ?c'" using assms(1) by (simp add: updates_def wf_rename del: wf_node.simps)
  from descend_child [OF this assms(2)] show ?thesis by simp
qed

lemma split_child:
  assumes "tn_name c = p @ l" and "p \<noteq> []" and "l \<noteq> []"
    and up: "updates r fn (Node p 0 [Node l (tn_value c) (tn_children c)]) c'"
  shows "replaces (p @ r) fn c c'"
proof -
  let ?n = "Node p 0 [Node l (tn_value c) (tn_children c)]"
  have "replaces (tn_name ?n @ r) fn ?n c'" using descend_child [OF up] assms(2) by simp
  then show ?thesis
    using child_value_split [OF assms(1,3) refl] assms(1,2) by (simp add: replaces_def first_def)
qed

text \<open>The search once a child is found.\<close>

lemma findNodeAt_found:
  assumes "key = b # bs" and "lead_index 0 None b cs = Some (Some k)" and "c = cs ! k"
  shows "scan_key 0 (tn_name c) key = Descend \<Longrightarrow> findNodeAt (drop (length (tn_name c)) key) fn c = Some c' \<Longrightarrow>
      findNodeAt key fn (Node nm v cs) = Some (Node nm v (cs[k := c']))"
    and "scan_key 0 (tn_name c) key = Split i \<Longrightarrow>
      findNodeAt (drop i key) fn (Node (take i (tn_name c)) 0 [Node (drop i (tn_name c)) (tn_value c) (tn_children c)]) = Some c' \<Longrightarrow>
      findNodeAt key fn (Node nm v cs) = Some (Node nm v (cs[k := c']))"
    and "scan_key 0 (tn_name c) key = Match \<Longrightarrow>
      findNodeAt key fn (Node nm v cs) = Some (Node nm v (cs[k := Node (tn_name c) (fn (tn_value c)) (tn_children c)]))"
  using assms by (simp_all add: findNodeAt.simps [of "b # bs"] Let_def)

text \<open>No well-formed trie makes the search panic; the result is well-formed, and differs from the old
  trie in the value at the key.\<close>

lemma findNodeAt_ok: "wf_node n \<Longrightarrow> \<exists>n'. findNodeAt key fn n = Some n' \<and> updates key fn n n'"
proof (induction key fn n rule: findNodeAt.induct)
  case (1 key fn name val cs)
  have named: "\<forall>c \<in> set cs. tn_name c \<noteq> []" using "1.prems" by (simp add: ordered_def)
  show ?case
  proof (cases key)
    case Nil
    have "value_at x (Node name (fn val) cs) = changed [] fn (\<lambda>x. value_at x (Node name val cs)) x" for x
      using value_at_rename [of x name "fn val" "Node name val cs"] by (cases "x = []") (simp_all add: changed_def)
    then show ?thesis using Nil "1.prems" by (simp add: findNodeAt.simps updates_def fun_eq_iff)
  next
    case (Cons b bs)
    then have key: "key \<noteq> []" "hd key = b" by simp_all
    from lead_index_ok(1) [OF named] obtain r where lead: "lead_index 0 None b cs = Some r" by blast
    show ?thesis
    proof (cases r)
      case None
      then have "hd key \<notin> first ` set cs" using lead lead_index_ok(2) [OF named, of 0 None b] key(2) by simp
      from new_child [OF "1.prems" key(1) this refl] show ?thesis
        using Cons lead None by (simp add: findNodeAt.simps newTrieNode_def updates_def)
    next
      case (Some k)
      then obtain xs where k: "k < length cs" "tn_name (cs ! k) = b # xs"
        using lead lead_index_found [of 0 None b cs k] by auto
      have c: "wf_node (cs ! k)" "hd key = first (cs ! k)" using "1.prems" k key(2) by (simp_all add: first_def)
      note found = findNodeAt_found [OF Cons lead [unfolded Some] refl, where fn = fn and nm = name and v = val]
      note put = put_child [OF "1.prems" k(1) key(1) c(2)]
      show ?thesis
      proof (cases "scan_key 0 (tn_name (cs ! k)) key")
        case Descend
        obtain rest where rest: "key = tn_name (cs ! k) @ rest"
          using scan_key_descend [OF Descend] by (auto simp: strict_prefix_def prefix_def)
        from "1.IH"(1) [OF Cons lead Some refl refl Descend c(1)] rest obtain c' where
          c': "findNodeAt rest fn (cs ! k) = Some c'" "updates rest fn (cs ! k) c'" by auto
        have "findNodeAt key fn (Node name val cs) = Some (Node name val (cs[k := c']))"
          using found(1) [OF Descend] c'(1) rest by simp
        with put [of fn c'] descend_child [OF c'(2)] rest k(2) show ?thesis by simp
      next
        case (Split i)
        obtain p l r' where p: "tn_name (cs ! k) = p @ l" "key = p @ r'" "i = length p" "l \<noteq> []" "r' = [] \<or> hd r' \<noteq> hd l"
          using scan_key_split [OF Split] by auto
        then have ne: "p \<noteq> []" using k(2) Cons by auto
        have "wf_node (Node p 0 [Node l (tn_value (cs ! k)) (tn_children (cs ! k))])"
          using c(1) p(4) wf_rename by (simp add: ordered_def)
        with "1.IH"(2) [OF Cons lead Some refl refl Split] p obtain c' where c':
          "findNodeAt r' fn (Node p 0 [Node l (tn_value (cs ! k)) (tn_children (cs ! k))]) = Some c'"
          "updates r' fn (Node p 0 [Node l (tn_value (cs ! k)) (tn_children (cs ! k))]) c'" by auto
        have "findNodeAt key fn (Node name val cs) = Some (Node name val (cs[k := c']))"
          using found(2) [OF Split] c'(1) p by simp
        with put [of fn c'] split_child [OF p(1) ne p(4) c'(2)] p(2) show ?thesis by simp
      next
        case Match
        from scan_key_match [OF Match] have "key = tn_name (cs ! k)" by simp
        with found(3) [OF Match] put match_child [OF c(1)] key(1) show ?thesis by auto
      qed
    qed
  qed
qed

section \<open>Iteration\<close>

text \<open>The entries below a node, in the order of its children.\<close>

fun entries_of :: "bytes \<Rightarrow> trieNode \<Rightarrow> (bytes \<times> u64) list" where
  "entries_of p (Node name val cs) = (p @ name, val) # concat (map (entries_of (p @ name)) cs)"

lemma entries_of_children: "entries_of p n = (p @ tn_name n, tn_value n) # concat (map (entries_of (p @ tn_name n)) (tn_children n))"
  by (cases n) simp

lemma iterate_loop_entries:
  "length pres = length nodes \<Longrightarrow>
     iterate_loop nodes pres = filter (\<lambda>(k, v). v > 0) (concat (map2 entries_of pres nodes))"
proof (induction nodes pres rule: iterate_loop.induct)
  case (2 tn nodes pres)
  then obtain p ps where pres: "pres = p # ps" by (cases pres) auto
  have zip: "map2 entries_of (replicate (length cs) q) cs = map (entries_of q) cs" for q cs
    by (induction cs) simp_all
  have "map2 entries_of (replicate (length cs) q @ ps) (cs @ nodes) = map (entries_of q) cs @ map2 entries_of ps nodes" for q cs
    by (simp add: zip_append zip)
  with 2 pres show ?case by (simp add: Let_def entries_of_children [of p tn])
qed simp

lemma entries_prefix: "(k, v) \<in> set (entries_of p n) \<Longrightarrow> prefix (p @ tn_name n) k"
  by (induction n arbitrary: p) (fastforce simp: append_prefixD dest: append_prefixD)

text \<open>An entry behind a child's name.\<close>

lemma entries_value:
  "wf_node n \<Longrightarrow> (p @ tn_name n @ x, v) \<in> set (entries_of p n) \<Longrightarrow> v = value_at x n"
proof (induction n arbitrary: p x)
  case (Node name val cs)
  show ?case
  proof (cases "x = []")
    case True
    have "\<not> prefix (p @ name @ tn_name c) (p @ name)" if "c \<in> set cs" for c
      using that Node.prems(1) by (auto simp: ordered_def prefix_def)
    then show ?thesis using Node.prems(2) True entries_prefix by fastforce
  next
    case False
    then obtain c where c: "c \<in> set cs" "(p @ name @ x, v) \<in> set (entries_of (p @ name) c)" using Node.prems(2) by auto
    from entries_prefix [OF c(2)] obtain y where y: "x = tn_name c @ y" by (auto simp: prefix_def)
    have ord: "ordered cs" "wf_node c" "tn_name c \<noteq> []" using Node.prems(1) c(1) by (auto simp: ordered_def)
    have "v = value_at y c" using Node.IH [OF c(1) ord(2), of "p @ name" y] c(2) y by simp
    moreover have "value_at x (Node name val cs) = child_value x c"
      using value_at_child [OF ord(1) c(1) False] ord(3) y by (simp add: first_def)
    ultimately show ?thesis using y by (simp add: child_value_def)
  qed
qed

lemma value_entries:
  "wf_node n \<Longrightarrow> value_at x n \<noteq> 0 \<Longrightarrow> (p @ tn_name n @ x, value_at x n) \<in> set (entries_of p n)"
proof (induction n arbitrary: p x)
  case (Node name val cs)
  show ?case
  proof (cases "x = []")
    case False
    have ord: "ordered cs" using Node.prems(1) by simp
    obtain c where c: "c \<in> set cs" "first c = hd x"
      using value_at_no_child [OF ord False] Node.prems(2) by (metis imageE)
    then have val: "value_at x (Node name val cs) = child_value x c" using value_at_child [OF ord c(1) False] by simp
    then obtain y where y: "x = tn_name c @ y" "value_at x (Node name val cs) = value_at y c"
      using Node.prems(2) by (auto simp: child_value_def prefix_def split: if_splits)
    have "(p @ name @ tn_name c @ y, value_at y c) \<in> set (entries_of (p @ name) c)"
      using Node.IH [OF c(1), of y "p @ name"] Node.prems y c(1) by simp
    then show ?thesis using c(1) y by auto
  qed simp
qed

lemma distinct_concat_map:
  "distinct cs \<Longrightarrow> (\<And>c. c \<in> set cs \<Longrightarrow> distinct (f c)) \<Longrightarrow>
     (\<And>c d. c \<in> set cs \<Longrightarrow> d \<in> set cs \<Longrightarrow> c \<noteq> d \<Longrightarrow> set (f c) \<inter> set (f d) = {}) \<Longrightarrow> distinct (concat (map f cs))"
  by (induction cs) (simp_all, blast)

lemma entries_distinct: "wf_node n \<Longrightarrow> distinct (map fst (entries_of p n))"
proof (induction n arbitrary: p)
  case (Node name val cs)
  let ?keys = "\<lambda>c. map fst (entries_of (p @ name) c)"
  have ord: "ordered cs" and wf: "\<And>c. c \<in> set cs \<Longrightarrow> wf_node c" using Node.prems by simp_all
  have keys: "\<exists>y. k = p @ name @ tn_name c @ y" if "k \<in> set (?keys c)" for k c
    using that entries_prefix [of k _ "p @ name" c] by (auto simp: prefix_def)
  have own: "p @ name \<notin> set (?keys c)" if "c \<in> set cs" for c
    using keys [of "p @ name" c] that ord by (auto simp: ordered_def)
  have apart: "set (?keys c) \<inter> set (?keys d) = {}" if "c \<in> set cs" "d \<in> set cs" "c \<noteq> d" for c d
  proof (rule ccontr)
    assume "set (?keys c) \<inter> set (?keys d) \<noteq> {}"
    then obtain k where "k \<in> set (?keys c)" "k \<in> set (?keys d)" by blast
    then obtain y z where "tn_name c @ y = tn_name d @ z" using keys [of k c] keys [of k d] by auto
    then have "hd (tn_name c @ y) = hd (tn_name d @ z)" by simp
    then have "first c = first d" using that(1,2) ord by (simp add: ordered_def first_def)
    then show False using ordered_first_inj [OF ord] that by blast
  qed
  have "distinct (concat (map ?keys cs))"
    using ordered_distinct [OF ord] Node.IH wf apart by (intro distinct_concat_map) blast+
  then show ?case using own by (simp add: map_concat comp_def image_iff)
qed

section \<open>A profile\<close>

text \<open>How the detector fills a trie: one merging insertion per sampled stack that is not empty.\<close>

fun insert_all :: "(bytes \<times> u64) list \<Rightarrow> Trie \<Rightarrow> Trie option" where
  "insert_all [] t = Some t"
| "insert_all ((stack, v) # es) t =
     (if length stack > 0
      then case Insert stack v [True] t of None \<Rightarrow> None | Some t' \<Rightarrow> insert_all es t'
      else insert_all es t)"

definition total_of :: "bytes \<Rightarrow> (bytes \<times> u64) list \<Rightarrow> u64" where
  "total_of k es = sum_list (map snd (filter (\<lambda>e. fst e = k \<and> k \<noteq> []) es))"

definition content :: "Trie \<Rightarrow> bytes \<Rightarrow> u64" where
  "content t k = value_at k (root t)"

text \<open>The map a trie stands for, and the condition under which it does.\<close>

definition wf_trie :: "Trie \<Rightarrow> bool" where
  "wf_trie t \<longleftrightarrow> wf_node (root t) \<and> tn_name (root t) = []"

lemma Insert_refines:
  assumes "wf_trie t"
  shows "\<exists>t'. Insert key val merge t = Some t' \<and> wf_trie t' \<and>
    content t' = (content t)(key := if merge \<noteq> [] \<and> hd merge then content t key + val else val)"
proof -
  let ?fn = "\<lambda>v. if merge \<noteq> [] \<and> hd merge then v + val else val"
  obtain n where n: "findNodeAt key ?fn (root t) = Some n" "updates key ?fn (root t) n"
    using findNodeAt_ok assms by (metis wf_trie_def)
  have fn: "?fn = (if merge \<noteq> [] \<and> hd merge then (\<lambda>v. v + val) else (\<lambda>_. val))" by auto
  have "Insert key val merge t = Some (t\<lparr>root := n\<rparr>)" using n(1) unfolding fn by (auto simp: Insert_def)
  moreover have "content (t\<lparr>root := n\<rparr>) = (content t)(key := ?fn (content t key))"
    using n(2) by (simp add: updates_def changed_def content_def [abs_def] fun_eq_iff)
  ultimately show ?thesis using n(2) assms by (simp add: updates_def wf_trie_def)
qed

lemma findNodeAt_children:
  assumes "findNodeAt key fn n = Some n'"
  shows "tn_children n' = [] \<longleftrightarrow> tn_children n = [] \<and> key = []"
  using assms lead_index_found
  by (cases n; cases key) (fastforce simp: findNodeAt.simps node_insert_def Let_def split: option.splits scan.splits)+

lemma Insert_IsEmpty: "Insert key val merge t = Some t' \<Longrightarrow> IsEmpty t' \<longleftrightarrow> IsEmpty t \<and> key = []"
  using findNodeAt_children by (fastforce simp: Insert_def IsEmpty_def split: if_splits)

lemma insert_all_adds:
  "wf_trie t \<Longrightarrow> \<exists>t'. insert_all es t = Some t' \<and> wf_trie t' \<and> (\<forall>k. content t' k = content t k + total_of k es) \<and>
     (IsEmpty t' \<longleftrightarrow> IsEmpty t \<and> list_all (\<lambda>e. fst e = []) es)"
proof (induction es arbitrary: t)
  case Nil
  then show ?case by (simp add: total_of_def)
next
  case (Cons e es)
  obtain k v where e: "e = (k, v)" by fastforce
  show ?case
  proof (cases "k = []")
    case True
    then have "total_of x (e # es) = total_of x es" for x using e by (auto simp: total_of_def)
    with Cons.IH [OF Cons.prems] True e show ?thesis by simp
  next
    case False
    from Insert_refines [OF Cons.prems, of k v "[True]"] obtain t1 where
      t1: "Insert k v [True] t = Some t1" "wf_trie t1" "content t1 = (content t)(k := content t k + v)" by auto
    from Cons.IH [OF t1(2)] t1 e False Insert_IsEmpty [OF t1(1)] show ?thesis
      by (auto simp: total_of_def algebra_simps)
  qed
qed

lemma Iterate_content:
  assumes "wf_trie t"
  shows "distinct (map fst (Iterate t))" and "(k, n) \<in> set (Iterate t) \<longleftrightarrow> n \<noteq> 0 \<and> n = content t k"
proof -
  have wf: "wf_node (root t)" "tn_name (root t) = []" using assms by (simp_all add: wf_trie_def)
  have eq: "Iterate t = filter (\<lambda>(k, v). v > 0) (entries_of [] (root t))"
    using iterate_loop_entries [of "[[]]" "[root t]"] by (simp add: Iterate_def del: iterate_loop.simps)
  show "distinct (map fst (Iterate t))"
    unfolding eq by (rule distinct_map_filter) (rule entries_distinct [OF wf(1)])
  show "(k, n) \<in> set (Iterate t) \<longleftrightarrow> n \<noteq> 0 \<and> n = content t k"
    using entries_value [OF wf(1), of "[]" k n] value_entries [OF wf(1), of k "[]"] wf(2)
    by (auto simp: eq content_def word_greater_zero_iff)
qed

section \<open>Properties\<close>

text \<open>C19. The trie of a profile adds up its samples: whatever stacks are inserted, no insertion panics, an iteration
  reports every stack with a total other than zero exactly once with that total, and the trie counts as
  empty exactly when all stacks were empty, which the detector skips.\<close>

theorem trie_adds_up:
  "\<exists>t. insert_all es New = Some t \<and> distinct (map fst (Iterate t)) \<and>
     (\<forall>k n. (k, n) \<in> set (Iterate t) \<longleftrightarrow> n \<noteq> 0 \<and> n = total_of k es) \<and>
     (IsEmpty t \<longleftrightarrow> list_all (\<lambda>e. fst e = []) es)"
proof -
  have new: "wf_trie New" "IsEmpty New" by (simp_all add: wf_trie_def New_def newTrieNode_def ordered_def IsEmpty_def)
  have zero: "content New k = 0" for k by (simp add: content_def New_def newTrieNode_def value_at.simps)
  from insert_all_adds [OF new(1), of es] obtain t where t: "insert_all es New = Some t" "wf_trie t"
    "\<And>k. content t k = total_of k es" "IsEmpty t \<longleftrightarrow> list_all (\<lambda>e. fst e = []) es" using zero new(2) by auto
  with Iterate_content [OF t(2)] show ?thesis by auto
qed

end
