(* ===== verification/Trie_Wire.thy ===== *)
theory Trie_Wire
  imports Profile_Trie
begin

text \<open>
  The profile trie on the wire (\<open>trie.go\<close>, \<open>varint.go\<close>): \<open>Serialize\<close> and \<open>Bytes\<close>, which the upload of a profile
  calls, and the two readers, \<open>IterateRaw\<close> over the bytes and \<open>Deserialize\<close> back into a trie.
\<close>

section \<open>Variable-length integers\<close>

text \<open>\<open>encoding/binary\<close>: seven bits per byte, the lowest first, and the top bit set in all bytes but the last.\<close>

function PutUvarint :: "u64 \<Rightarrow> bytes" where
  "PutUvarint x = (if 0x80 \<le> x then (ucast x OR 0x80) # PutUvarint (drop_bit 7 x) else [ucast x])"
  by pat_completeness auto
termination
  by (relation "measure unat") (auto simp: drop_bit_eq_div unat_div word_le_nat_alt)

declare PutUvarint.simps [simp del]

datatype io_error = EOF | ErrUnexpectedEOF | ErrOverflow

definition MaxVarintLen64 :: nat where "MaxVarintLen64 = 10"

text \<open>A read returns the value so far, an error if there is one, and the bytes left.\<close>

fun ReadUvarint :: "nat \<Rightarrow> u64 \<Rightarrow> nat \<Rightarrow> bytes \<Rightarrow> u64 \<times> io_error option \<times> bytes" where
  "ReadUvarint i x s [] =
     (if i < MaxVarintLen64 then (x, Some (if i > 0 then ErrUnexpectedEOF else EOF), [])
      else (x, Some ErrOverflow, []))"
| "ReadUvarint i x s (b # r) =
     (if i < MaxVarintLen64
      then if b < 0x80
           then if i = MaxVarintLen64 - 1 \<and> b > 1 then (x, Some ErrOverflow, r)
                else (x OR push_bit s (ucast b), None, r)
           else ReadUvarint (Suc i) (x OR push_bit s (ucast (b AND 0x7F))) (s + 7) r
      else (x, Some ErrOverflow, b # r))"

definition varint_write :: "u64 \<Rightarrow> bytes" where
  "varint_write val = PutUvarint val"

definition varint_read :: "bytes \<Rightarrow> u64 \<times> io_error option \<times> bytes" where
  "varint_read r = ReadUvarint 0 0 0 r"

text \<open>A step of the decoder undoes a step of the encoder.\<close>

lemma seven_bits:
  fixes x :: u64
  shows "push_bit s (ucast ((ucast x OR 0x80 :: u8) AND 0x7F)) OR push_bit (s + 7) (drop_bit 7 x) = push_bit s x"
proof (rule bit_eqI)
  fix n
  have low: "bit (0x7F :: int) k \<longleftrightarrow> k < 7" "bit (0x7F :: u64) k \<longleftrightarrow> k < 7" for k
    using bit_mask_iff [of 7 k, where 'a = int] bit_mask_iff [of 7 k, where 'a = u64] by (auto simp: mask_eq_exp_minus_1)
  have top: "bit (0x80 :: int) k \<longleftrightarrow> k = 7" "bit (0x80 :: u64) k \<longleftrightarrow> k = 7" for k
    using bit_exp_iff [of 7 k, where 'a = int] bit_exp_iff [of 7 k, where 'a = u64] by auto
  show "bit (push_bit s (ucast ((ucast x OR 0x80 :: u8) AND 0x7F)) OR push_bit (s + 7) (drop_bit 7 x)) n = bit (push_bit s x) n"
    by (cases "n < s + 7") (auto simp: bit_simps low top)
qed

lemma low_byte: "x < 0x80 \<Longrightarrow> ucast (ucast (x :: u64) :: u8) = x \<and> (ucast x :: u8) < 0x80"
proof -
  assume "x < 0x80"
  then have "unat x < 128" by (simp add: word_less_nat_alt)
  then have "unat (ucast x :: u8) = unat x" 
    by (simp add: unsigned_ucast_eq unsigned_take_bit_eq take_bit_nat_eq_self_iff)
  then show ?thesis using \<open>unat x < 128\<close> 
    by (auto simp: word_less_nat_alt word_unat_eq_iff unsigned_ucast_eq unsigned_take_bit_eq take_bit_nat_eq_self_iff
        intro: le_less_trans [OF take_bit_nat_less_eq_self])
qed

lemma ReadUvarint_Put:
  "unat v * 2 ^ (7 * i) < 2 ^ 64 \<Longrightarrow> i < 10 \<Longrightarrow>
     ReadUvarint i x (7 * i) (PutUvarint v @ r) = (x OR push_bit (7 * i) v, None, r)"
proof (induction v arbitrary: i x rule: PutUvarint.induct)
  case (1 v)
  show ?case
  proof (cases "0x80 \<le> v")
    case False
    then have v: "ucast (ucast v :: u8) = v" "(ucast v :: u8) < 0x80" using low_byte [of v] by auto
    have "\<not> (ucast v :: u8) > 1" if "i = 9"
    proof -
      have "unat v < 2" using 1(2) that by simp
      then show ?thesis by (simp add: word_less_nat_alt unsigned_ucast_eq take_bit_eq_mod)
    qed
    with False v 1(3) show ?thesis by (simp add: PutUvarint.simps [of v] MaxVarintLen64_def)
  next
    case True
    then have big: "128 \<le> unat v" by (simp add: word_le_nat_alt)
    have i: "i < 9"
    proof (rule ccontr)
      assume "\<not> i < 9"
      then have "i = 9" using 1(3) by simp
      then show False using 1(2) big by simp
    qed
    have "unat (drop_bit 7 v) * 2 ^ (7 * Suc i) = (unat v div 128 * 128) * 2 ^ (7 * i)"
      by (simp add: drop_bit_eq_div unat_div power_add)
    also have "\<dots> \<le> unat v * 2 ^ (7 * i)" by (intro mult_le_mono1) simp
    finally have "unat (drop_bit 7 v) * 2 ^ (7 * Suc i) < 2 ^ 64" using 1(2) by (rule le_less_trans)
    from "1.IH" [OF True this] i have rest:
      "ReadUvarint (Suc i) y (7 * i + 7) (PutUvarint (drop_bit 7 v) @ r) = (y OR push_bit (7 * i + 7) (drop_bit 7 v), None, r)" for y
      by (simp add: add.commute)
    have "\<not> (ucast v OR 0x80 :: u8) < 0x80"
      using le_word_or2 [of "0x80 :: u8" "ucast v"] by (simp add: or.commute [of _ "0x80 :: u8"] not_less)
    with True i rest show ?thesis
      by (simp add: PutUvarint.simps [of v] MaxVarintLen64_def or.assoc seven_bits)
  qed
qed

lemma varint_round_trip [simp]: "varint_read (varint_write v @ r) = (v, None, r)"
  using ReadUvarint_Put [of v 0 0 r] unsigned_less [of v] by (simp add: varint_read_def varint_write_def)

lemma ReadUvarint_shrinks:
  "ReadUvarint i x s r = (v, e, r') \<Longrightarrow> length r' \<le> length r \<and> (e = None \<longrightarrow> length r' < length r)"
  by (induction i x s r rule: ReadUvarint.induct) (auto split: if_splits)

lemma varint_read_shrinks: "varint_read r = (v, e, r') \<Longrightarrow> length r' \<le> length r"
  "varint_read r = (v, None, r') \<Longrightarrow> length r' < length r"
  using ReadUvarint_shrinks [of 0 0 0 r] by (auto simp: varint_read_def)

section \<open>Writing a trie\<close>

text \<open>The value of a node as it is written. A divider of zero is a panic.\<close>

definition scaled :: "Trie \<Rightarrow> u64 \<Rightarrow> u64 option" where
  "scaled t val =
     (if Divider t \<noteq> 1 \<or> Multiplier t \<noteq> 1
      then if (word_of_int (Divider t) :: u64) = 0 then None
           else Some (val * word_of_int (Multiplier t) div word_of_int (Divider t))
      else Some val)"

definition write_node :: "Trie \<Rightarrow> trieNode \<Rightarrow> bytes option" where
  "write_node t tn =
     map_option (\<lambda>val. varint_write (of_nat (length (tn_name tn))) @ tn_name tn @ varint_write val @
         varint_write (of_nat (length (tn_children tn))))
       (scaled t (tn_value tn))"

function serialize_loop :: "Trie \<Rightarrow> trieNode list \<Rightarrow> bytes option" where
  "serialize_loop t [] = Some []"
| "serialize_loop t (tn # nodes) =
     (case write_node t tn of
        None \<Rightarrow> None
      | Some bs \<Rightarrow> map_option ((@) bs) (serialize_loop t (tn_children tn @ nodes)))"
  by pat_completeness auto
termination
proof (relation "measure (\<lambda>(t, nodes). sum_list (map size nodes))", goal_cases)
  case (2 t tn nodes bs)
  have "sum_list (map size cs) < size (Node n v cs)" for n v cs by (induction cs) auto
  then show ?case by (cases tn) (simp del: trieNode.size)
qed simp

definition Serialize :: "Trie \<Rightarrow> bytes option" where
  "Serialize t = serialize_loop t [root t]"

definition Bytes :: "Trie \<Rightarrow> bytes option" where
  "Bytes t = Serialize t"

section \<open>Iterating over the bytes\<close>

text \<open>How a reader ends: it returns, with an error or without, or it panics.\<close>

datatype outcome = Returned | Failed io_error | Panicked

record offset =
  descCount :: u64
  suffixLen :: nat

text \<open>\<open>b.Truncate(b.Len() - n)\<close>, which panics below zero.\<close>

definition truncate_by :: "bytes \<Rightarrow> nat \<Rightarrow> bytes option" where
  "truncate_by b n = (if n \<le> length b then Some (take (length b - n) b) else None)"

text \<open>The offsets are kept with the last one first. The first of the program, that of the root, is never cut.\<close>

fun cut_offsets :: "bytes \<Rightarrow> offset list \<Rightarrow> (bytes \<times> offset list) option" where
  "cut_offsets b (d # p # ds) =
     (if descCount d \<noteq> 0 then Some (b, d # p # ds)
      else case truncate_by b (suffixLen d) of
          None \<Rightarrow> None
        | Some b' \<Rightarrow> cut_offsets b' ((if ds \<noteq> [] then p\<lparr>descCount := descCount p - 1\<rparr> else p) # ds))"
| "cut_offsets b ds = Some (b, ds)"

text \<open>After a leaf: one descendant less of the last offset, if there is one.\<close>

definition leaf_done :: "bytes \<Rightarrow> offset list \<Rightarrow> (bytes \<times> offset list) option" where
  "leaf_done b ds =
     (case ds of
        [] \<Rightarrow> Some (b, [])
      | d # ds' \<Rightarrow> cut_offsets b (d\<lparr>descCount := descCount d - 1\<rparr> # ds'))"

text \<open>A reader limited to a signed 64-bit number of bytes.\<close>

definition limit_of :: "u64 \<Rightarrow> nat" where
  "limit_of n = nat (sint n)"

definition emit :: "bytes \<times> int \<Rightarrow> bool \<Rightarrow> (bytes \<times> int) list \<times> outcome \<Rightarrow> (bytes \<times> int) list \<times> outcome" where
  "emit c p res = (if p then (c # fst res, snd res) else res)"

text \<open>The fields of the next node: whether it has a name, the name, the value and the number of children. A stream
  that ends before a node ends the iteration; the length of the name may promise more bytes than there are.\<close>

definition read_node :: "bytes \<Rightarrow> outcome + bool \<times> bytes \<times> u64 \<times> u64 \<times> bytes" where
  "read_node r =
     (case varint_read r of
        (_, Some err, _) \<Rightarrow> Inl (if err = EOF then Returned else Failed err)
      | (nameLen, None, r1) \<Rightarrow>
          let name = (if nameLen \<noteq> 0 then take (limit_of nameLen) r1 else [])
          in case varint_read (drop (length name) r1) of
            (_, Some err, _) \<Rightarrow> Inl (Failed err)
          | (val, None, r2) \<Rightarrow>
              (case varint_read r2 of
                 (_, Some err, _) \<Rightarrow> Inl (Failed err)
               | (cnt, None, r3) \<Rightarrow> Inr (nameLen \<noteq> 0, name, val, cnt, r3)))"

lemma read_node_shrinks: "read_node r = Inr (named, name, val, cnt, r') \<Longrightarrow> length r' < length r"
  by (auto simp: read_node_def Let_def split: prod.splits option.splits dest!: varint_read_shrinks(2))

function raw_loop :: "bytes \<Rightarrow> bytes \<Rightarrow> offset list \<Rightarrow> nat \<Rightarrow> (bytes \<times> int) list \<times> outcome" where
  "raw_loop r b offsets copied =
     (case read_node r of
        Inl end \<Rightarrow> ([], end)
      | Inr (named, name, val, cnt, r') \<Rightarrow>
          let copied' = (if named then length name else copied); b' = b @ name
          in emit (b', sint val) (val > 0)
            (if cnt \<noteq> 0 then raw_loop r' b' (\<lparr>descCount = cnt, suffixLen = copied'\<rparr> # offsets) copied'
             else case truncate_by b' copied' of
                 None \<Rightarrow> ([], Panicked)
               | Some b1 \<Rightarrow>
                   (case leaf_done b1 offsets of
                      None \<Rightarrow> ([], Panicked)
                    | Some (b2, offsets') \<Rightarrow> raw_loop r' b2 offsets' copied')))"
  by pat_completeness auto
termination
  by (relation "measure (\<lambda>(r, b, offsets, copied). length r)") (auto dest: read_node_shrinks)

declare raw_loop.simps [simp del]

definition IterateRaw :: "bytes \<Rightarrow> bytes \<Rightarrow> (bytes \<times> int) list \<times> outcome" where
  "IterateRaw r buf = raw_loop r buf [] 0"

section \<open>Reading a trie back\<close>

text \<open>While a trie is read its nodes are reached through pointers: a store of nodes, whose children are addresses.\<close>

record trieCell =
  c_name :: bytes
  c_value :: u64
  c_children :: "nat list"

definition new_cell :: "bytes \<Rightarrow> trieCell" where
  "new_cell name = \<lparr>c_name = name, c_value = 0, c_children = []\<rparr>"

definition cell_insert :: "nat \<Rightarrow> nat \<Rightarrow> trieCell list \<Rightarrow> trieCell list" where
  "cell_insert p t2 H =
     (let children = c_children (H ! p);
          i = search_from (\<lambda>i. \<not> bytes_less (c_name (H ! (children ! i))) (c_name (H ! t2))) 0 (length children)
      in H[p := (H ! p)\<lparr>c_children := take i children @ t2 # drop i children\<rparr>])"

text \<open>The loop takes the next parent, whose error on the first read is dropped. A slice longer than the runtime
  allocates is a panic.\<close>

function deserialize_loop :: "nat \<Rightarrow> bytes \<Rightarrow> nat list \<Rightarrow> trieCell list \<Rightarrow> outcome + trieCell list" where
  "deserialize_loop maxAlloc r [] H = Inr H"
| "deserialize_loop maxAlloc r (parent # parents) H =
     (case varint_read r of (nameLen, _, r1) \<Rightarrow>
        if unat nameLen > maxAlloc then Inl Panicked
        else if length r1 < unat nameLen then Inl (Failed (if r1 = [] then EOF else ErrUnexpectedEOF))
        else let tn = length H; H' = cell_insert parent tn (H @ [new_cell (take (unat nameLen) r1)])
             in case varint_read (drop (unat nameLen) r1) of
               (_, Some err, _) \<Rightarrow> Inl (Failed err)
             | (val, None, r2) \<Rightarrow>
                 (case varint_read r2 of
                    (_, Some err, _) \<Rightarrow> Inl (Failed err)
                  | (childrenLen, None, r3) \<Rightarrow>
                      deserialize_loop maxAlloc r3 (replicate (unat childrenLen) tn @ parents)
                        (H'[tn := (H' ! tn)\<lparr>c_value := val\<rparr>])))"
  by pat_completeness auto
termination
  by (relation "measure (\<lambda>(maxAlloc, r, parents, H). length r)")
    (auto dest!: varint_read_shrinks(2) [OF sym], auto dest!: varint_read_shrinks(1) [OF sym])

declare deserialize_loop.simps(2) [simp del]

text \<open>The node an address stands for.\<close>

fun tree_at :: "nat \<Rightarrow> trieCell list \<Rightarrow> nat \<Rightarrow> trieNode" where
  "tree_at 0 H i = Node (c_name (H ! i)) (c_value (H ! i)) []"
| "tree_at (Suc n) H i = Node (c_name (H ! i)) (c_value (H ! i)) (map (tree_at n H) (c_children (H ! i)))"

definition Deserialize :: "nat \<Rightarrow> bytes \<Rightarrow> outcome + Trie" where
  "Deserialize maxAlloc r =
     (case deserialize_loop maxAlloc r [0] [new_cell []] of
        Inl end \<Rightarrow> Inl end
      | Inr H \<Rightarrow>
          (case c_children (H ! 0) of
             [] \<Rightarrow> Inl Panicked
           | c # _ \<Rightarrow> Inr (New\<lparr>root := tree_at (length H) H c\<rparr>)))"

text \<open>\<open>FromBytes\<close> drops the error and returns the trie, which is nil then; a panic goes through.\<close>

definition FromBytes :: "nat \<Rightarrow> bytes \<Rightarrow> outcome + Trie option" where
  "FromBytes maxAlloc p =
     (case Deserialize maxAlloc p of
        Inr t \<Rightarrow> Inr (Some t)
      | Inl Panicked \<Rightarrow> Inl Panicked
      | Inl _ \<Rightarrow> Inr None)"

section \<open>The bytes of a node\<close>

text \<open>The value of a node as it is written where the divider is not zero.\<close>

definition scale :: "Trie \<Rightarrow> u64 \<Rightarrow> u64" where
  "scale t val = (if Divider t \<noteq> 1 \<or> Multiplier t \<noteq> 1 then val * word_of_int (Multiplier t) div word_of_int (Divider t) else val)"

fun node_bytes :: "(u64 \<Rightarrow> u64) \<Rightarrow> trieNode \<Rightarrow> bytes" where
  "node_bytes f (Node name val cs) =
     varint_write (of_nat (length name)) @ name @ varint_write (f val) @ varint_write (of_nat (length cs)) @
     concat (map (node_bytes f) cs)"

lemma scaled_scale: "(word_of_int (Divider t) :: u64) \<noteq> 0 \<Longrightarrow> scaled t val = Some (scale t val)"
  by (simp add: scaled_def scale_def)

lemma serialize_loop_bytes:
  assumes "(word_of_int (Divider t) :: u64) \<noteq> 0"
  shows "serialize_loop t nodes = Some (concat (map (node_bytes (scale t)) nodes))"
  using assms
proof (induction t nodes rule: serialize_loop.induct)
  case (2 t tn nodes)
  then show ?case by (cases tn) (simp add: write_node_def scaled_scale)
qed simp

lemma varint_write_nonempty: "varint_write v \<noteq> []"
  by (simp add: varint_write_def PutUvarint.simps)

lemma node_bytes_size:
  assumes "length (node_bytes f (Node name val cs)) < N"
  shows "length name < N" and "length cs < N" and "c \<in> set cs \<Longrightarrow> length (node_bytes f c) < N"
proof -
  have ne: "1 \<le> length (node_bytes f c)" for c
    using varint_write_nonempty by (cases c) (simp add: Suc_le_eq)
  have "length cs = sum_list (map (\<lambda>_. 1) cs)" by (induction cs) auto
  also have "\<dots> \<le> sum_list (map (\<lambda>c. length (node_bytes f c)) cs)" using ne by (intro sum_list_mono) auto
  finally show "length cs < N" and "length name < N" using assms by (auto simp: length_concat comp_def)
  show "length (node_bytes f c) < N" if "c \<in> set cs"
    using assms member_le_sum_list [of "length (node_bytes f c)" "map (\<lambda>c. length (node_bytes f c)) cs"] that
    by (auto simp: length_concat comp_def)
qed

section \<open>The calls of the iteration\<close>

definition calls_of :: "(u64 \<Rightarrow> u64) \<Rightarrow> bytes \<Rightarrow> trieNode \<Rightarrow> (bytes \<times> int) list" where
  "calls_of f b n = map (\<lambda>(k, v). (k, sint (f v))) (filter (\<lambda>(k, v). f v > 0) (entries_of b n))"

definition prepend :: "(bytes \<times> int) list \<Rightarrow> (bytes \<times> int) list \<times> outcome \<Rightarrow> (bytes \<times> int) list \<times> outcome" where
  "prepend cs res = (cs @ fst res, snd res)"

lemma prepend_simps [simp]: "prepend [] res = res" "prepend xs (prepend ys res) = prepend (xs @ ys) res"
  by (simp_all add: prepend_def)

lemma calls_of_Node:
  "prepend (calls_of f b (Node name val cs)) res =
     emit (b @ name, sint (f val)) (f val > 0) (prepend (concat (map (calls_of f (b @ name)) cs)) res)"
proof -
  have "map (\<lambda>(k, v). (k, sint (f v))) (filter (\<lambda>(k, v). f v > 0) (concat (map (entries_of p) cs))) = concat (map (calls_of f p) cs)" for p
    by (induction cs) (simp_all add: calls_of_def)
  then show ?thesis by (simp add: calls_of_def emit_def prepend_def)
qed

text \<open>One round of the loop on the bytes of a node.\<close>

lemma limit_of_nat: "n < 2 ^ 63 \<Longrightarrow> limit_of (of_nat n) = n"
  by (simp add: limit_of_def signed_of_nat signed_take_bit_int_eq_self)

lemma of_nat_zero: "n < 2 ^ 63 \<Longrightarrow> (of_nat n :: u64) = 0 \<longleftrightarrow> n = 0"
  using take_bit_nat_eq_self [of n 64] by (auto simp: word_unat_eq_iff unsigned_of_nat)

lemma read_node_bytes:
  assumes "length name < 2 ^ 63"
  shows "read_node (node_bytes f (Node name val cs) @ r) =
    Inr (name \<noteq> [], name, f val, of_nat (length cs), concat (map (node_bytes f) cs) @ r)"
  using assms by (cases "name = []") (simp_all add: read_node_def limit_of_nat of_nat_zero)

lemma raw_loop_node:
  assumes "length name < 2 ^ 63" and "length cs < 2 ^ 63" and c': "c' = (if name \<noteq> [] then length name else c)"
  shows "raw_loop (node_bytes f (Node name val cs) @ r) b os c =
    emit (b @ name, sint (f val)) (f val > 0)
      (if cs \<noteq> [] then raw_loop (concat (map (node_bytes f) cs) @ r) (b @ name) (\<lparr>descCount = of_nat (length cs), suffixLen = c'\<rparr> # os) c'
       else case truncate_by (b @ name) c' of
           None \<Rightarrow> ([], Panicked)
         | Some b1 \<Rightarrow> (case leaf_done b1 os of None \<Rightarrow> ([], Panicked) | Some (b2, os') \<Rightarrow> raw_loop r b2 os' c'))"
  unfolding c'
  by (subst raw_loop.simps)
    (cases "cs = []"; simp add: read_node_bytes [OF assms(1)] of_nat_zero [OF assms(2)] Let_def del: node_bytes.simps)

text \<open>The count of the last offset in the list, that of the root, is never looked at.\<close>

fun forget :: "offset list \<Rightarrow> offset list" where
  "forget [] = []"
| "forget [d] = [d\<lparr>descCount := 0\<rparr>]"
| "forget (d # p # ds) = d # forget (p # ds)"

lemma forget_Nil [simp]: "forget ds = [] \<longleftrightarrow> ds = []" "[] = forget ds \<longleftrightarrow> ds = []"
  by (cases ds rule: forget.cases; simp)+

lemma forget_forget [simp]: "forget (forget ds) = forget ds"
proof (induction ds rule: forget.induct)
  case (3 d p ds)
  then show ?case by (cases "forget (p # ds)") auto
qed simp_all

lemma cut_offsets_forget: "cut_offsets b (forget ds) = map_option (apsnd forget) (cut_offsets b ds)"
proof (induction b ds rule: cut_offsets.induct)
  case (1 b d p ds)
  then show ?case by (cases ds) (auto split: option.split)
qed simp_all

lemma leaf_done_forget:
  assumes "forget ds = forget ds'"
  shows "map_option (apsnd forget) (leaf_done b ds) = map_option (apsnd forget) (leaf_done b ds')"
proof -
  have "map_option (apsnd forget) (leaf_done b (forget ds)) = map_option (apsnd forget) (leaf_done b ds)" for ds
  proof (cases ds rule: forget.cases)
    case (3 d p es)
    then have "leaf_done b (forget ds) = cut_offsets b (forget (d\<lparr>descCount := descCount d - 1\<rparr> # p # es))"
      by (simp add: leaf_done_def del: cut_offsets.simps)
    then have "leaf_done b (forget ds) = map_option (apsnd forget) (leaf_done b ds)"
      using 3 by (simp only: cut_offsets_forget) (simp add: leaf_done_def del: cut_offsets.simps)
    then show ?thesis by (cases "leaf_done b ds") auto
  qed (simp_all add: leaf_done_def)
  with assms show ?thesis by metis
qed

lemma raw_loop_forget: "forget os = forget os' \<Longrightarrow> raw_loop r b os c = raw_loop r b os' c"
proof (induction "length r" arbitrary: r b os os' c rule: less_induct)
  case less
  show ?case
  proof (cases "read_node r")
    case (Inr x)
    obtain named name val cnt r' where x: "x = (named, name, val, cnt, r')" by (cases x)
    have ih: "raw_loop r' b ds c = raw_loop r' b ds' c" if "forget ds = forget ds'" for b ds ds' c
      using less.hyps [OF read_node_shrinks that] Inr x by simp
    have push: "raw_loop r' b (d # os) c = raw_loop r' b (d # os') c" for b c d
      using less.prems by (intro ih) (cases os; cases os'; auto split: if_splits)
    have leaf: "(case leaf_done b1 os of None \<Rightarrow> ([], Panicked) | Some (b2, ds) \<Rightarrow> raw_loop r' b2 ds c) =
        (case leaf_done b1 os' of None \<Rightarrow> ([], Panicked) | Some (b2, ds) \<Rightarrow> raw_loop r' b2 ds c)" for b1 c
    proof (cases "leaf_done b1 os")
      case (Some y)
      then obtain z where "leaf_done b1 os' = Some z" "fst z = fst y" "forget (snd z) = forget (snd y)"
        using leaf_done_forget [OF less.prems, of b1] by (cases "leaf_done b1 os'") (auto simp: prod_eq_iff)
      then show ?thesis using Some ih [of "snd y" "snd z" "fst y" c] by (simp add: split_beta)
    qed (use leaf_done_forget [OF less.prems, of b1] in simp)
    show ?thesis
      unfolding raw_loop.simps [of r b os c] raw_loop.simps [of r b os' c] 
      by (simp add: Inr x Let_def push leaf cong: option.case_cong)
  qed (simp add: raw_loop.simps)
qed

text \<open>The bytes of a node below the root: the calls for its entries, then the stream goes on as behind a leaf.\<close>

definition reads_as :: "(u64 \<Rightarrow> u64) \<Rightarrow> trieNode \<Rightarrow> bool" where
  "reads_as f n \<longleftrightarrow> (\<forall>r b os c b' os'. os \<noteq> [] \<longrightarrow> leaf_done b os = Some (b', os') \<longrightarrow>
     (\<exists>c'. raw_loop (node_bytes f n @ r) b os c = prepend (calls_of f b n) (raw_loop r b' os' c')))"

lemma of_nat_count: "0 < n \<Longrightarrow> n < 2 ^ 63 \<Longrightarrow> (of_nat n :: u64) \<noteq> 0"
  by (simp add: of_nat_zero)

text \<open>The children of a node, read with the offset of the node on top.\<close>

lemma raw_loop_children:
  assumes "cs \<noteq> []" and "\<And>c. c \<in> set cs \<Longrightarrow> reads_as f c" and "length cs < 2 ^ 63"
    and "cut_offsets b (\<lparr>descCount = 0, suffixLen = s\<rparr> # os) = Some (b', os')"
  shows "\<exists>c'. raw_loop (concat (map (node_bytes f) cs) @ r) b (\<lparr>descCount = of_nat (length cs), suffixLen = s\<rparr> # os) c =
    prepend (concat (map (calls_of f b) cs)) (raw_loop r b' os' c')"
  using assms(1-3)
proof (induction cs arbitrary: c rule: list_nonempty_induct)
  case (single n)
  have "leaf_done b (\<lparr>descCount = 1, suffixLen = s\<rparr> # os) = Some (b', os')" using assms(4) by (simp add: leaf_done_def)
  with single(1) [of n] show ?case by (auto simp: reads_as_def)
next
  case (cons n cs)
  let ?ds = "\<lparr>descCount = of_nat (length cs), suffixLen = s\<rparr> # os"
  have "(of_nat (length cs) :: u64) \<noteq> 0" using cons by (intro of_nat_count) auto
  then have "leaf_done b (\<lparr>descCount = of_nat (length (n # cs)), suffixLen = s\<rparr> # os) = Some (b, ?ds)"
    by (cases os) (simp_all add: leaf_done_def)
  with cons.prems(1) [of n] obtain c1 where
    "raw_loop (node_bytes f n @ concat (map (node_bytes f) cs) @ r) b (\<lparr>descCount = of_nat (length (n # cs)), suffixLen = s\<rparr> # os) c =
       prepend (calls_of f b n) (raw_loop (concat (map (node_bytes f) cs) @ r) b ?ds c1)"
    unfolding reads_as_def by (metis list.set_intros(1) neq_Nil_conv)
  moreover obtain c2 where "raw_loop (concat (map (node_bytes f) cs) @ r) b ?ds c1 = prepend (concat (map (calls_of f b) cs)) (raw_loop r b' os' c2)"
    using cons.IH [of c1] cons.prems by auto
  ultimately show ?case by auto
qed

lemma raw_loop_tree: "wf_node n \<Longrightarrow> tn_name n \<noteq> [] \<Longrightarrow> length (node_bytes f n) < 2 ^ 63 \<Longrightarrow> reads_as f n"
proof (induction n)
  case (Node name val cs)
  note size = node_bytes_size [OF Node.prems(3)]
  have children: "reads_as f c" if "c \<in> set cs" for c
    using Node.IH [OF that] that Node.prems size(3) [OF that] by (simp add: ordered_def)
  show ?case
    unfolding reads_as_def
  proof (intro allI impI)
    fix r b os c b' os'
    assume os: "os \<noteq> []" and leaf: "leaf_done b os = Some (b', os')"
    have cut: "truncate_by (b @ name) (length name) = Some b" by (simp add: truncate_by_def)
    note node = raw_loop_node [OF size(1,2) refl, where f = f and val = val and r = r and b = b and os = os and c = c]
    show "\<exists>c'. raw_loop (node_bytes f (Node name val cs) @ r) b os c = prepend (calls_of f b (Node name val cs)) (raw_loop r b' os' c')"
    proof (cases "cs = []")
      case True
      then show ?thesis using Node.prems(2) node cut leaf by (auto simp: calls_of_Node)
    next
      case False
      obtain b2 os2 where fin: "cut_offsets (b @ name) (\<lparr>descCount = 0, suffixLen = length name\<rparr> # os) = Some (b2, os2)"
        "b2 = b'" "forget os2 = forget os'"
        using os leaf cut by (cases os rule: forget.cases) (auto simp: leaf_done_def)
      from raw_loop_children [OF False children size(2) fin(1), of r "length name"] obtain c' where
        "raw_loop (concat (map (node_bytes f) cs) @ r) (b @ name) (\<lparr>descCount = of_nat (length cs), suffixLen = length name\<rparr> # os) (length name) =
           prepend (concat (map (calls_of f (b @ name)) cs)) (raw_loop r b2 os2 c')" by auto
      then show ?thesis using Node.prems(2) node False fin(2) raw_loop_forget [OF fin(3), of r b' c'] by (auto simp: calls_of_Node)
    qed
  qed
qed

lemma IterateRaw_bytes:
  assumes "wf_trie t" and "(word_of_int (Divider t) :: u64) \<noteq> 0" and "Bytes t = Some bs" and "length bs < 2 ^ 63"
  shows "IterateRaw bs [] = (calls_of (scale t) [] (root t), Returned)"
proof -
  obtain val cs where root: "root t = Node [] val cs" using assms(1) by (cases "root t") (auto simp: wf_trie_def)
  let ?f = "scale t"
  have bs: "bs = node_bytes ?f (Node [] val cs)" 
    using assms(3) serialize_loop_bytes [OF assms(2), of "[root t]"] root
    by (simp add: Bytes_def Serialize_def del: serialize_loop.simps)
  note size = node_bytes_size [OF assms(4) [unfolded bs]]
  have stop: "raw_loop [] b os c = ([], Returned)" for b os c
    by (simp add: raw_loop.simps read_node_def varint_read_def MaxVarintLen64_def)
  note node = raw_loop_node [OF size(1,2) refl, where f = ?f and val = val and r = "[]" and b = "[]" and os = "[]" and c = 0]
  show ?thesis
  proof (cases "cs = []")
    case True
    then show ?thesis using node stop unfolding IterateRaw_def bs root
      by (simp add: truncate_by_def leaf_done_def calls_of_def emit_def)
  next
    case False
    have children: "reads_as ?f c" if "c \<in> set cs" for c
      using that assms(1) root size(3) by (intro raw_loop_tree) (auto simp: wf_trie_def ordered_def)
    from raw_loop_children [OF False children size(2), of "[]" 0 "[]" "[]" "[\<lparr>descCount = 0, suffixLen = 0\<rparr>]" "[]" 0]
    have "raw_loop (concat (map (node_bytes ?f) cs)) [] [\<lparr>descCount = of_nat (length cs), suffixLen = 0\<rparr>] 0 =
        prepend (concat (map (calls_of ?f []) cs)) ([], Returned)" using stop by auto
    then show ?thesis using node False calls_of_Node [of ?f "[]" "[]" val cs "([], Returned)"] unfolding IterateRaw_def bs root
      by (simp add: prepend_def)
  qed
qed

section \<open>A trie read back\<close>

text \<open>Where the nodes of a tree are put, one after the other, from an address on.\<close>

fun node_count :: "trieNode \<Rightarrow> nat" where
  "node_count (Node name val cs) = Suc (sum_list (map node_count cs))"

fun starts :: "nat \<Rightarrow> trieNode list \<Rightarrow> nat list" where
  "starts a [] = []"
| "starts a (c # cs) = a # starts (a + node_count c) cs"

fun layout :: "(u64 \<Rightarrow> u64) \<Rightarrow> nat \<Rightarrow> trieNode \<Rightarrow> trieCell list"
  and layouts :: "(u64 \<Rightarrow> u64) \<Rightarrow> nat \<Rightarrow> trieNode list \<Rightarrow> trieCell list" where
  "layout f a (Node name val cs) = \<lparr>c_name = name, c_value = f val, c_children = starts (Suc a) cs\<rparr> # layouts f (Suc a) cs"
| "layouts f a [] = []"
| "layouts f a (c # cs) = layout f a c @ layouts f (a + node_count c) cs"

lemma length_layout [simp]: "length (layout f a n) = node_count n" "length (layouts f a cs) = sum_list (map node_count cs)"
  by (induction f a n and f a cs rule: layout_layouts.induct) simp_all

fun scale_node :: "(u64 \<Rightarrow> u64) \<Rightarrow> trieNode \<Rightarrow> trieNode" where
  "scale_node f (Node name val cs) = Node name (f val) (map (scale_node f) cs)"

lemma tree_layout:
  "length H = a \<Longrightarrow> node_count n \<le> k \<Longrightarrow> tree_at k (H @ layout f a n @ H') a = scale_node f n"
  "length H = a \<Longrightarrow> sum_list (map node_count cs) \<le> k \<Longrightarrow>
     map (tree_at k (H @ layouts f a cs @ H')) (starts a cs) = map (scale_node f) cs"
proof (induction f a n and f a cs arbitrary: k H H' and k H H' rule: layout_layouts.induct)
  case (1 f a name val cs)
  obtain k' where k: "k = Suc k'" using 1(3) by (cases k) auto
  let ?cell = "\<lparr>c_name = name, c_value = f val, c_children = starts (Suc a) cs\<rparr>"
  from 1(1) [of "H @ [?cell]" k' H'] 1(2,3) k have
    "map (tree_at k' (H @ ?cell # layouts f (Suc a) cs @ H')) (starts (Suc a) cs) = map (scale_node f) cs" by simp
  then show ?case using 1(2) k by (simp add: nth_append)
next
  case (3 f a c cs)
  from 3(1) [of H k "layouts f (a + node_count c) cs @ H'"] 3(3,4) have
    "tree_at k (H @ layout f a c @ layouts f (a + node_count c) cs @ H') a = scale_node f c" by simp
  moreover from 3(2) [of "H @ layout f a c" k H'] 3(3,4) have
    "map (tree_at k (H @ layout f a c @ layouts f (a + node_count c) cs @ H')) (starts (a + node_count c) cs) = map (scale_node f) cs" by simp
  ultimately show ?case by simp
qed simp

text \<open>A node whose name is behind those of its siblings becomes the last child.\<close>

lemma search_from_end: "(\<And>k. k < n \<Longrightarrow> \<not> f k) \<Longrightarrow> search_from f 0 n = n"
proof -
  assume none: "\<And>k. k < n \<Longrightarrow> \<not> f k"
  have "(\<forall>k < search_from f 0 n. \<not> f k) \<and> (\<forall>k. search_from f 0 n \<le> k \<longrightarrow> k < n \<longrightarrow> f k)"
    by (rule search_from_least) (use none in \<open>auto dest: le_less_trans\<close>)
  then have "\<not> search_from f 0 n < n" using none by blast
  then show ?thesis using search_from_bounds [of 0 n f] by simp
qed

lemma cell_insert_last:
  assumes "p < length H" and "\<And>k. k \<in> set (c_children (H ! p)) \<Longrightarrow> k < length H \<and> bytes_less (c_name (H ! k)) name"
  shows "cell_insert p (length H) (H @ [new_cell name]) =
    H[p := (H ! p)\<lparr>c_children := c_children (H ! p) @ [length H]\<rparr>] @ [new_cell name]"
proof -
  let ?ch = "c_children (H ! p)"
  have "search_from (\<lambda>i. \<not> bytes_less (c_name ((H @ [new_cell name]) ! (?ch ! i))) (c_name (new_cell name))) 0 (length ?ch) = length ?ch"
    using assms(2) by (intro search_from_end) (auto simp: nth_append new_cell_def)
  then show ?thesis using assms(1) by (simp add: cell_insert_def nth_append list_update_append)
qed

text \<open>Reading the bytes of a node appends the cells of its tree and makes it the last child of its parent.\<close>

definition add_children :: "nat \<Rightarrow> nat list \<Rightarrow> trieCell list \<Rightarrow> trieCell list" where
  "add_children p ks H = H[p := (H ! p)\<lparr>c_children := c_children (H ! p) @ ks\<rparr>]"

lemma length_add_children [simp]: "length (add_children p ks H) = length H"
  by (simp add: add_children_def)

definition behind :: "trieCell list \<Rightarrow> nat \<Rightarrow> trieNode \<Rightarrow> bool" where
  "behind H p n \<longleftrightarrow> (\<forall>k \<in> set (c_children (H ! p)). k < length H \<and> bytes_less (c_name (H ! k)) (tn_name n))"

definition reads_back :: "nat \<Rightarrow> (u64 \<Rightarrow> u64) \<Rightarrow> trieNode \<Rightarrow> bool" where
  "reads_back m f n \<longleftrightarrow> (\<forall>r p ps H. p < length H \<longrightarrow> behind H p n \<longrightarrow>
     deserialize_loop m (node_bytes f n @ r) (p # ps) H =
     deserialize_loop m r ps (add_children p [length H] H @ layout f (length H) n))"

lemma unat_of_length: "n < 2 ^ 63 \<Longrightarrow> unat (of_nat n :: u64) = n"
  using take_bit_nat_eq_self [of n 64] by (simp add: unsigned_of_nat)

lemma layout_head: "layout f a n ! 0 = \<lparr>c_name = tn_name n, c_value = f (tn_value n), c_children = starts (Suc a) (tn_children n)\<rparr>"
  by (cases n) simp

lemma ordered_behind: "ordered (c # cs) \<Longrightarrow> d \<in> set cs \<Longrightarrow> bytes_less (tn_name c) (tn_name d)"
  using first_decides [of c "tn_name d"] by (auto simp: ordered_def first_def)

lemma node_count_pos: "0 < node_count n"
  by (cases n) simp

text \<open>One child after the other.\<close>

lemma deserialize_children:
  assumes "\<And>c. c \<in> set cs \<Longrightarrow> reads_back m f c" and "ordered cs" and "p < length H" and "\<And>c. c \<in> set cs \<Longrightarrow> behind H p c"
  shows "deserialize_loop m (concat (map (node_bytes f) cs) @ r) (replicate (length cs) p @ ps) H =
    deserialize_loop m r ps (add_children p (starts (length H) cs) H @ layouts f (length H) cs)"
  using assms
proof (induction cs arbitrary: H)
  case Nil
  then show ?case by (simp add: add_children_def)
next
  case (Cons c cs)
  let ?H = "add_children p [length H] H @ layout f (length H) c"
  have len: "length ?H = length H + node_count c" by (simp add: add_children_def)
  have p: "?H ! p = (H ! p)\<lparr>c_children := c_children (H ! p) @ [length H]\<rparr>"
    using Cons.prems(3) by (simp add: add_children_def nth_append)
  have old: "c_name (?H ! k) = c_name (H ! k)" if "k < length H" for k
    using that by (cases "k = p") (simp_all add: add_children_def nth_append nth_list_update)
  have new: "c_name (?H ! length H) = tn_name c" by (simp add: add_children_def nth_append layout_head)
  have "behind ?H p d" if "d \<in> set cs" for d
    using Cons.prems(4) [of d] that old new p node_count_pos [of c] ordered_behind [OF Cons.prems(2) that]
    by (auto simp: behind_def)
  moreover have "ordered cs" using Cons.prems(2) by (simp add: ordered_def)
  ultimately have rest: "deserialize_loop m (concat (map (node_bytes f) cs) @ r) (replicate (length cs) p @ ps) ?H =
      deserialize_loop m r ps (add_children p (starts (length ?H) cs) ?H @ layouts f (length ?H) cs)"
    using Cons.prems(1,3) len by (intro Cons.IH) auto
  have "add_children p (starts (length ?H) cs) ?H = add_children p (starts (length H) (c # cs)) H @ layout f (length H) c"
    using Cons.prems(3) p len by (simp add: add_children_def list_update_append)
  moreover have "reads_back m f c" "behind H p c" using Cons.prems by simp_all
  ultimately show ?case using rest Cons.prems(3) len by (simp add: reads_back_def)
qed

lemma deserialize_node: "wf_node n \<Longrightarrow> length (node_bytes f n) < 2 ^ 63 \<Longrightarrow> length (node_bytes f n) \<le> m \<Longrightarrow> reads_back m f n"
proof (induction n)
  case (Node name val cs)
  note size = node_bytes_size [OF Node.prems(2)]
  have children: "reads_back m f c" if "c \<in> set cs" for c
    using Node.IH [OF that] that Node.prems(1,3) size(3) [OF that] node_bytes_size(3) [OF le_imp_less_Suc [OF Node.prems(3)] that] by simp
  have name: "length name \<le> m" using node_bytes_size(1) [OF le_imp_less_Suc [OF Node.prems(3)]] by simp
  show ?case
    unfolding reads_back_def
  proof (intro allI impI)
    fix r p ps H
    assume p: "p < length H" and b: "behind H p (Node name val cs)"
    let ?H = "add_children p [length H] H @ [\<lparr>c_name = name, c_value = f val, c_children = []\<rparr>]"
    have ins: "cell_insert p (length H) (H @ [new_cell name]) = add_children p [length H] H @ [new_cell name]"
      using cell_insert_last [OF p, of name] b by (auto simp: behind_def add_children_def)
    have len: "length ?H = Suc (length H)" by (simp add: add_children_def)
    have "deserialize_loop m (node_bytes f (Node name val cs) @ r) (p # ps) H =
        deserialize_loop m (concat (map (node_bytes f) cs) @ r) (replicate (length cs) (length H) @ ps) ?H"
      using name unat_of_length [OF size(1)] unat_of_length [OF size(2)] ins
      by (simp add: deserialize_loop.simps(2) Let_def nth_append list_update_append new_cell_def add_children_def)
    also have "\<dots> = deserialize_loop m r ps (add_children (length H) (starts (length ?H) cs) ?H @ layouts f (length ?H) cs)"
      using children Node.prems(1) by (intro deserialize_children) (auto simp: behind_def add_children_def nth_append)
    also have "add_children (length H) (starts (length ?H) cs) ?H @ layouts f (length ?H) cs =
        add_children p [length H] H @ layout f (length H) (Node name val cs)"
      unfolding len by (simp add: add_children_def list_update_append nth_append)
    finally show "deserialize_loop m (node_bytes f (Node name val cs) @ r) (p # ps) H =
        deserialize_loop m r ps (add_children p [length H] H @ layout f (length H) (Node name val cs))" .
  qed
qed

lemma Deserialize_bytes:
  assumes "wf_trie t" and "(word_of_int (Divider t) :: u64) \<noteq> 0" and "Bytes t = Some bs" and "length bs < 2 ^ 63"
    and "length bs \<le> m"
  shows "Deserialize m bs = Inr \<lparr>Multiplier = 1, Divider = 1, root = scale_node (scale t) (root t)\<rparr>"
proof -
  let ?f = "scale t" and ?n = "root t"
  have bs: "bs = node_bytes ?f ?n"
    using assms(3) serialize_loop_bytes [OF assms(2), of "[root t]"] by (simp add: Bytes_def Serialize_def del: serialize_loop.simps)
  have "reads_back m ?f ?n" using deserialize_node [of ?n ?f m] assms bs by (simp add: wf_trie_def)
  moreover have "behind [new_cell []] 0 ?n" by (simp add: behind_def new_cell_def)
  ultimately have "deserialize_loop m (node_bytes ?f ?n @ []) [0] [new_cell []] =
      deserialize_loop m [] [] (add_children 0 [length [new_cell []]] [new_cell []] @ layout ?f (length [new_cell []]) ?n)"
    unfolding reads_back_def by blast
  then have loop: "deserialize_loop m bs [0] [new_cell []] = Inr ([\<lparr>c_name = [], c_value = 0, c_children = [1]\<rparr>] @ layout ?f 1 ?n @ [])"
    by (simp add: bs add_children_def new_cell_def)
  show ?thesis
    using tree_layout(1) [of "[\<lparr>c_name = [], c_value = 0, c_children = [1]\<rparr>]" 1 ?n "Suc (node_count ?n)" ?f "[]"]
    by (simp add: Deserialize_def loop New_def)
qed

section \<open>Properties\<close>

lemma insert_all_plain: "insert_all es t = Some t' \<Longrightarrow> Multiplier t' = Multiplier t \<and> Divider t' = Divider t"
proof (induction es t rule: insert_all.induct)
  case (2 stack v es t)
  then show ?case by (auto simp: Insert_def Let_def split: if_splits option.splits)
qed simp

lemma scale_node_plain: "scale_node (\<lambda>v. v) n = n"
  by (induction n) (simp add: map_idI)

lemma scale_plain: "Multiplier t = 1 \<Longrightarrow> Divider t = 1 \<Longrightarrow> scale t = (\<lambda>v. v)"
  by (simp add: scale_def fun_eq_iff)

text \<open>The error of the first read of a node is dropped: a name length that overflows is taken for what was read of it.\<close>

lemma Deserialize_drops_error:
  "varint_read (replicate 10 0x80 @ r) = (0, Some ErrOverflow, r)" and "Deserialize m (replicate 10 0x80 @ [0, 0]) = Inr New"
proof -
  have ten: "replicate 10 x = [x, x, x, x, x, x, x, x, x, x]" for x :: u8 by (simp add: numeral_eq_Suc)
  show over: "varint_read (replicate 10 0x80 @ r) = (0, Some ErrOverflow, r)" for r
    by (cases r) (simp_all add: varint_read_def ten MaxVarintLen64_def)
  have zero: "varint_read (0 # r) = (0, None, r)" for r by (simp add: varint_read_def MaxVarintLen64_def)
  show "Deserialize m (replicate 10 0x80 @ [0, 0]) = Inr New"
    by (simp add: Deserialize_def deserialize_loop.simps(2) over zero cell_insert_def search_from.simps new_cell_def
        New_def newTrieNode_def)
qed

text \<open>C20. A profile survives the wire: whatever stacks are inserted into a trie, its bytes can be written, and, unless
  they are longer than a slice can be, an iteration over the bytes makes the calls of an iteration over the
  trie, and reading them back gives the trie itself.\<close>

theorem trie_wire_round_trip:
  "\<exists>t bs. insert_all es New = Some t \<and> Bytes t = Some bs \<and>
     (length bs < 2 ^ 63 \<longrightarrow> IterateRaw bs [] = (map (\<lambda>(k, v). (k, sint v)) (Iterate t), Returned) \<and>
        (length bs \<le> maxAlloc \<longrightarrow> Deserialize maxAlloc bs = Inr t))"
proof -
  have "wf_trie New" by (simp add: wf_trie_def New_def newTrieNode_def ordered_def)
  from insert_all_adds [OF this, of es] obtain t where t: "insert_all es New = Some t" "wf_trie t" by blast
  have plain: "Multiplier t = 1" "Divider t = 1" using insert_all_plain [OF t(1)] by (simp_all add: New_def)
  have d: "(word_of_int (Divider t) :: u64) \<noteq> 0" using plain by simp
  obtain bs where bs: "Bytes t = Some bs" using serialize_loop_bytes [OF d] by (simp add: Bytes_def Serialize_def del: serialize_loop.simps)
  have calls: "calls_of (scale t) [] (root t) = map (\<lambda>(k, v). (k, sint v)) (Iterate t)"
    using iterate_loop_entries [of "[[]]" "[root t]"]
    by (simp add: calls_of_def scale_plain [OF plain] Iterate_def del: iterate_loop.simps)
  have same: "\<lparr>Multiplier = 1, Divider = 1, root = scale_node (scale t) (root t)\<rparr> = t"
    using plain by (simp add: scale_plain scale_node_plain)
  show ?thesis
    using t(1) bs IterateRaw_bytes [OF t(2) d bs] Deserialize_bytes [OF t(2) d bs] calls same by auto
qed

theorem trie_wire_round_trip_witness:
  "\<exists>t bs. insert_all [([1, 2], 3), ([1, 3], 4), ([1, 2], 5)] New = Some t \<and> Bytes t = Some bs \<and> length bs = 15 \<and>
     IterateRaw bs [] = ([([1, 2], 8), ([1, 3], 4)], Returned) \<and> Deserialize 1024 bs = Inr t"
proof -
  define t where "t = New\<lparr>root := Node [] 0 [Node [1] 0 [Node [2] 8 [], Node [3] 4 []]]\<rparr>"
  have t: "insert_all [([1, 2], 3), ([1, 3], 4), ([1, 2], 5)] New = Some t" unfolding t_def by code_simp
  have bs: "Bytes t = Some [0, 0, 1, 1, 1, 0, 2, 1, 2, 8, 0, 1, 3, 4, 0]" unfolding t_def by code_simp
  have it: "Iterate t = [([1, 2], 8), ([1, 3], 4)]" unfolding t_def by code_simp
  from trie_wire_round_trip [of "[([1, 2], 3), ([1, 3], 4), ([1, 2], 5)]" 1024] t bs it show ?thesis by simp
qed

end
