(* ===== verification/Spy_Event.thy ===== *)
theory Spy_Event
  imports Prelude
begin

text \<open>
  The event that travels from a session to a detector on the Go side (\<open>spyevent.go\<close>) and the labels a detector
  makes of it (\<open>attribute_map.go\<close>). An event holds at most 20 typed key-value pairs; the accessors answer with the
  first pair of a key, zero when its type is not theirs.
\<close>

section \<open>Events\<close>

datatype ValueType =
    ValueType_NONE | ValueType_INT8 | ValueType_INT16 | ValueType_INT32 | ValueType_INT64
  | ValueType_UINT8 | ValueType_UINT16 | ValueType_UINT32 | ValueType_UINT64
  | ValueType_CHARBUF | ValueType_BYTEBUF | ValueType_FLOAT | ValueType_DOUBLE | ValueType_BOOL

record KeyValue =
  Key :: string
  KvType :: ValueType
  Value :: bytes

record TaskInfo =
  ti_Pid :: u32
  ti_Tid :: u32
  ti_Comm :: bytes
  ti_ContainerId :: bytes
  ti_ContainerName :: bytes
  ti_NameSpace :: bytes
  ti_Stack :: bytes
  ti_Latency :: u32

record ClassInfo =
  ClassName :: string
  ClassEvent :: string

definition SpyEventFieldMax :: nat where "SpyEventFieldMax = 20"

record SpyEvent =
  EvName :: string
  TimeStamp :: u64
  Class :: ClassInfo
  Task :: TaskInfo
  ParamsCnt :: u16
  UserAttributes :: "KeyValue list"

text \<open>The zero values of the structs.\<close>

definition zero_kv :: KeyValue where
  "zero_kv = \<lparr>Key = [], KvType = ValueType_NONE, Value = []\<rparr>"

definition zero_task :: TaskInfo where
  "zero_task = \<lparr>ti_Pid = 0, ti_Tid = 0, ti_Comm = [], ti_ContainerId = [], ti_ContainerName = [], ti_NameSpace = [],
     ti_Stack = [], ti_Latency = 0\<rparr>"

definition empty_event :: SpyEvent where
  "empty_event = \<lparr>EvName = [], TimeStamp = 0, Class = \<lparr>ClassName = [], ClassEvent = []\<rparr>, Task = zero_task,
     ParamsCnt = 0, UserAttributes = replicate SpyEventFieldMax zero_kv\<rparr>"

definition GetPid :: "SpyEvent \<Rightarrow> u32" where "GetPid s = ti_Pid (Task s)"
definition GetTid :: "SpyEvent \<Rightarrow> u32" where "GetTid s = ti_Tid (Task s)"
definition GetComm :: "SpyEvent \<Rightarrow> bytes" where "GetComm s = ti_Comm (Task s)"

text \<open>The byte order is found by a conversion of a value, not of memory.\<close>

definition GetByteOrder :: byte_order where
  "GetByteOrder =
     (let s = 0x1234 :: u16; littleVal = 0x34 :: u8
      in if littleVal = (ucast (ucast s :: 8 word) :: u8) then Little else Big)"

section \<open>Setting attributes\<close>

text \<open>The error of a full event, and the event.\<close>

definition SetUserAttribute :: "KeyValue \<Rightarrow> SpyEvent \<Rightarrow> string option \<times> SpyEvent" where
  "SetUserAttribute kv s =
     (if ParamsCnt s > of_nat (SpyEventFieldMax - 1) then (Some ''exceeded the max user attrubute size'', s)
      else (None, s\<lparr>UserAttributes := (UserAttributes s)[unat (ParamsCnt s) := kv], ParamsCnt := ParamsCnt s + 1\<rparr>))"

definition SetUserAttributeWithUint32 :: "string \<Rightarrow> u32 \<Rightarrow> SpyEvent \<Rightarrow> SpyEvent" where
  "SetUserAttributeWithUint32 key val s =
     snd (SetUserAttribute \<lparr>Key = key, KvType = ValueType_UINT32, Value = store_bytes GetByteOrder 4 val\<rparr> s)"

definition SetUserAttributeWithInt32 :: "string \<Rightarrow> s32 \<Rightarrow> SpyEvent \<Rightarrow> SpyEvent" where
  "SetUserAttributeWithInt32 key val s =
     snd (SetUserAttribute \<lparr>Key = key, KvType = ValueType_UINT32, Value = store_bytes GetByteOrder 4 val\<rparr> s)"

definition SetUserAttributeWithByteBuf :: "string \<Rightarrow> bytes \<Rightarrow> SpyEvent \<Rightarrow> SpyEvent" where
  "SetUserAttributeWithByteBuf key val s = snd (SetUserAttribute \<lparr>Key = key, KvType = ValueType_BYTEBUF, Value = val\<rparr> s)"

definition SetUserAttributeWithUint64 :: "string \<Rightarrow> u64 \<Rightarrow> SpyEvent \<Rightarrow> SpyEvent" where
  "SetUserAttributeWithUint64 key val s =
     snd (SetUserAttribute \<lparr>Key = key, KvType = ValueType_UINT64, Value = store_bytes GetByteOrder 8 val\<rparr> s)"

definition SetUserAttributeWithInt64 :: "string \<Rightarrow> s64 \<Rightarrow> SpyEvent \<Rightarrow> SpyEvent" where
  "SetUserAttributeWithInt64 key val s =
     snd (SetUserAttribute \<lparr>Key = key, KvType = ValueType_INT64, Value = store_bytes GetByteOrder 8 val\<rparr> s)"

section \<open>Reading attributes\<close>

fun find_attribute :: "nat \<Rightarrow> string \<Rightarrow> u16 \<Rightarrow> KeyValue list \<Rightarrow> KeyValue option" where
  "find_attribute i key cnt [] = None"
| "find_attribute i key cnt (kv # kvs) =
     (if i + 1 > unat cnt then None
      else if Key kv = key then Some kv
      else find_attribute (i + 1) key cnt kvs)"

definition GetUserAttribute :: "string \<Rightarrow> SpyEvent \<Rightarrow> KeyValue option" where
  "GetUserAttribute key s =
     (if ParamsCnt s = 0 then None else find_attribute 0 key (ParamsCnt s) (UserAttributes s))"

text \<open>Accessors of a pair that may be nil.\<close>

definition GetKey :: "KeyValue option \<Rightarrow> string" where
  "GetKey kv = (case kv of Some kv \<Rightarrow> Key kv | None \<Rightarrow> [])"

definition GetValueType :: "KeyValue option \<Rightarrow> ValueType" where
  "GetValueType kv = (case kv of Some kv \<Rightarrow> KvType kv | None \<Rightarrow> ValueType_NONE)"

definition GetValue :: "KeyValue option \<Rightarrow> bytes" where
  "GetValue kv = (case kv of Some kv \<Rightarrow> Value kv | None \<Rightarrow> [])"

text \<open>A number of a fixed width at the front of a slice; a slice that is too short is a panic.\<close>

definition load_front :: "nat \<Rightarrow> bytes \<Rightarrow> 'a::len word option" where
  "load_front n bs = (if length bs < n then None else Some (load_bytes GetByteOrder (take n bs)))"

definition GetUintValue :: "KeyValue \<Rightarrow> u64 option" where
  "GetUintValue kv =
     (case KvType kv of
        ValueType_UINT8 \<Rightarrow> map_option (\<lambda>v :: u8. ucast v) (load_front 1 (Value kv))
      | ValueType_UINT16 \<Rightarrow> map_option (\<lambda>v :: u16. ucast v) (load_front 2 (Value kv))
      | ValueType_UINT32 \<Rightarrow> map_option (\<lambda>v :: u32. ucast v) (load_front 4 (Value kv))
      | ValueType_UINT64 \<Rightarrow> load_front 8 (Value kv)
      | _ \<Rightarrow> Some 0)"

definition GetIntValue :: "KeyValue \<Rightarrow> s64 option" where
  "GetIntValue kv =
     (case KvType kv of
        ValueType_INT8 \<Rightarrow> map_option (\<lambda>v :: u8. scast v) (load_front 1 (Value kv))
      | ValueType_INT16 \<Rightarrow> map_option (\<lambda>v :: u16. scast v) (load_front 2 (Value kv))
      | ValueType_INT32 \<Rightarrow> map_option (\<lambda>v :: u32. scast v) (load_front 4 (Value kv))
      | ValueType_INT64 \<Rightarrow> load_front 8 (Value kv)
      | _ \<Rightarrow> Some 0)"

definition GetUintUserAttribute :: "string \<Rightarrow> SpyEvent \<Rightarrow> u64 option" where
  "GetUintUserAttribute key s = (case GetUserAttribute key s of Some kv \<Rightarrow> GetUintValue kv | None \<Rightarrow> Some 0)"

definition GetIntUserAttribute :: "string \<Rightarrow> SpyEvent \<Rightarrow> s64 option" where
  "GetIntUserAttribute key s = (case GetUserAttribute key s of Some kv \<Rightarrow> GetIntValue kv | None \<Rightarrow> Some 0)"

section \<open>Labels\<close>

text \<open>The values of an attribute map; integers have 64 bits with a sign.\<close>

datatype AttributeValue = stringValue bytes | intValue s64 | boolValue bool

type_synonym AttributeMap = "string \<rightharpoonup> AttributeValue"

definition NewAttributeMap :: AttributeMap where "NewAttributeMap = Map.empty"

definition HasAttribute :: "string \<Rightarrow> AttributeMap \<Rightarrow> bool" where
  "HasAttribute key a \<longleftrightarrow> a key \<noteq> None"

definition GetStringValue :: "string \<Rightarrow> AttributeMap \<Rightarrow> bytes" where
  "GetStringValue key a = (case a key of Some (stringValue x) \<Rightarrow> x | _ \<Rightarrow> [])"

definition AddStringValue :: "string \<Rightarrow> bytes \<Rightarrow> AttributeMap \<Rightarrow> AttributeMap" where
  "AddStringValue key val a = a(key \<mapsto> stringValue val)"

definition GetAttrIntValue :: "string \<Rightarrow> AttributeMap \<Rightarrow> s64" where
  "GetAttrIntValue key a = (case a key of Some (intValue x) \<Rightarrow> x | _ \<Rightarrow> 0)"

definition AddIntValue :: "string \<Rightarrow> s64 \<Rightarrow> AttributeMap \<Rightarrow> AttributeMap" where
  "AddIntValue key val a = a(key \<mapsto> intValue val)"

section \<open>Blocks\<close>

record Metric =
  MetricName :: string
  IntData :: s64

record DataBlock =
  BlockName :: string
  Metrics :: "Metric list"
  Labels :: AttributeMap
  Timestamp :: u64

definition NewIntMetric :: "string \<Rightarrow> s64 \<Rightarrow> Metric" where
  "NewIntMetric name val = \<lparr>MetricName = name, IntData = val\<rparr>"

definition NewDataBlock :: "string \<Rightarrow> AttributeMap \<Rightarrow> u64 \<Rightarrow> Metric list \<Rightarrow> DataBlock" where
  "NewDataBlock name labels ts metrics = \<lparr>BlockName = name, Metrics = metrics, Labels = labels, Timestamp = ts\<rparr>"

section \<open>A bounded sequence\<close>

text \<open>What a client of an event relies on: a value is appended while there is room and dropped afterwards.\<close>

locale bounded_sequence =
  fixes put :: "'a \<Rightarrow> 's \<Rightarrow> 's" and items :: "'s \<Rightarrow> 'a list" and good :: "'s \<Rightarrow> bool" and limit :: nat
  assumes good_put: "good s \<Longrightarrow> good (put x s)"
    and items_bounded: "good s \<Longrightarrow> length (items s) \<le> limit"
    and items_put: "good s \<Longrightarrow> items (put x s) = (if length (items s) < limit then items s @ [x] else items s)"
begin

lemma put_all_good: "good s \<Longrightarrow> good (fold put xs s)"
  by (induction xs arbitrary: s) (simp_all add: good_put)

lemma items_put_all: "good s \<Longrightarrow> items (fold put xs s) = take limit (items s @ xs)"
proof (induction xs arbitrary: s)
  case Nil
  then show ?case by (simp add: items_bounded)
next
  case (Cons x xs)
  show ?case
  proof (cases "length (items s) < limit")
    case True
    then show ?thesis using Cons good_put by (simp add: items_put take_Cons')
  next
    case False
    then have "length (items s) = limit" using items_bounded [OF Cons.prems] by simp
    then show ?thesis using Cons good_put by (simp add: items_put)
  qed
qed

end

definition set_attribute :: "KeyValue \<Rightarrow> SpyEvent \<Rightarrow> SpyEvent" where
  "set_attribute kv s = snd (SetUserAttribute kv s)"

definition attributes :: "SpyEvent \<Rightarrow> KeyValue list" where
  "attributes s = take (unat (ParamsCnt s)) (UserAttributes s)"

definition wf_event :: "SpyEvent \<Rightarrow> bool" where
  "wf_event s \<longleftrightarrow> length (UserAttributes s) = SpyEventFieldMax \<and> unat (ParamsCnt s) \<le> SpyEventFieldMax"

lemma room: "ParamsCnt s > of_nat (SpyEventFieldMax - 1) \<longleftrightarrow> \<not> unat (ParamsCnt s) < SpyEventFieldMax"
  by (simp add: SpyEventFieldMax_def word_less_nat_alt) arith

interpretation event: bounded_sequence set_attribute attributes wf_event SpyEventFieldMax
proof
  fix s kv
  assume wf: "wf_event s"
  have inc: "unat (ParamsCnt s + 1) = Suc (unat (ParamsCnt s))" if "unat (ParamsCnt s) < SpyEventFieldMax"
    using that by (intro unat_inc [of _ SpyEventFieldMax]) (simp_all add: SpyEventFieldMax_def)
  show "wf_event (set_attribute kv s)" using wf inc by (auto simp: set_attribute_def SetUserAttribute_def wf_event_def room [simplified])
  show "length (attributes s) \<le> SpyEventFieldMax" using wf by (simp add: wf_event_def attributes_def)
  show "attributes (set_attribute kv s) = (if length (attributes s) < SpyEventFieldMax then attributes s @ [kv] else attributes s)"
    using wf inc by (auto simp: set_attribute_def SetUserAttribute_def wf_event_def attributes_def room [simplified] take_Suc_conv_app_nth)
qed

lemma wf_empty_event [simp]: "wf_event empty_event" "attributes empty_event = []"
  by (simp_all add: wf_event_def empty_event_def attributes_def SpyEventFieldMax_def)

lemma set_attribute_frame [simp]:
  "EvName (set_attribute kv s) = EvName s" "TimeStamp (set_attribute kv s) = TimeStamp s"
  "Class (set_attribute kv s) = Class s" "Task (set_attribute kv s) = Task s"
  by (simp_all add: set_attribute_def SetUserAttribute_def)

lemma fold_set_attribute_frame [simp]:
  "EvName (fold set_attribute kvs s) = EvName s" "TimeStamp (fold set_attribute kvs s) = TimeStamp s"
  "Class (fold set_attribute kvs s) = Class s" "Task (fold set_attribute kvs s) = Task s"
  by (induction kvs arbitrary: s) simp_all

text \<open>The pair each setter appends.\<close>

definition kv_u32 :: "string \<Rightarrow> u32 \<Rightarrow> KeyValue" where
  "kv_u32 key val = \<lparr>Key = key, KvType = ValueType_UINT32, Value = store_bytes GetByteOrder 4 val\<rparr>"

definition kv_u64 :: "string \<Rightarrow> u64 \<Rightarrow> KeyValue" where
  "kv_u64 key val = \<lparr>Key = key, KvType = ValueType_UINT64, Value = store_bytes GetByteOrder 8 val\<rparr>"

definition kv_i64 :: "string \<Rightarrow> s64 \<Rightarrow> KeyValue" where
  "kv_i64 key val = \<lparr>Key = key, KvType = ValueType_INT64, Value = store_bytes GetByteOrder 8 val\<rparr>"

definition kv_buf :: "string \<Rightarrow> bytes \<Rightarrow> KeyValue" where
  "kv_buf key val = \<lparr>Key = key, KvType = ValueType_BYTEBUF, Value = val\<rparr>"

lemma setters:
  "SetUserAttributeWithUint32 key v32 = set_attribute (kv_u32 key v32)" "SetUserAttributeWithInt32 key v32 = set_attribute (kv_u32 key v32)"
  "SetUserAttributeWithUint64 key v64 = set_attribute (kv_u64 key v64)" "SetUserAttributeWithInt64 key v64 = set_attribute (kv_i64 key v64)"
  "SetUserAttributeWithByteBuf key bs = set_attribute (kv_buf key bs)"
  by (simp_all add: fun_eq_iff set_attribute_def kv_u32_def kv_u64_def kv_i64_def kv_buf_def SetUserAttributeWithUint32_def
      SetUserAttributeWithInt32_def SetUserAttributeWithUint64_def SetUserAttributeWithInt64_def SetUserAttributeWithByteBuf_def)

lemma load_front_store [simp]: "8 * n = LENGTH('a) \<Longrightarrow> load_front n (store_bytes GetByteOrder n (w :: 'a::len word)) = Some w"
proof -
  assume n: "8 * n = LENGTH('a)"
  have "length (store_bytes GetByteOrder n w) = n" by (cases GetByteOrder) (simp_all add: store_bytes_def)
  then show ?thesis using n by (simp add: load_front_def load_store)
qed

lemma kv_values [simp]:
  "Key (kv_u32 key v32) = key" "Key (kv_u64 key v64) = key" "Key (kv_i64 key v64) = key" "Key (kv_buf key bs) = key"
  "GetUintValue (kv_u32 key v32) = Some (ucast v32)" "GetUintValue (kv_u64 key v64) = Some v64" "GetUintValue (kv_buf key bs) = Some 0"
  "GetIntValue (kv_i64 key v64) = Some v64" "GetIntValue (kv_u32 key v32) = Some 0" "Value (kv_buf key bs) = bs"
  by (simp_all add: kv_u32_def kv_u64_def kv_i64_def kv_buf_def GetUintValue_def GetIntValue_def)

text \<open>A lookup answers with the first pair of the key among those set.\<close>

lemma find_attribute_find:
  "find_attribute i key cnt kvs = find (\<lambda>kv. Key kv = key) (take (unat cnt - i) kvs)"
proof (induction i key cnt kvs rule: find_attribute.induct)
  case (2 i key cnt kv kvs)
  then show ?case by (auto simp: take_Cons')
qed simp

lemma GetUserAttribute_find: "GetUserAttribute key s = find (\<lambda>kv. Key kv = key) (attributes s)"
  by (simp add: GetUserAttribute_def attributes_def find_attribute_find)

text \<open>The byte order is little-endian on every machine.\<close>

lemma GetByteOrder_little: "GetByteOrder = Little"
  by (simp add: GetByteOrder_def)

section \<open>Properties\<close>

text \<open>C30. What a session puts into an event is what a detector gets out: of any sequence of 32-bit, 64-bit and byte
  attributes the first 20 are kept, in order, with their bytes, and the rest are dropped; a lookup returns the
  first value of its key, widened to 64 bits, and zero for a key that is not there. A signed 32-bit attribute is
  stored as an unsigned one: reading it as signed gives zero.\<close>

theorem event_attributes_round_trip:
  "attributes (fold set_attribute kvs empty_event) = take SpyEventFieldMax kvs \<and>
    GetUserAttribute key (fold set_attribute kvs empty_event) = find (\<lambda>kv. Key kv = key) (take SpyEventFieldMax kvs) \<and>
    GetUintUserAttribute key (SetUserAttributeWithUint32 key v32 empty_event) = Some (ucast v32) \<and>
    GetUintUserAttribute key (SetUserAttributeWithUint64 key v64 empty_event) = Some v64 \<and>
    GetIntUserAttribute key (SetUserAttributeWithInt64 key v64 empty_event) = Some v64 \<and>
    GetIntUserAttribute key (SetUserAttributeWithInt32 key v32 empty_event) = Some 0 \<and>
    GetValue (GetUserAttribute key (SetUserAttributeWithByteBuf key bs empty_event)) = bs"
proof -
  have items: "attributes (fold set_attribute kvs empty_event) = take SpyEventFieldMax kvs"
    using event.items_put_all [of empty_event kvs] by simp
  have one: "attributes (set_attribute kv empty_event) = [kv]" for kv
    using event.items_put [of empty_event kv] by (simp add: SpyEventFieldMax_def)
  show ?thesis
    using items
    by (simp add: GetUserAttribute_find GetUintUserAttribute_def GetIntUserAttribute_def GetValue_def setters one)
qed

end
