(* ===== verification/Go_Events.thy ===== *)
theory Go_Events
  imports Spy_Event Wire_Offcpu Syscall_Table
begin

text \<open>
  The sessions of offcpu, futexsnoop and syscall (\<open>offcpu.go\<close>, \<open>futexsnoop.go\<close>, \<open>syscall.go\<close>): \<open>HandleEvent\<close>
  turns a record from the perf buffer into an event for the detector. The clock, the stack map and the symbol
  lookup of \<open>WalkStack\<close> are given by the environment.
\<close>

section \<open>Stacks\<close>

record session_env =
  Now :: u64
  HasSymSession :: bool
  mapStacks :: "u32 \<Rightarrow> bytes option"
  WalkStack :: "bytes \<Rightarrow> u32 \<Rightarrow> bool \<Rightarrow> bytes"

definition getStack :: "session_env \<Rightarrow> s32 \<Rightarrow> bytes option" where
  "getStack env stackId = (if sint stackId < 0 then None else mapStacks env stackId)"

text \<open>What \<open>ResolveStack\<close> appends to the buffer; its errors are dropped by the callers.\<close>

definition ResolveStack :: "session_env \<Rightarrow> s32 \<Rightarrow> u32 \<Rightarrow> bool \<Rightarrow> bytes" where
  "ResolveStack env stackId pid userspace =
     (if \<not> HasSymSession env then []
      else case getStack env stackId of None \<Rightarrow> [] | Some stk \<Rightarrow> WalkStack env stk pid userspace)"

definition dashes :: bytes where "dashes = [0x2D, 0x2D, 0x2D, 0x2D]"

section \<open>Decoded structs\<close>

text \<open>A record that does not decode is logged and leaves the struct zero; its event is sent all the same.\<close>

definition decoded :: "nat list \<Rightarrow> bytes \<Rightarrow> bytes list" where
  "decoded sizes data =
     (case binary_read sizes data of Some fs \<Rightarrow> fs | None \<Rightarrow> map (\<lambda>n. replicate n 0) sizes)"

text \<open>A Go string literal as bytes.\<close>

definition bytes_of :: "string \<Rightarrow> bytes" where
  "bytes_of s = map (\<lambda>c. of_nat (of_char c)) s"

definition DetectorCpuType :: string where "DetectorCpuType = ''detector_cpu''"
definition OffCpu :: string where "OffCpu = ''offcpu''"
definition FutexSnoop :: string where "FutexSnoop = ''futexsnoop''"
definition SyscallName :: string where "SyscallName = ''syscall''"

definition new_event :: "session_env \<Rightarrow> string \<Rightarrow> SpyEvent" where
  "new_event env name = empty_event\<lparr>EvName := name, TimeStamp := Now env,
     Class := \<lparr>ClassName = DetectorCpuType, ClassEvent = name\<rparr>\<rparr>"

text \<open>Calls on one event, one after the other.\<close>

definition calls :: "(SpyEvent \<Rightarrow> SpyEvent) list \<Rightarrow> SpyEvent \<Rightarrow> SpyEvent" where
  "calls fs s = fold (\<lambda>f s. f s) fs s"

section \<open>The sessions\<close>

text \<open>The number in a field of a decoded struct.\<close>

abbreviation u32_at :: "bytes list \<Rightarrow> nat \<Rightarrow> u32" where "u32_at fs i \<equiv> of_le_bytes (fs ! i)"
abbreviation u64_at :: "bytes list \<Rightarrow> nat \<Rightarrow> u64" where "u64_at fs i \<equiv> of_le_bytes (fs ! i)"

text \<open>offcpu: the fields of the waker are at 0, those of the target at 14, and the rest at 28.\<close>

definition dump_event :: "session_env \<Rightarrow> u32 \<Rightarrow> nat \<times> bytes list \<Rightarrow> SpyEvent" where
  "dump_event env cpu x = (case x of (i, record) \<Rightarrow>
     calls [SetUserAttributeWithUint32 ''cpu'' cpu,
            (\<lambda>s. s\<lparr>Task := (Task s)\<lparr>ti_Tid := u32_at record 0, ti_Comm := record ! 2\<rparr>\<rparr>),
            SetUserAttributeWithUint32 ''cache_id'' (of_nat i),
            SetUserAttributeWithUint64 ''ts'' (u64_at record 3),
            SetUserAttributeWithUint32 ''prio'' (u32_at record 1)]
       (new_event env OffCpu))"

definition offcpu_event :: "session_env \<Rightarrow> bytes list \<Rightarrow> SpyEvent" where
  "offcpu_event env ev =
     calls [(\<lambda>s. s\<lparr>Task := (Task s)\<lparr>ti_Pid := u32_at ev 15, ti_Tid := u32_at ev 14, ti_Comm := ev ! 21\<rparr>\<rparr>),
            SetUserAttributeWithUint32 ''w_tid'' (u32_at ev 0),
            SetUserAttributeWithUint32 ''w_pid'' (u32_at ev 1),
            SetUserAttributeWithUint32 ''w_onrq_oncpu'' (ucast (u64_at ev 8 - u64_at ev 10)),
            SetUserAttributeWithUint32 ''w_offcpu_oncpu'' (ucast (u64_at ev 8 - u64_at ev 9)),
            SetUserAttributeWithByteBuf ''w_comm'' (ev ! 7),
            SetUserAttributeWithByteBuf ''w_stack''
              (ResolveStack env (u32_at ev 6) 0 False @ dashes @ ResolveStack env (u32_at ev 5) (u32_at ev 1) True),
            SetUserAttributeWithUint32 ''t_tid'' (u32_at ev 14),
            SetUserAttributeWithUint32 ''t_pid'' (u32_at ev 15),
            SetUserAttributeWithUint32 ''t_onrq_oncpu'' (ucast (u64_at ev 22 - u64_at ev 24)),
            SetUserAttributeWithUint32 ''t_offcpu_oncpu'' (ucast (u64_at ev 22 - u64_at ev 23)),
            SetUserAttributeWithByteBuf ''t_comm'' (ev ! 21),
            SetUserAttributeWithUint64 ''t_start_time'' (u64_at ev 23),
            SetUserAttributeWithUint64 ''ts'' (u64_at ev 30),
            SetUserAttributeWithUint64 ''dur_ms'' (u64_at ev 28),
            SetUserAttributeWithUint64 ''rq_dur_ms'' (u64_at ev 29),
            SetUserAttributeWithByteBuf ''t_stack''
              (ResolveStack env (u32_at ev 20) 0 False @ dashes @ ResolveStack env (u32_at ev 19) (u32_at ev 15) True)]
       (new_event env OffCpu)"

text \<open>The events sent to the detector, in order; the ring dump of a processor is read from its map.\<close>

definition offcpu_HandleEvent :: "session_env \<Rightarrow> (u32 \<Rightarrow> bytes option) \<Rightarrow> bytes \<Rightarrow> SpyEvent list" where
  "offcpu_HandleEvent env mapSchedCacheDump data =
     (let ev = decoded OffCpuEvent data
      in (if u32_at ev 31 = 1 then map (dump_event env (u32_at ev 32)) (schedCacheDump (mapSchedCacheDump (u32_at ev 32))) else []) @
         [offcpu_event env ev])"

text \<open>futexsnoop: a lock record or a task record.\<close>

definition futex_event_of :: "session_env \<Rightarrow> futex_msg option \<Rightarrow> SpyEvent" where
  "futex_event_of env msg =
     (case msg of
        None \<Rightarrow> new_event env FutexSnoop
      | Some (Lock_msg l) \<Rightarrow>
          calls [(\<lambda>s. s\<lparr>Task := (Task s)\<lparr>ti_Pid := ucast (drop_bit 32 (u64_at l 4)), ti_Tid := ucast (u64_at l 4), ti_Comm := l ! 3\<rparr>\<rparr>),
                 SetUserAttributeWithUint32 ''user_cnt'' (u32_at l 0),
                 SetUserAttributeWithUint32 ''max_user_cnt'' (u32_at l 1),
                 SetUserAttributeWithUint64 ''lock_addr'' (u64_at l 2),
                 SetUserAttributeWithUint64 ''min_dur'' 0,
                 SetUserAttributeWithUint64 ''max_dur'' 0,
                 SetUserAttributeWithUint64 ''delta_dur'' 0,
                 SetUserAttributeWithUint64 ''avg_dur'' 0,
                 SetUserAttributeWithUint64 ''lock_cnt'' 0,
                 SetUserAttributeWithByteBuf ''stack'' []]
            (new_event env FutexSnoop)
      | Some (Task_msg t) \<Rightarrow>
          let contended = u64_at t 29;
              avg = (if contended = 0 then 0 else u64_at t 30 div contended)
          in calls [(\<lambda>s. s\<lparr>Task := (Task s)\<lparr>ti_Pid := ucast (drop_bit 32 (u64_at t 25)), ti_Tid := ucast (u64_at t 25), ti_Comm := t ! 24\<rparr>\<rparr>),
                    SetUserAttributeWithUint32 ''user_cnt'' 0,
                    SetUserAttributeWithUint32 ''max_user_cnt'' 0,
                    SetUserAttributeWithUint64 ''lock_addr'' (u64_at t 26),
                    SetUserAttributeWithUint64 ''min_dur'' (u64_at t 31),
                    SetUserAttributeWithUint64 ''max_dur'' (u64_at t 32),
                    SetUserAttributeWithUint64 ''delta_dur'' (u64_at t 33),
                    SetUserAttributeWithUint64 ''avg_dur'' avg,
                    SetUserAttributeWithUint64 ''lock_cnt'' contended,
                    (\<lambda>s. SetUserAttributeWithByteBuf ''stack'' (ResolveStack env (u32_at t 27) (GetPid s) True) s)]
               (new_event env FutexSnoop))"

definition futexsnoop_HandleEvent :: "session_env \<Rightarrow> bytes \<Rightarrow> SpyEvent" where
  "futexsnoop_HandleEvent env data = futex_event_of env (futex_HandleEvent data)"

text \<open>syscall: the name of the system call by its number.\<close>

definition syscall_HandleEvent :: "session_env \<Rightarrow> goarch \<Rightarrow> bytes \<Rightarrow> SpyEvent" where
  "syscall_HandleEvent env arch data =
     (let ev = decoded SyscallEvent data
      in calls [(\<lambda>s. s\<lparr>Task := (Task s)\<lparr>ti_Pid := u32_at ev 0, ti_Tid := u32_at ev 1, ti_Comm := ev ! 7\<rparr>\<rparr>),
                SetUserAttributeWithUint64 ''dur_us'' (u64_at ev 3),
                SetUserAttributeWithUint32 ''pid'' (u32_at ev 0),
                SetUserAttributeWithByteBuf ''comm'' (ev ! 7),
                SetUserAttributeWithByteBuf ''syscall'' (bytes_of (SyscallIdToName arch (u32_at ev 6))),
                (\<lambda>s. SetUserAttributeWithByteBuf ''stack''
                   (ResolveStack env (ucast (u64_at ev 5)) 0 False @ dashes @ ResolveStack env (ucast (u64_at ev 4)) (GetPid s) True) s)]
           (new_event env SyscallName))"

section \<open>The attributes of an event\<close>

lemma new_event_simps [simp]:
  "wf_event (new_event env name)" "attributes (new_event env name) = []" "EvName (new_event env name) = name"
  "Task (new_event env name) = zero_task" "TimeStamp (new_event env name) = Now env"
  using wf_empty_event by (simp_all add: new_event_def wf_event_def attributes_def) (simp_all add: empty_event_def)

lemma task_frame [simp]: "wf_event (s\<lparr>Task := t\<rparr>) = wf_event s" "attributes (s\<lparr>Task := t\<rparr>) = attributes s"
  by (simp_all add: wf_event_def attributes_def)

text \<open>A sequence of calls collects the pairs that it sets.\<close>

definition built :: "(SpyEvent \<Rightarrow> SpyEvent) list \<Rightarrow> KeyValue list \<Rightarrow> SpyEvent \<Rightarrow> SpyEvent" where
  "built fs kvs s = calls fs (fold set_attribute kvs s)"

lemma calls_built: "calls fs s = built fs [] s"
  by (simp add: built_def)

lemma built_Nil: "built [] kvs s = fold set_attribute kvs s"
  by (simp add: built_def calls_def)

lemma built_set: "built ((\<lambda>s. set_attribute (g s) s) # fs) kvs s = built fs (kvs @ [g (fold set_attribute kvs s)]) s"
  by (simp add: built_def calls_def)

lemma built_task: "built ((\<lambda>s. s\<lparr>Task := g s\<rparr>) # fs) kvs s = built fs kvs (s\<lparr>Task := g (fold set_attribute kvs s)\<rparr>)"
proof -
  have "(set_attribute kv s)\<lparr>Task := t\<rparr> = set_attribute kv (s\<lparr>Task := t\<rparr>)" for kv s t
    by (simp add: set_attribute_def SetUserAttribute_def)
  then have "(fold set_attribute kvs s)\<lparr>Task := t\<rparr> = fold set_attribute kvs (s\<lparr>Task := t\<rparr>)" for t
    by (induction kvs arbitrary: s) simp_all
  then show ?thesis by (simp add: built_def calls_def)
qed

lemmas sending = calls_built built_task built_set built_Nil setters event.items_put_all event.put_all_good SpyEventFieldMax_def

lemma offcpu_event_attributes:
  "attributes (offcpu_event env ev) =
    [kv_u32 ''w_tid'' (u32_at ev 0), kv_u32 ''w_pid'' (u32_at ev 1),
     kv_u32 ''w_onrq_oncpu'' (ucast (u64_at ev 8 - u64_at ev 10)), kv_u32 ''w_offcpu_oncpu'' (ucast (u64_at ev 8 - u64_at ev 9)),
     kv_buf ''w_comm'' (ev ! 7),
     kv_buf ''w_stack'' (ResolveStack env (u32_at ev 6) 0 False @ dashes @ ResolveStack env (u32_at ev 5) (u32_at ev 1) True),
     kv_u32 ''t_tid'' (u32_at ev 14), kv_u32 ''t_pid'' (u32_at ev 15),
     kv_u32 ''t_onrq_oncpu'' (ucast (u64_at ev 22 - u64_at ev 24)), kv_u32 ''t_offcpu_oncpu'' (ucast (u64_at ev 22 - u64_at ev 23)),
     kv_buf ''t_comm'' (ev ! 21), kv_u64 ''t_start_time'' (u64_at ev 23), kv_u64 ''ts'' (u64_at ev 30),
     kv_u64 ''dur_ms'' (u64_at ev 28), kv_u64 ''rq_dur_ms'' (u64_at ev 29),
     kv_buf ''t_stack'' (ResolveStack env (u32_at ev 20) 0 False @ dashes @ ResolveStack env (u32_at ev 19) (u32_at ev 15) True)]"
  "wf_event (offcpu_event env ev)" "EvName (offcpu_event env ev) = OffCpu" "TimeStamp (offcpu_event env ev) = Now env"
  by (simp_all add: offcpu_event_def sending del: fold.simps fold_simps)

lemma dump_event_attributes:
  "attributes (dump_event env cpu (i, record)) =
    [kv_u32 ''cpu'' cpu, kv_u32 ''cache_id'' (of_nat i), kv_u64 ''ts'' (u64_at record 3), kv_u32 ''prio'' (u32_at record 1)]"
  "wf_event (dump_event env cpu (i, record))" "EvName (dump_event env cpu (i, record)) = OffCpu"
  "Task (dump_event env cpu (i, record)) = zero_task\<lparr>ti_Tid := u32_at record 0, ti_Comm := record ! 2\<rparr>"
  by (simp_all add: dump_event_def sending del: fold.simps fold_simps)

lemma futex_lock_attributes:
  "attributes (futex_event_of env (Some (Lock_msg l))) =
    [kv_u32 ''user_cnt'' (u32_at l 0), kv_u32 ''max_user_cnt'' (u32_at l 1), kv_u64 ''lock_addr'' (u64_at l 2),
     kv_u64 ''min_dur'' 0, kv_u64 ''max_dur'' 0, kv_u64 ''delta_dur'' 0, kv_u64 ''avg_dur'' 0, kv_u64 ''lock_cnt'' 0, kv_buf ''stack'' []]"
  "wf_event (futex_event_of env (Some (Lock_msg l)))" "EvName (futex_event_of env (Some (Lock_msg l))) = FutexSnoop"
  "Task (futex_event_of env (Some (Lock_msg l))) =
     zero_task\<lparr>ti_Pid := ucast (drop_bit 32 (u64_at l 4)), ti_Tid := ucast (u64_at l 4), ti_Comm := l ! 3\<rparr>"
  by (simp_all add: futex_event_of_def sending del: fold.simps fold_simps)

lemma futex_task_attributes:
  "attributes (futex_event_of env (Some (Task_msg t))) =
    [kv_u32 ''user_cnt'' 0, kv_u32 ''max_user_cnt'' 0, kv_u64 ''lock_addr'' (u64_at t 26), kv_u64 ''min_dur'' (u64_at t 31),
     kv_u64 ''max_dur'' (u64_at t 32), kv_u64 ''delta_dur'' (u64_at t 33),
     kv_u64 ''avg_dur'' (if u64_at t 29 = 0 then 0 else u64_at t 30 div u64_at t 29), kv_u64 ''lock_cnt'' (u64_at t 29),
     kv_buf ''stack'' (ResolveStack env (u32_at t 27) (ucast (drop_bit 32 (u64_at t 25))) True)]"
  "wf_event (futex_event_of env (Some (Task_msg t)))" "EvName (futex_event_of env (Some (Task_msg t))) = FutexSnoop"
  "Task (futex_event_of env (Some (Task_msg t))) =
     zero_task\<lparr>ti_Pid := ucast (drop_bit 32 (u64_at t 25)), ti_Tid := ucast (u64_at t 25), ti_Comm := t ! 24\<rparr>"
  by (simp_all add: futex_event_of_def Let_def sending GetPid_def del: fold.simps fold_simps)

end
