(* ===== verification/Cpu_Detector.thy ===== *)
theory Cpu_Detector
  imports Go_Events Trie_Wire "HOL-Library.AList"
begin

text \<open>
  The CPU detector of the Go side (\<open>cpudetector.go\<close>): it turns the events of the sessions into labelled data blocks
  for its consumers, adds up sampled stacks in a trie per application, and uploads the tries with a ticker. A panic
  is \<open>None\<close>. \<open>trieLock\<close> is held over a whole insertion and a whole upload, so the two are steps.
\<close>

section \<open>State\<close>

record UploadJob =
  JobName :: string
  StartTime :: int
  EndTime :: int
  SpyName :: string
  SampleRate :: u32
  JobTrie :: Trie

text \<open>The map of tries is an association list, in the order in which the program ranges over it. \<open>uploaded\<close> collects
  the jobs given to the upstream, \<open>ticking\<close> says that the goroutine of the ticker runs.\<close>

record CpuDetector =
  Server :: string
  previousTries :: "(string \<times> Trie option list) list"
  tries :: "(string \<times> Trie list) list"
  upstream :: bool
  ticking :: bool
  startTimeTruncated :: "int option"
  uploadRate :: int
  sampleRate :: u32
  uploaded :: "UploadJob list"

definition DefaultServer :: string where "DefaultServer = ''http://localhost:4040''"
definition OnCpu :: string where "OnCpu = ''oncpu''"
definition IrqOff :: string where "IrqOff = ''irqoff''"

definition initializeTries :: "string \<Rightarrow> CpuDetector \<Rightarrow> CpuDetector" where
  "initializeTries appName c =
     (if map_of (previousTries c) appName = None
      then c\<lparr>previousTries := AList.update appName [None] (previousTries c), tries := AList.update appName [New] (tries c)\<rparr>
      else c)"

definition NewCpuDetector :: CpuDetector where
  "NewCpuDetector =
     (initializeTries OnCpu
        \<lparr>Server = [], previousTries = [], tries = [], upstream = False, ticking = False, startTimeTruncated = None,
         uploadRate = 0, sampleRate = 0, uploaded = []\<rparr>)\<lparr>uploadRate := 10000000000\<rparr>"

text \<open>\<open>Init\<close> with the configuration of oncpu, the server, or with another one; \<open>remote.New\<close> may fail.\<close>

definition Init :: "string option \<Rightarrow> string option \<Rightarrow> CpuDetector \<Rightarrow> string option \<times> CpuDetector" where
  "Init conf remote_err c =
     (case conf of
        None \<Rightarrow> (None, c)
      | Some server \<Rightarrow>
          let c = c\<lparr>Server := server\<rparr>
          in if Server c \<noteq> DefaultServer then (None, c)
             else case remote_err of
                 Some err \<Rightarrow> (Some (''new remote upstream: '' @ err), c)
               | None \<Rightarrow> (None, c\<lparr>upstream := True, ticking := True\<rparr>))"

section \<open>Uploads\<close>

text \<open>The tries of an application: those with stacks are given to the upstream, which must be there, and all are
  replaced.\<close>

fun upload_loop :: "string \<Rightarrow> int \<Rightarrow> CpuDetector \<Rightarrow> Trie list \<Rightarrow> (UploadJob list \<times> Trie list) option" where
  "upload_loop suffixed endTime c [] = Some ([], [])"
| "upload_loop suffixed endTime c (ti # tarr) =
     (case upload_loop suffixed endTime c tarr of
        None \<Rightarrow> None
      | Some (jobs, fresh) \<Rightarrow>
          if \<not> IsEmpty ti
          then if upstream c
               then Some (\<lparr>JobName = suffixed, StartTime = endTime - uploadRate c, EndTime = endTime, SpyName = ''ebpfspy'',
                           SampleRate = sampleRate c, JobTrie = ti\<rparr> # jobs, New # fresh)
               else None
          else Some (jobs, New # fresh))"

fun upload_apps :: "string \<Rightarrow> int \<Rightarrow> CpuDetector \<Rightarrow> (string \<times> Trie list) list \<Rightarrow> (UploadJob list \<times> (string \<times> Trie list) list) option" where
  "upload_apps suffixed endTime c [] = Some ([], [])"
| "upload_apps suffixed endTime c ((name, tarr) # apps) =
     (case upload_loop suffixed endTime c tarr of
        None \<Rightarrow> None
      | Some (jobs, fresh) \<Rightarrow> map_option (\<lambda>(jobs', apps'). (jobs @ jobs', (name, fresh) # apps')) (upload_apps suffixed endTime c apps))"

definition UploadTries :: "string \<Rightarrow> int \<Rightarrow> CpuDetector \<Rightarrow> CpuDetector option" where
  "UploadTries suffixed endTimeTruncated c =
     (if startTimeTruncated c \<noteq> None
      then map_option (\<lambda>(jobs, apps). c\<lparr>tries := apps, uploaded := uploaded c @ jobs, startTimeTruncated := Some endTimeTruncated\<rparr>)
             (upload_apps suffixed endTimeTruncated c (tries c))
      else Some (c\<lparr>startTimeTruncated := Some endTimeTruncated\<rparr>))"

section \<open>Labels\<close>

text \<open>The loops over the attributes of an event: the pairs that are set, unless the counter is beyond the array.\<close>

definition set_pairs :: "SpyEvent \<Rightarrow> KeyValue list option" where
  "set_pairs e = (if unat (ParamsCnt e) \<le> length (UserAttributes e) then Some (take (unat (ParamsCnt e)) (UserAttributes e)) else None)"

fun label_loop :: "(KeyValue \<Rightarrow> AttributeMap \<Rightarrow> AttributeMap option) \<Rightarrow> KeyValue list \<Rightarrow> AttributeMap \<Rightarrow> AttributeMap option" where
  "label_loop f [] labels = Some labels"
| "label_loop f (kv # kvs) labels = (case f kv labels of None \<Rightarrow> None | Some labels' \<Rightarrow> label_loop f kvs labels')"

definition int_label :: "string \<Rightarrow> KeyValue \<Rightarrow> AttributeMap \<Rightarrow> AttributeMap option" where
  "int_label name kv labels = map_option (\<lambda>v. AddIntValue name v labels) (GetUintValue kv)"

definition str_label :: "string \<Rightarrow> KeyValue \<Rightarrow> AttributeMap \<Rightarrow> AttributeMap option" where
  "str_label name kv labels = Some (AddStringValue name (Value kv) labels)"

text \<open>\<open>strings.Replace\<close> of the zero byte by nothing.\<close>

definition strip0 :: "bytes \<Rightarrow> bytes" where
  "strip0 bs = filter (\<lambda>b. b \<noteq> 0) bs"

definition add_task_labels :: "SpyEvent \<Rightarrow> AttributeMap \<Rightarrow> AttributeMap" where
  "add_task_labels e labels =
     AddStringValue ''comm'' (strip0 (ti_Comm (Task e)))
       (AddIntValue ''tid'' (ucast (ti_Tid (Task e))) (AddIntValue ''pid'' (ucast (ti_Pid (Task e))) labels))"

definition syscall_label :: "KeyValue \<Rightarrow> AttributeMap \<Rightarrow> AttributeMap option" where
  "syscall_label kv labels =
     (if Key kv = ''dur_us'' then int_label ''dur_us'' kv labels
      else if Key kv = ''syscall'' then str_label ''syscall'' kv labels
      else if Key kv = ''stack'' then str_label ''stack'' kv labels
      else Some labels)"

definition formatSyscallLabels :: "SpyEvent \<Rightarrow> AttributeMap option" where
  "formatSyscallLabels e =
     Option.bind (set_pairs e) (\<lambda>kvs. map_option (add_task_labels e) (label_loop syscall_label kvs NewAttributeMap))"

definition futex_label :: "KeyValue \<Rightarrow> AttributeMap \<Rightarrow> AttributeMap option" where
  "futex_label kv labels =
     (if Key kv = ''user_cnt'' then int_label ''user_cnt'' kv labels
      else if Key kv = ''max_user_cnt'' then int_label ''max_user_cnt'' kv labels
      else if Key kv = ''lock_addr'' then int_label ''lock_addr'' kv labels
      else if Key kv = ''min_dur'' then int_label ''min_dur'' kv labels
      else if Key kv = ''max_dur'' then int_label ''max_dur'' kv labels
      else if Key kv = ''delta_dur'' then int_label ''delta_dur'' kv labels
      else if Key kv = ''avg_dur'' then int_label ''avg_dur'' kv labels
      else if Key kv = ''lock_cnt'' then int_label ''lock_cnt'' kv labels
      else if Key kv = ''stack'' then str_label ''stack'' kv labels
      else Some labels)"

definition formatFutexSnoopLabels :: "SpyEvent \<Rightarrow> AttributeMap option" where
  "formatFutexSnoopLabels e =
     Option.bind (set_pairs e) (\<lambda>kvs. map_option (add_task_labels e) (label_loop futex_label kvs NewAttributeMap))"

text \<open>A point in time since boot is shown as text by \<open>BootOffsetToTime\<close> and \<open>Format\<close>.\<close>

definition offcpu_label :: "(u64 \<Rightarrow> bytes) \<Rightarrow> KeyValue \<Rightarrow> AttributeMap \<Rightarrow> AttributeMap option" where
  "offcpu_label fmt kv labels =
     (if Key kv = ''t_start_time'' then map_option (\<lambda>v. AddStringValue ''start_ts'' (fmt v) labels) (GetUintValue kv)
      else if Key kv = ''cpu'' then int_label ''cpu'' kv labels
      else if Key kv = ''prio'' then int_label ''prio'' kv labels
      else if Key kv = ''cache_id'' then int_label ''cache_id'' kv labels
      else if Key kv = ''ts'' then map_option (\<lambda>v. AddStringValue ''ts'' (fmt v) labels) (GetUintValue kv)
      else if Key kv = ''dur_ms'' then int_label ''dur_ms'' kv labels
      else if Key kv = ''rq_dur_ms'' then int_label ''rq_dur_ms'' kv labels
      else if Key kv = ''w_comm'' then Some (AddStringValue ''waker'' (strip0 (Value kv)) labels)
      else if Key kv = ''w_tid'' then int_label ''waker_tid'' kv labels
      else if Key kv = ''w_pid'' then int_label ''waker_pid'' kv labels
      else if Key kv = ''w_stack'' then str_label ''waker_stack'' kv labels
      else if Key kv = ''t_comm'' then Some (AddStringValue ''wakee'' (strip0 (Value kv)) labels)
      else if Key kv = ''t_tid'' then int_label ''wakee_tid'' kv labels
      else if Key kv = ''t_pid'' then int_label ''wakee_pid'' kv labels
      else if Key kv = ''t_stack'' then str_label ''wakee_stack'' kv labels
      else if Key kv = ''t_onrq_oncpu'' then map_option (\<lambda>v. AddIntValue ''wakee_runqlat_us'' (v div 1000) labels) (GetUintValue kv)
      else if Key kv = ''t_offcpu_oncpu'' then map_option (\<lambda>v. AddIntValue ''wakee_offcpu_us'' (v div 1000) labels) (GetUintValue kv)
      else Some labels)"

definition formatOffcpuLabels :: "(u64 \<Rightarrow> bytes) \<Rightarrow> SpyEvent \<Rightarrow> AttributeMap option" where
  "formatOffcpuLabels fmt e = Option.bind (set_pairs e) (\<lambda>kvs. label_loop (offcpu_label fmt) kvs NewAttributeMap)"

section \<open>Handlers\<close>

definition metric_block :: "string \<Rightarrow> string \<Rightarrow> string \<Rightarrow> SpyEvent \<Rightarrow> AttributeMap \<Rightarrow> DataBlock option" where
  "metric_block name metric key e labels =
     map_option (\<lambda>val. NewDataBlock name labels (TimeStamp e) [NewIntMetric metric val]) (GetUintUserAttribute key e)"

definition futexsnoopHandler :: "SpyEvent \<Rightarrow> DataBlock option" where
  "futexsnoopHandler e = Option.bind (formatFutexSnoopLabels e) (metric_block FutexSnoop ''max_futex_user_cnt'' ''max_user_cnt'' e)"

definition syscallHandler :: "SpyEvent \<Rightarrow> DataBlock option" where
  "syscallHandler e = Option.bind (formatSyscallLabels e) (metric_block SyscallName ''syscall_dur_us'' ''dur_us'' e)"

definition offcpuHandler :: "(u64 \<Rightarrow> bytes) \<Rightarrow> SpyEvent \<Rightarrow> DataBlock option" where
  "offcpuHandler fmt e = Option.bind (formatOffcpuLabels fmt e) (metric_block OffCpu ''offcpu_dur_ms'' ''dur_ms'' e)"

text \<open>A sampled stack: the count and the stack of the event, the labels, and the sample rate, which stays in the detector.\<close>

fun oncpu_loop :: "KeyValue list \<Rightarrow> u64 \<times> bytes \<times> AttributeMap \<times> u32 \<Rightarrow> (u64 \<times> bytes \<times> AttributeMap \<times> u32) option" where
  "oncpu_loop [] x = Some x"
| "oncpu_loop (kv # kvs) (count, stk, labels, rate) =
     (if Key kv = ''count''
      then Option.bind (GetUintValue kv) (\<lambda>v. oncpu_loop kvs (v, stk, AddIntValue ''count'' v labels, rate))
      else if Key kv = ''stack'' then oncpu_loop kvs (count, Value kv, AddStringValue ''stack'' (Value kv) labels, rate)
      else if Key kv = ''sampleRate'' then Option.bind (GetUintValue kv) (\<lambda>v. oncpu_loop kvs (count, stk, labels, ucast v))
      else oncpu_loop kvs (count, stk, labels, rate))"

text \<open>The callback that \<open>ProcessEvent\<close> passes: an insertion into the first trie of the application.\<close>

definition insert_stack :: "string \<Rightarrow> bytes \<Rightarrow> u64 \<Rightarrow> CpuDetector \<Rightarrow> CpuDetector option" where
  "insert_stack appName stk v c =
     (if length stk > 0
      then let c = (if map_of (tries c) appName = None then initializeTries appName c else c)
           in case map_of (tries c) appName of
             Some (t # ts) \<Rightarrow>
               map_option (\<lambda>t'. c\<lparr>tries := AList.update appName (t' # ts) (tries c)\<rparr>) (Insert stk v [True] t)
           | _ \<Rightarrow> None
      else Some c)"

definition oncpuHandler :: "SpyEvent \<Rightarrow> CpuDetector \<Rightarrow> (CpuDetector \<times> DataBlock option) option" where
  "oncpuHandler e c =
     Option.bind (Option.bind (set_pairs e) (\<lambda>kvs. oncpu_loop kvs (0, [], NewAttributeMap, sampleRate c)))
       (\<lambda>(count, stk, labels, rate).
          let c = c\<lparr>sampleRate := rate\<rparr>
          in if Server c \<noteq> DefaultServer then map_option (\<lambda>c. (c, None)) (insert_stack (EvName e) stk count c)
             else Some (c, Some (NewDataBlock OnCpu (add_task_labels e labels) (TimeStamp e) [NewIntMetric ''oncpu_hit_count'' count])))"

text \<open>The consumers get a block one after the other until one fails; the result is the blocks handed out and the error.\<close>

fun send_all :: "(DataBlock \<Rightarrow> string option) list \<Rightarrow> DataBlock \<Rightarrow> DataBlock list \<times> string option" where
  "send_all [] b = ([], None)"
| "send_all (con # cons) b =
     (case con b of
        Some err \<Rightarrow> ([b], Some err)
      | None \<Rightarrow> (case send_all cons b of (bs, err) \<Rightarrow> (b # bs, err)))"

definition send_block :: "(DataBlock \<Rightarrow> string option) list \<Rightarrow> DataBlock option \<Rightarrow> DataBlock list \<times> string option" where
  "send_block consumers blk = (case blk of None \<Rightarrow> ([], None) | Some b \<Rightarrow> send_all consumers b)"

definition ProcessEvent ::
  "(u64 \<Rightarrow> bytes) \<Rightarrow> (DataBlock \<Rightarrow> string option) list \<Rightarrow> SpyEvent \<Rightarrow> CpuDetector \<Rightarrow> (CpuDetector \<times> DataBlock list \<times> string option) option" where
  "ProcessEvent fmt consumers e c =
     (if EvName e = OffCpu then map_option (\<lambda>b. (c, send_block consumers (Some b))) (offcpuHandler fmt e)
      else if EvName e = OnCpu then map_option (\<lambda>(c, blk). (c, send_block consumers blk)) (oncpuHandler e c)
      else if EvName e = IrqOff then Some (c, [], None)
      else if EvName e = FutexSnoop then map_option (\<lambda>b. (c, send_block consumers (Some b))) (futexsnoopHandler e)
      else if EvName e = SyscallName then map_option (\<lambda>b. (c, send_block consumers (Some b))) (syscallHandler e)
      else Some (c, [], None))"

section \<open>Runs of a detector\<close>

datatype det_ev = Event SpyEvent | Tick int

definition det_step ::
  "(u64 \<Rightarrow> bytes) \<Rightarrow> (DataBlock \<Rightarrow> string option) list \<Rightarrow> string \<Rightarrow> det_ev \<Rightarrow> CpuDetector \<Rightarrow> CpuDetector option" where
  "det_step fmt consumers suffixed ev c =
     (case ev of
        Event e \<Rightarrow> map_option fst (ProcessEvent fmt consumers e c)
      | Tick t \<Rightarrow> if ticking c then UploadTries suffixed t c else Some c)"

fun det_run ::
  "(u64 \<Rightarrow> bytes) \<Rightarrow> (DataBlock \<Rightarrow> string option) list \<Rightarrow> string \<Rightarrow> det_ev list \<Rightarrow> CpuDetector \<Rightarrow> CpuDetector option" where
  "det_run fmt consumers suffixed [] c = Some c"
| "det_run fmt consumers suffixed (ev # evs) c =
     (case det_step fmt consumers suffixed ev c of None \<Rightarrow> None | Some c' \<Rightarrow> det_run fmt consumers suffixed evs c')"

text \<open>An event whose numbers have the width of their type, as the setters make it, and the sample it carries.\<close>

definition typed_event :: "SpyEvent \<Rightarrow> bool" where
  "typed_event e \<longleftrightarrow> wf_event e \<and> list_all (\<lambda>kv. GetUintValue kv \<noteq> None) (attributes e)"

fun typed_ev :: "det_ev \<Rightarrow> bool" where
  "typed_ev (Event e) \<longleftrightarrow> typed_event e"
| "typed_ev (Tick t) \<longleftrightarrow> True"

fun samples_of :: "det_ev \<Rightarrow> (bytes \<times> u64) list" where
  "samples_of (Event e) =
     (if EvName e = OnCpu
      then case oncpu_loop (attributes e) (0, [], NewAttributeMap, 0) of Some (count, stk, _) \<Rightarrow> [(stk, count)] | None \<Rightarrow> []
      else [])"
| "samples_of (Tick t) = []"

lemma set_pairs_wf: "wf_event e \<Longrightarrow> set_pairs e = Some (attributes e)"
  by (simp add: set_pairs_def wf_event_def attributes_def)

lemma label_loop_total: "(\<And>kv l. kv \<in> set kvs \<Longrightarrow> f kv l \<noteq> None) \<Longrightarrow> \<exists>l'. label_loop f kvs l = Some l'"
proof (induction kvs arbitrary: l)
  case (Cons kv kvs)
  then obtain l1 where "f kv l = Some l1" by fastforce
  with Cons show ?case by auto
qed simp

lemma oncpu_loop_total:
  "list_all (\<lambda>kv. GetUintValue kv \<noteq> None) kvs \<Longrightarrow>
     \<exists>count stk l. \<forall>rate. \<exists>r'. oncpu_loop kvs (n, s, labels, rate) = Some (count, stk, l, r')"
proof (induction kvs arbitrary: n s labels)
  case (Cons kv kvs)
  then obtain v where v: "GetUintValue kv = Some v" by auto
  have ih: "\<exists>count stk l. \<forall>rate. \<exists>r'. oncpu_loop kvs (n, s, labels, rate) = Some (count, stk, l, r')" for n s labels
    using Cons by simp
  consider (count) "Key kv = ''count''" | (stack) "Key kv = ''stack''" | (rate) "Key kv = ''sampleRate''"
    | (other) "Key kv \<noteq> ''count''" "Key kv \<noteq> ''stack''" "Key kv \<noteq> ''sampleRate''" by blast
  then show ?case
  proof cases
    case count
    then show ?thesis using ih [of v s "AddIntValue ''count'' v labels"] v by simp
  next
    case stack
    then show ?thesis using ih [of n "Value kv" "AddStringValue ''stack'' (Value kv) labels"] by simp
  next
    case rate
    then show ?thesis using ih [of n s labels] v by simp (metis)
  next
    case other
    then show ?thesis using ih [of n s labels] by simp
  qed
qed simp

lemma find_Some_in: "find P xs = Some x \<Longrightarrow> x \<in> set xs"
  by (auto simp: find_Some_iff)

lemma block_total: "typed_event e \<Longrightarrow> \<exists>b. metric_block name metric key e labels = Some b"
  by (auto simp: metric_block_def GetUintUserAttribute_def GetUserAttribute_find typed_event_def list_all_iff
      split: option.splits dest: find_Some_in)

lemma handlers_total:
  assumes "typed_event e"
  shows "\<exists>b. offcpuHandler fmt e = Some b" and "\<exists>b. futexsnoopHandler e = Some b" and "\<exists>b. syscallHandler e = Some b"
proof -
  have num: "GetUintValue kv \<noteq> None" if "kv \<in> set (attributes e)" for kv
    using assms that by (auto simp: typed_event_def list_all_iff)
  have pairs: "set_pairs e = Some (attributes e)" using assms by (simp add: typed_event_def set_pairs_wf)
  have "\<exists>l. label_loop (offcpu_label fmt) (attributes e) NewAttributeMap = Some l"
    using num by (intro label_loop_total) (simp add: offcpu_label_def int_label_def str_label_def)
  moreover have "\<exists>l. label_loop futex_label (attributes e) NewAttributeMap = Some l"
    using num by (intro label_loop_total) (simp add: futex_label_def int_label_def str_label_def)
  moreover have "\<exists>l. label_loop syscall_label (attributes e) NewAttributeMap = Some l"
    using num by (intro label_loop_total) (simp add: syscall_label_def int_label_def str_label_def)
  ultimately show "\<exists>b. offcpuHandler fmt e = Some b" "\<exists>b. futexsnoopHandler e = Some b" "\<exists>b. syscallHandler e = Some b"
    using block_total [OF assms]
    by (auto simp: offcpuHandler_def futexsnoopHandler_def syscallHandler_def formatOffcpuLabels_def formatFutexSnoopLabels_def
        formatSyscallLabels_def pairs)
qed

text \<open>The state of a detector that has been given a server: one trie, of the sampled stacks, which stays new when the
  server is the default one; only then does the ticker run.\<close>

definition det_inv :: "string \<Rightarrow> Trie \<Rightarrow> CpuDetector \<Rightarrow> bool" where
  "det_inv server t c \<longleftrightarrow> Server c = server \<and> tries c = [(OnCpu, [t])] \<and> wf_trie t \<and> uploaded c = [] \<and>
     (ticking c \<longrightarrow> server = DefaultServer) \<and> (server = DefaultServer \<longrightarrow> t = New)"

lemma insert_all_append: "insert_all (xs @ ys) t = Option.bind (insert_all xs t) (insert_all ys)"
  by (induction xs t rule: insert_all.induct) (auto split: option.split)

lemma det_step_inv:
  assumes "det_inv server t c" and "typed_ev ev"
  shows "\<exists>c' t'. det_step fmt consumers suffixed ev c = Some c' \<and> det_inv server t' c' \<and>
    (server \<noteq> DefaultServer \<longrightarrow> insert_all (samples_of ev) t = Some t')"
proof (cases ev)
  case (Tick x)
  have "UploadTries suffixed x c = Some (c\<lparr>startTimeTruncated := Some x\<rparr>)" if "ticking c"
    using assms(1) that by (auto simp: det_inv_def UploadTries_def IsEmpty_def New_def newTrieNode_def)
  then show ?thesis using Tick assms(1) by (auto simp: det_step_def det_inv_def)
next
  case (Event e)
  then have typed: "typed_event e" using assms(2) by simp
  show ?thesis
  proof (cases "EvName e = OnCpu")
    case False
    obtain b1 b2 b3 where "offcpuHandler fmt e = Some b1" "futexsnoopHandler e = Some b2" "syscallHandler e = Some b3"
      using handlers_total [OF typed] by blast
    then have "det_step fmt consumers suffixed ev c = Some c"
      using Event False by (simp add: det_step_def ProcessEvent_def)
    then show ?thesis using assms(1) Event False by auto
  next
    case True
    have pairs: "set_pairs e = Some (attributes e)" using typed by (simp add: typed_event_def set_pairs_wf)
    from oncpu_loop_total [of "attributes e" 0 "[]" NewAttributeMap] typed obtain count stk l where
      loop: "\<forall>rate. \<exists>r'. oncpu_loop (attributes e) (0, [], NewAttributeMap, rate) = Some (count, stk, l, r')"
      by (auto simp: typed_event_def)
    then obtain r' where r': "oncpu_loop (attributes e) (0, [], NewAttributeMap, sampleRate c) = Some (count, stk, l, r')" by blast
    have smp: "samples_of ev = [(stk, count)]"
      using loop [rule_format, of 0] Event True by auto
    have step: "det_step fmt consumers suffixed ev c = map_option fst (oncpuHandler e c)"
      using Event True by (simp add: det_step_def ProcessEvent_def OnCpu_def OffCpu_def option.map_comp comp_def split_beta)
    obtain t' where t': "insert_all [(stk, count)] t = Some t'" "wf_trie t'"
      using insert_all_adds [of t "[(stk, count)]"] assms(1) by (auto simp: det_inv_def)
    show ?thesis
    proof (cases "server = DefaultServer")
      case d: True
      then show ?thesis using step assms(1) pairs r'
        by (auto simp: oncpuHandler_def det_inv_def Let_def)
    next
      case d: False
      have "insert_stack OnCpu stk count (c\<lparr>sampleRate := r'\<rparr>) = Some (c\<lparr>sampleRate := r', tries := [(OnCpu, [t'])]\<rparr>)"
        using assms(1) t'(1) by (auto simp: insert_stack_def det_inv_def Let_def split: if_splits option.splits)
      then show ?thesis using step assms(1) pairs r' d True t' smp
        by (auto simp: oncpuHandler_def det_inv_def Let_def)
    qed
  qed
qed

lemma det_run_inv:
  "det_inv server t c \<Longrightarrow> list_all typed_ev evs \<Longrightarrow>
     \<exists>c' t'. det_run fmt consumers suffixed evs c = Some c' \<and> det_inv server t' c' \<and>
       (server \<noteq> DefaultServer \<longrightarrow> insert_all (concat (map samples_of evs)) t = Some t')"
proof (induction evs arbitrary: c t)
  case (Cons ev evs)
  from det_step_inv [OF Cons.prems(1)] Cons.prems(2) obtain c1 t1 where c1:
    "det_step fmt consumers suffixed ev c = Some c1" "det_inv server t1 c1"
    "server \<noteq> DefaultServer \<longrightarrow> insert_all (samples_of ev) t = Some t1" by fastforce
  from Cons.IH [OF c1(2)] Cons.prems(2) c1 show ?case by (auto simp: insert_all_append)
qed auto

lemma Init_inv:
  assumes "Init (Some server) remote_err NewCpuDetector = (err, c)"
  shows "det_inv server New c"
  using assms
  by (auto simp: Init_def NewCpuDetector_def initializeTries_def det_inv_def Let_def wf_trie_def New_def newTrieNode_def ordered_def
      split: if_splits option.splits)

section \<open>Properties\<close>

text \<open>C21. No profile is ever uploaded. Whatever server the detector is configured with and whatever well-typed events and
  ticks follow, it does not panic and gives no job to the upstream: with the default server the ticker runs but
  no stack is inserted, and with any other server the stacks are added up in a trie that no ticker
  empties.\<close>

theorem profile_never_uploaded:
  assumes "Init (Some server) remote_err NewCpuDetector = (err, c0)" and "list_all typed_ev evs"
  shows "\<exists>c t. det_run fmt consumers suffixed evs c0 = Some c \<and> uploaded c = [] \<and> tries c = [(OnCpu, [t])] \<and>
    (server = DefaultServer \<longrightarrow> IsEmpty t) \<and>
    (server \<noteq> DefaultServer \<longrightarrow> \<not> ticking c \<and> insert_all (concat (map samples_of evs)) New = Some t)"
  using det_run_inv [OF Init_inv [OF assms(1)] assms(2), of fmt consumers suffixed]
  by (auto simp: det_inv_def IsEmpty_def New_def newTrieNode_def)

definition sample_event :: SpyEvent where
  "sample_event = SetUserAttributeWithUint32 ''count'' 3
     (SetUserAttributeWithByteBuf ''stack'' [97, 98] (empty_event\<lparr>EvName := OnCpu\<rparr>))"

lemma sample_event_simps: "EvName sample_event = OnCpu" "wf_event sample_event"
  "attributes sample_event = [kv_buf ''stack'' [97, 98], kv_u32 ''count'' 3]"
proof -
  have "wf_event (empty_event\<lparr>EvName := OnCpu\<rparr>)" "attributes (empty_event\<lparr>EvName := OnCpu\<rparr>) = []"
    using wf_empty_event by (simp_all add: wf_event_def attributes_def)
  then show "EvName sample_event = OnCpu" "wf_event sample_event"
    "attributes sample_event = [kv_buf ''stack'' [97, 98], kv_u32 ''count'' 3]"
    by (simp_all add: sample_event_def setters event.good_put event.items_put SpyEventFieldMax_def)
qed

theorem profile_never_uploaded_witness:
  "\<exists>c t. det_run (\<lambda>_. []) [] ''aa.cpu'' [Event sample_event, Tick 10, Tick 20]
       (snd (Init (Some ''http://profiles:4040'') None NewCpuDetector)) = Some c \<and>
     uploaded c = [] \<and> tries c = [(OnCpu, [t])] \<and> \<not> ticking c \<and> insert_all [([97, 98], 3)] New = Some t"
proof -
  have "samples_of (Event sample_event) = [([97, 98], 3)]" by (simp add: sample_event_simps)
  moreover have "list_all typed_ev [Event sample_event, Tick 10, Tick 20]" by (simp add: typed_event_def sample_event_simps)
  ultimately show ?thesis
    using profile_never_uploaded [of "''http://profiles:4040''" None "fst (Init (Some ''http://profiles:4040'') None NewCpuDetector)"
        "snd (Init (Some ''http://profiles:4040'') None NewCpuDetector)" "[Event sample_event, Tick 10, Tick 20]" "\<lambda>_. []" "[]" "''aa.cpu''"]
    by (auto simp: DefaultServer_def)
qed

end
