(* ===== verification/Cpu_Pipeline.thy ===== *)
theory Cpu_Pipeline
  imports Cpu_Detector
begin

text \<open>
  From the kernel to the exporters: the records that the programs send in a run, as the sessions decode them and the
  detector labels them. The theorems here join the kernel programs, the wire format, the sessions and the
  detector.
\<close>

section \<open>The blocks of session events\<close>

text \<open>An event with a handler of its own: its block goes to the consumers and the detector stays as it is.\<close>

lemma process_block:
  "EvName e = OffCpu \<Longrightarrow> offcpuHandler fmt e = Some b \<Longrightarrow> ProcessEvent fmt consumers e c = Some (c, send_all consumers b)"
  "EvName e = FutexSnoop \<Longrightarrow> futexsnoopHandler e = Some b \<Longrightarrow> ProcessEvent fmt consumers e c = Some (c, send_all consumers b)"
  "EvName e = SyscallName \<Longrightarrow> syscallHandler e = Some b \<Longrightarrow> ProcessEvent fmt consumers e c = Some (c, send_all consumers b)"
  by (simp_all add: ProcessEvent_def send_block_def OffCpu_def OnCpu_def IrqOff_def FutexSnoop_def SyscallName_def)

lemmas labelling = label_loop.simps int_label_def str_label_def AddIntValue_def AddStringValue_def NewAttributeMap_def

text \<open>The labels of an offcpu event, from the fields of its record.\<close>

definition offcpu_labels :: "(u64 \<Rightarrow> bytes) \<Rightarrow> session_env \<Rightarrow> bytes list \<Rightarrow> AttributeMap" where
  "offcpu_labels fmt env ev =
    [''waker_tid'' \<mapsto> intValue (ucast (u32_at ev 0)), ''waker_pid'' \<mapsto> intValue (ucast (u32_at ev 1)),
     ''waker'' \<mapsto> stringValue (strip0 (ev ! 7)),
     ''waker_stack'' \<mapsto> stringValue (ResolveStack env (u32_at ev 6) 0 False @ dashes @ ResolveStack env (u32_at ev 5) (u32_at ev 1) True),
     ''wakee_tid'' \<mapsto> intValue (ucast (u32_at ev 14)), ''wakee_pid'' \<mapsto> intValue (ucast (u32_at ev 15)),
     ''wakee_runqlat_us'' \<mapsto> intValue (ucast (ucast (u64_at ev 22 - u64_at ev 24) :: u32) div 1000),
     ''wakee_offcpu_us'' \<mapsto> intValue (ucast (ucast (u64_at ev 22 - u64_at ev 23) :: u32) div 1000),
     ''wakee'' \<mapsto> stringValue (strip0 (ev ! 21)), ''start_ts'' \<mapsto> stringValue (fmt (u64_at ev 23)),
     ''ts'' \<mapsto> stringValue (fmt (u64_at ev 30)), ''dur_ms'' \<mapsto> intValue (u64_at ev 28), ''rq_dur_ms'' \<mapsto> intValue (u64_at ev 29),
     ''wakee_stack'' \<mapsto> stringValue (ResolveStack env (u32_at ev 20) 0 False @ dashes @ ResolveStack env (u32_at ev 19) (u32_at ev 15) True)]"

lemma offcpu_block:
  "offcpuHandler fmt (offcpu_event env ev) =
     Some (NewDataBlock OffCpu (offcpu_labels fmt env ev) (Now env) [NewIntMetric ''offcpu_dur_ms'' (u64_at ev 28)])"
proof -
  have "formatOffcpuLabels fmt (offcpu_event env ev) = Some (offcpu_labels fmt env ev)"
    by (simp add: formatOffcpuLabels_def set_pairs_wf offcpu_event_attributes offcpu_label_def labelling offcpu_labels_def)
  then show ?thesis
    by (simp add: offcpuHandler_def metric_block_def GetUintUserAttribute_def GetUserAttribute_find offcpu_event_attributes)
qed

text \<open>A record of a dumped ring: the processor, the index, the time and the priority. The task of the record is in the
  event but in no label.\<close>

lemma dump_block:
  "offcpuHandler fmt (dump_event env cpu (i, record)) =
     Some (NewDataBlock OffCpu
       [''cpu'' \<mapsto> intValue (ucast cpu), ''cache_id'' \<mapsto> intValue (ucast (of_nat i :: u32)), ''ts'' \<mapsto> stringValue (fmt (u64_at record 3)),
        ''prio'' \<mapsto> intValue (ucast (u32_at record 1))]
       (TimeStamp (dump_event env cpu (i, record))) [NewIntMetric ''offcpu_dur_ms'' 0])"
proof -
  have "formatOffcpuLabels fmt (dump_event env cpu (i, record)) =
      Some [''cpu'' \<mapsto> intValue (ucast cpu), ''cache_id'' \<mapsto> intValue (ucast (of_nat i :: u32)), ''ts'' \<mapsto> stringValue (fmt (u64_at record 3)),
        ''prio'' \<mapsto> intValue (ucast (u32_at record 1))]"
    by (simp add: formatOffcpuLabels_def set_pairs_wf dump_event_attributes offcpu_label_def labelling)
  then show ?thesis
    by (simp add: offcpuHandler_def metric_block_def GetUintUserAttribute_def GetUserAttribute_find dump_event_attributes)
qed

section \<open>offcpu\<close>

text \<open>The fields of a sent record as the session reads them.\<close>

lemma perf_event_numbers:
  "u32_at (map snd (perf_event_fields pe)) 0 = waker_pid (pe_waker pe)"
  "u32_at (map snd (perf_event_fields pe)) (Suc 0) = waker_tgid (pe_waker pe)"
  "map snd (perf_event_fields pe) ! 7 = waker_comm (pe_waker pe)"
  "u32_at (map snd (perf_event_fields pe)) 14 = target_pid (pe_target pe)"
  "u32_at (map snd (perf_event_fields pe)) 15 = target_tgid (pe_target pe)"
  "map snd (perf_event_fields pe) ! 21 = target_comm (pe_target pe)"
  "u64_at (map snd (perf_event_fields pe)) 22 = target_oncpu_ns (pe_target pe)"
  "u64_at (map snd (perf_event_fields pe)) 23 = target_offcpu_ns (pe_target pe)"
  "u64_at (map snd (perf_event_fields pe)) 24 = target_onrq_ns (pe_target pe)"
  "u64_at (map snd (perf_event_fields pe)) 28 = pe_dur_ms pe"
  "u64_at (map snd (perf_event_fields pe)) 29 = pe_rq_dur_ms pe"
  "u64_at (map snd (perf_event_fields pe)) 30 = pe_ts_ns pe"
  by (simp_all add: perf_event_fields_def waker_fields_def target_fields_def field_defs of_le_bytes_le_bytes)

lemma offcpu_decoded:
  assumes "pe \<in> set (offcpu_state.perf_out (run offcpu_step es (offcpu_init args)))"
  shows "decoded OffCpuEvent (c_struct 0 (perf_event_fields pe) @ rest) = map snd (perf_event_fields pe)"
proof -
  have "pe_sized pe" using typed.run_inv [OF typed_init, of es args] assms by (simp add: offcpu_typed_def)
  then show ?thesis
    using perf_event_packed [of pe] binary_read_no_padding [of 0 "perf_event_fields pe" rest]
    by (simp add: decoded_def pe_sized_def te_sized_def)
qed

text \<open>A 32-bit number of nanoseconds: exact below 2^32, about 4.3 seconds.\<close>

lemma unat_narrowed: "unat (ucast (ucast (x :: u64) :: u32) div 1000 :: u64) = unat x mod 2 ^ 32 div 1000"
proof -
  have "unat (ucast (ucast x :: u32) :: u64) = unat x mod 2 ^ 32"
    by (simp add: unsigned_ucast_eq unsigned_take_bit_eq) (simp add: take_bit_eq_mod)
  then show ?thesis by (simp add: unat_div)
qed

text \<open>C6. Every sleep that offcpu reports reaches the consumers with its figures: for each record of a run, however many
  bytes the perf buffer adds, the detector hands out a block whose metric and labels are the record's duration,
  run-queue delay, waker and sleeper, their names without zero bytes, and the times of leaving the processor and of the
  report. The microseconds off the processor are the nanoseconds modulo 2^32, so a sleep of 4.3 seconds or more
  wraps around.\<close>

theorem offcpu_labels_faithful:
  assumes "pe \<in> set (offcpu_state.perf_out (run offcpu_step es (offcpu_init args)))"
    and "e = last (offcpu_HandleEvent env rings (c_struct 0 (perf_event_fields pe) @ rest))"
  shows "\<exists>b. ProcessEvent fmt consumers e c = Some (c, send_all consumers b) \<and>
    Metrics b = [NewIntMetric ''offcpu_dur_ms'' (pe_dur_ms pe)] \<and>
    GetAttrIntValue ''dur_ms'' (Labels b) = pe_dur_ms pe \<and> GetAttrIntValue ''rq_dur_ms'' (Labels b) = pe_rq_dur_ms pe \<and>
    GetAttrIntValue ''waker_tid'' (Labels b) = ucast (waker_pid (pe_waker pe)) \<and>
    GetAttrIntValue ''waker_pid'' (Labels b) = ucast (waker_tgid (pe_waker pe)) \<and>
    GetAttrIntValue ''wakee_tid'' (Labels b) = ucast (target_pid (pe_target pe)) \<and>
    GetAttrIntValue ''wakee_pid'' (Labels b) = ucast (target_tgid (pe_target pe)) \<and>
    GetStringValue ''waker'' (Labels b) = strip0 (waker_comm (pe_waker pe)) \<and>
    GetStringValue ''wakee'' (Labels b) = strip0 (target_comm (pe_target pe)) \<and>
    GetStringValue ''start_ts'' (Labels b) = fmt (target_offcpu_ns (pe_target pe)) \<and>
    GetStringValue ''ts'' (Labels b) = fmt (pe_ts_ns pe) \<and>
    unat (GetAttrIntValue ''wakee_offcpu_us'' (Labels b)) =
      unat (pe_ts_ns pe - target_offcpu_ns (pe_target pe)) mod 2 ^ 32 div 1000"
proof -
  let ?ev = "map snd (perf_event_fields pe)"
  have e: "e = offcpu_event env ?ev"
    using assms(2) offcpu_decoded [OF assms(1), of rest] by (simp add: offcpu_HandleEvent_def Let_def)
  have "Offcpu.event_ok args pe"
    using offcpu.run_inv [OF offcpu_inv_init, of args es] assms(1) by (auto simp: offcpu_inv_def)
  then have oncpu: "target_oncpu_ns (pe_target pe) = pe_ts_ns pe" by (simp add: Offcpu.event_ok_def)
  show ?thesis
    unfolding e
    by (rule exI [where x = "NewDataBlock OffCpu (offcpu_labels fmt env ?ev) (Now env) [NewIntMetric ''offcpu_dur_ms'' (u64_at ?ev 28)]"])
      (simp add: ProcessEvent_def offcpu_event_attributes offcpu_block send_block_def NewDataBlock_def offcpu_labels_def
        GetAttrIntValue_def GetStringValue_def perf_event_numbers oncpu unat_narrowed)
qed

theorem offcpu_labels_faithful_witness:
  "\<exists>pe b. pe \<in> set sample_out \<and>
     ProcessEvent (\<lambda>_. []) [\<lambda>_. None] (last (offcpu_HandleEvent \<lparr>Now = 5, HasSymSession = False, mapStacks = (\<lambda>_. None), WalkStack = (\<lambda>_ _ _. [])\<rparr>
         (\<lambda>_. None) (c_struct 0 (perf_event_fields pe) @ [0, 0]))) NewCpuDetector = Some (NewCpuDetector, [b], None) \<and>
     GetAttrIntValue ''dur_ms'' (Labels b) = pe_dur_ms pe \<and> unat (GetAttrIntValue ''wakee_offcpu_us'' (Labels b)) = 3000"
proof -
  obtain pe where pe: "pe \<in> set sample_out" "target_offcpu_ns (pe_target pe) = 1000000" "pe_ts_ns pe = 4000000"
    using sample_out_one by (metis list.set_intros(1))
  from offcpu_labels_faithful [OF pe(1) [unfolded sample_out_def] refl, of "\<lambda>_. []" "[\<lambda>_. None]"] pe show ?thesis by fastforce
qed

section \<open>futexsnoop\<close>

lemma futex_lock_block:
  "futexsnoopHandler (futex_event_of env (Some (Lock_msg l))) =
     Some (NewDataBlock FutexSnoop
       [''user_cnt'' \<mapsto> intValue (ucast (u32_at l 0)), ''max_user_cnt'' \<mapsto> intValue (ucast (u32_at l 1)), ''lock_addr'' \<mapsto> intValue (u64_at l 2),
        ''min_dur'' \<mapsto> intValue 0, ''max_dur'' \<mapsto> intValue 0, ''delta_dur'' \<mapsto> intValue 0, ''avg_dur'' \<mapsto> intValue 0, ''lock_cnt'' \<mapsto> intValue 0,
        ''stack'' \<mapsto> stringValue [], ''pid'' \<mapsto> intValue (ucast (ucast (drop_bit 32 (u64_at l 4)) :: u32)),
        ''tid'' \<mapsto> intValue (ucast (ucast (u64_at l 4) :: u32)), ''comm'' \<mapsto> stringValue (strip0 (l ! 3))]
       (TimeStamp (futex_event_of env (Some (Lock_msg l)))) [NewIntMetric ''max_futex_user_cnt'' (ucast (u32_at l 1))])"
  by (simp add: futexsnoopHandler_def formatFutexSnoopLabels_def set_pairs_wf futex_lock_attributes futex_label_def labelling add_task_labels_def
      metric_block_def GetUintUserAttribute_def GetUserAttribute_find)

lemma futex_task_block:
  "futexsnoopHandler (futex_event_of env (Some (Task_msg t))) =
     Some (NewDataBlock FutexSnoop
       [''user_cnt'' \<mapsto> intValue 0, ''max_user_cnt'' \<mapsto> intValue 0, ''lock_addr'' \<mapsto> intValue (u64_at t 26),
        ''min_dur'' \<mapsto> intValue (u64_at t 31), ''max_dur'' \<mapsto> intValue (u64_at t 32), ''delta_dur'' \<mapsto> intValue (u64_at t 33),
        ''avg_dur'' \<mapsto> intValue (if u64_at t 29 = 0 then 0 else u64_at t 30 div u64_at t 29), ''lock_cnt'' \<mapsto> intValue (u64_at t 29),
        ''stack'' \<mapsto> stringValue (ResolveStack env (u32_at t 27) (ucast (drop_bit 32 (u64_at t 25))) True),
        ''pid'' \<mapsto> intValue (ucast (ucast (drop_bit 32 (u64_at t 25)) :: u32)),
        ''tid'' \<mapsto> intValue (ucast (ucast (u64_at t 25) :: u32)), ''comm'' \<mapsto> stringValue (strip0 (t ! 24))]
       (TimeStamp (futex_event_of env (Some (Task_msg t)))) [NewIntMetric ''max_futex_user_cnt'' 0])"
  by (simp add: futexsnoopHandler_def formatFutexSnoopLabels_def set_pairs_wf futex_task_attributes futex_label_def labelling add_task_labels_def
      metric_block_def GetUintUserAttribute_def GetUserAttribute_find)

lemma lock_stat_numbers:
  "u32_at (map snd (lock_stat_fields l)) 0 = user_cnt l" "u32_at (map snd (lock_stat_fields l)) (Suc 0) = max_user_cnt l"
  "u64_at (map snd (lock_stat_fields l)) 2 = lock_uaddr l" "map snd (lock_stat_fields l) ! 3 = lock_comm l"
  "u64_at (map snd (lock_stat_fields l)) 4 = lock_pid_tgid l"
  by (simp_all add: lock_stat_fields_def field_defs of_le_bytes_le_bytes)

lemma hist_numbers:
  assumes "length (slots h) = 24"
  shows "map snd (hist_fields h) ! 24 = hist_comm h" "u64_at (map snd (hist_fields h)) 25 = hist_pid_tgid h"
    "u64_at (map snd (hist_fields h)) 26 = hist_uaddr h" "u64_at (map snd (hist_fields h)) 29 = contended h"
    "u64_at (map snd (hist_fields h)) 30 = total_elapsed h" "u64_at (map snd (hist_fields h)) 31 = min_dur h"
    "u64_at (map snd (hist_fields h)) 32 = max_dur h" "u64_at (map snd (hist_fields h)) 33 = delta_dur h"
  using assms by (simp_all add: hist_fields_def field_defs of_le_bytes_le_bytes nth_append)

text \<open>C8. Every record of futexsnoop reaches the consumers with its figures: a lock record with its users, its maximum,
  which is also the metric, and the lock; a record of waits with its lock, its number of waits, the shortest, longest
  and average one and the spread; both with process, thread and name of the task that sent it.\<close>

theorem futex_labels_faithful:
  assumes "e \<in> set (futex_state.perf_out (run (futex_step amd) es (futex_init args)))" and "length rest < 8"
  shows "\<exists>b. ProcessEvent fmt consumers (futexsnoop_HandleEvent env (futex_event_image e @ rest)) c = Some (c, send_all consumers b) \<and>
    (\<forall>l. e = Lock_event l \<longrightarrow>
       Metrics b = [NewIntMetric ''max_futex_user_cnt'' (ucast (max_user_cnt l))] \<and>
       GetAttrIntValue ''user_cnt'' (Labels b) = ucast (user_cnt l) \<and> GetAttrIntValue ''max_user_cnt'' (Labels b) = ucast (max_user_cnt l) \<and>
       GetAttrIntValue ''lock_addr'' (Labels b) = lock_uaddr l \<and>
       GetAttrIntValue ''pid'' (Labels b) = ucast (tgid_of (lock_pid_tgid l)) \<and> GetAttrIntValue ''tid'' (Labels b) = ucast (tid_of (lock_pid_tgid l)) \<and>
       GetStringValue ''comm'' (Labels b) = strip0 (lock_comm l)) \<and>
    (\<forall>h. e = Hist_event h \<longrightarrow>
       GetAttrIntValue ''lock_addr'' (Labels b) = hist_uaddr h \<and> GetAttrIntValue ''lock_cnt'' (Labels b) = contended h \<and>
       GetAttrIntValue ''min_dur'' (Labels b) = min_dur h \<and> GetAttrIntValue ''max_dur'' (Labels b) = max_dur h \<and>
       GetAttrIntValue ''delta_dur'' (Labels b) = delta_dur h \<and> unat (GetAttrIntValue ''avg_dur'' (Labels b)) = unat (total_elapsed h) div unat (contended h) \<and>
       GetAttrIntValue ''pid'' (Labels b) = ucast (tgid_of (hist_pid_tgid h)) \<and> GetAttrIntValue ''tid'' (Labels b) = ucast (tid_of (hist_pid_tgid h)) \<and>
       GetStringValue ''comm'' (Labels b) = strip0 (hist_comm h))"
proof -
  have "sized_inv (run (futex_step amd) es (futex_init args))" by (rule sized.run_inv [OF sized_init])
  with assms(1) have sized: "futex_event_sized e" by (simp add: sized_inv_def list_all_iff)
  then have msg: "futexsnoop_HandleEvent env (futex_event_image e @ rest) = futex_event_of env (Some (futex_event_msg e))"
    using futex_record_decodes [OF sized assms(2)] by (simp add: futexsnoop_HandleEvent_def)
  show ?thesis
  proof (cases e)
    case (Lock_event l)
    then show ?thesis
      unfolding msg
      by (intro exI conjI) (simp, rule process_block(2) [OF futex_lock_attributes(3) futex_lock_block],
        simp_all add: NewDataBlock_def GetAttrIntValue_def GetStringValue_def lock_stat_numbers tgid_of_def tid_of_def)
  next
    case (Hist_event h)
    then have "length (slots h) = 24" using sized by simp
    note hist = hist_numbers [OF this]
    show ?thesis
      using Hist_event
      unfolding msg
      by (intro exI conjI) (simp, rule process_block(2) [OF futex_task_attributes(3) futex_task_block],
        simp_all add: NewDataBlock_def GetAttrIntValue_def GetStringValue_def hist tgid_of_def tid_of_def unat_div)
  qed
qed

theorem futex_labels_faithful_witness:
  "\<exists>e b. e \<in> set (futex_state.perf_out (run (futex_step True) (take 2 Futexsnoop.sample_run) (futex_init Futexsnoop.sample_args))) \<and>
     ProcessEvent (\<lambda>_. []) [] (futexsnoop_HandleEvent \<lparr>Now = 5, HasSymSession = False, mapStacks = (\<lambda>_. None), WalkStack = (\<lambda>_ _ _. [])\<rparr>
       (futex_event_image e @ [0, 0, 0, 0])) NewCpuDetector = Some (NewCpuDetector, send_all [] b)"
proof -
  have "futex_state.perf_out (run (futex_step True) (take 2 Futexsnoop.sample_run) (futex_init Futexsnoop.sample_args)) \<noteq> []"
    by (simp add: Futexsnoop.sample_eval)
  then obtain e where e:
    "e \<in> set (futex_state.perf_out (run (futex_step True) (take 2 Futexsnoop.sample_run) (futex_init Futexsnoop.sample_args)))"
    by fastforce
  have "length [0, 0, 0, 0 :: u8] < 8" by simp
  from futex_labels_faithful [OF e this] e show ?thesis by meson
qed

section \<open>syscall\<close>

text \<open>Every record of a run has a 16-byte name and a number of 32 bits.\<close>

definition named :: "Syscall_Trace.user_args \<Rightarrow> syscall_state \<Rightarrow> bool" where
  "named args s \<longleftrightarrow> has_args args s \<and>
     (\<forall>ev \<in> set (syscall_state.perf_out s). length (se_comm ev) = 16 \<and> (\<exists>n :: u32. se_syscall_id ev = ucast n))"

lemma named_step:
  assumes "named args s"
  shows "named args (syscall_step e s)"
proof (cases e)
  case (Sys_enter env nr)
  then show ?thesis using assms has_args_step [of args e s] by (simp add: named_def)
next
  case (Sys_exit env nr)
  have args: "has_args args s" using assms by (simp add: named_def)
  then show ?thesis
  proof (cases rule: sys_exit_cases [of args s env nr])
    case quiet
    then show ?thesis using Sys_exit assms by simp
  next
    case (emit ev)
    then show ?thesis using Sys_exit assms has_args_step [of args e s] by (auto simp: named_def completed_def)
  qed
qed

interpretation named: handler_invariant syscall_step "named args" for args
  by unfold_locales (rule named_step)

lemma syscall_block:
  "syscallHandler (syscall_HandleEvent env arch data) =
     (let ev = decoded SyscallEvent data
      in Some (NewDataBlock SyscallName
       [''dur_us'' \<mapsto> intValue (u64_at ev 3), ''syscall'' \<mapsto> stringValue (bytes_of (SyscallIdToName arch (u32_at ev 6))),
        ''stack'' \<mapsto> stringValue (ResolveStack env (ucast (u64_at ev 5)) 0 False @ dashes @ ResolveStack env (ucast (u64_at ev 4)) (u32_at ev 0) True),
        ''pid'' \<mapsto> intValue (ucast (u32_at ev 0)), ''tid'' \<mapsto> intValue (ucast (u32_at ev 1)), ''comm'' \<mapsto> stringValue (strip0 (ev ! 7))]
       (Now env) [NewIntMetric ''syscall_dur_us'' (u64_at ev 3)]))"
  by (simp add: syscall_HandleEvent_def Let_def sending GetPid_def syscallHandler_def formatSyscallLabels_def set_pairs_wf syscall_label_def
      labelling add_task_labels_def metric_block_def GetUintUserAttribute_def GetUserAttribute_find del: fold.simps fold_simps)

lemma syscall_decoded:
  assumes "length (se_comm ev) = 16" and "se_syscall_id ev = ucast (n :: u32)"
  shows "decoded SyscallEvent (c_struct 0 (syscall_event_fields ev) @ rest) =
    [le_bytes 4 (se_pid ev), le_bytes 4 (se_tid ev), le_bytes 8 (ts_ns ev), le_bytes 8 (dur_us ev),
     le_bytes 8 (u_stack_id ev), le_bytes 8 (k_stack_id ev), le_bytes 4 n, replicate 4 0 @ take 12 (se_comm ev)]"
  using assms by (simp add: decoded_def SyscallEvent_def syscall_event_fields_def layout_simps le_bytes_widen)

text \<open>C17. Every call that syscall reports reaches the consumers with its duration, which is also the metric, its process,
  thread and the name of the call. Of the name of the command only the first 12 bytes arrive: the Go side reads the
  field 4 bytes early, and the four zero bytes it finds there are taken out.\<close>

theorem syscall_labels_faithful:
  assumes "ev \<in> set (syscall_state.perf_out (run syscall_step es (syscall_init args)))"
  shows "\<exists>b. ProcessEvent fmt consumers (syscall_HandleEvent env arch (c_struct 0 (syscall_event_fields ev) @ rest)) c =
      Some (c, send_all consumers b) \<and>
    Metrics b = [NewIntMetric ''syscall_dur_us'' (dur_us ev)] \<and> GetAttrIntValue ''dur_us'' (Labels b) = dur_us ev \<and>
    GetAttrIntValue ''pid'' (Labels b) = ucast (se_pid ev) \<and> GetAttrIntValue ''tid'' (Labels b) = ucast (se_tid ev) \<and>
    GetStringValue ''syscall'' (Labels b) = bytes_of (SyscallIdToName arch (ucast (se_syscall_id ev))) \<and>
    GetStringValue ''comm'' (Labels b) = strip0 (take 12 (se_comm ev))"
proof -
  have "named args (syscall_init args)" using has_args_init [of args] by (simp add: named_def) (simp add: syscall_init_def)
  then have "named args (run syscall_step es (syscall_init args))" by (rule named.run_inv)
  with assms obtain n :: u32 where ev: "length (se_comm ev) = 16" "se_syscall_id ev = ucast n" by (auto simp: named_def)
  let ?data = "c_struct 0 (syscall_event_fields ev) @ rest"
  have name: "EvName (syscall_HandleEvent env arch ?data) = SyscallName"
    by (simp add: syscall_HandleEvent_def Let_def sending del: fold.simps fold_simps)
  have wide: "(ucast (ucast n :: u64) :: u32) = n" by (rule bit_word_eqI) (simp add: bit_simps)
  show ?thesis
    by (intro exI conjI) (rule process_block(3) [OF name syscall_block [unfolded Let_def]],
      simp_all add: syscall_decoded [OF ev] NewDataBlock_def GetAttrIntValue_def GetStringValue_def of_le_bytes_le_bytes ev(2) wide strip0_def)
qed

theorem syscall_labels_faithful_witness:
  "\<exists>ev b. ev \<in> set (syscall_state.perf_out (run syscall_step call_run (syscall_init call_args))) \<and>
     ProcessEvent (\<lambda>_. []) [\<lambda>_. None] (syscall_HandleEvent \<lparr>Now = 5, HasSymSession = False, mapStacks = (\<lambda>_. None), WalkStack = (\<lambda>_ _ _. [])\<rparr>
       Amd64 (c_struct 0 (syscall_event_fields ev) @ [])) NewCpuDetector = Some (NewCpuDetector, [b], None) \<and>
     GetAttrIntValue ''dur_us'' (Labels b) = 5000"
proof -
  obtain ev where ev: "ev \<in> set (syscall_state.perf_out (run syscall_step call_run (syscall_init call_args)))" "dur_us ev = 5000"
    using call_run_out by (metis list.set_intros(1))
  from syscall_labels_faithful [OF ev(1), of "\<lambda>_. []" "[\<lambda>_. None]"
      "\<lparr>Now = 5, HasSymSession = False, mapStacks = (\<lambda>_. None), WalkStack = (\<lambda>_ _ _. [])\<rparr>" Amd64 "[]" NewCpuDetector] ev
  show ?thesis by auto
qed

end
