(* ===== verification/Oncpu_Session.thy ===== *)
theory Oncpu_Session
  imports Cpu_Detector Oncpu
begin

text \<open>
  The session of oncpu (\<open>oncpu.go\<close>): a ticker reads the counters of the kernel program, empties their map and sends an event
  per counter. The counters are taken with one batch operation where the kernel has it, and otherwise
  read one by one and deleted afterwards; samples go on meanwhile. What the map operations of libbpfgo return is
  given to the definitions.
\<close>

section \<open>Reading the counters\<close>

text \<open>\<open>collectBatchValues\<close> cuts the buffer of the batch into keys; a slice out of range is a panic.\<close>

function collect_from :: "bytes \<Rightarrow> nat \<Rightarrow> nat \<Rightarrow> nat \<Rightarrow> bytes list option" where
  "collect_from buf cnt valueSize i =
     (if i < cnt * valueSize
      then if i + valueSize \<le> length buf
           then map_option ((#) (take valueSize (drop i buf))) (collect_from buf cnt valueSize (i + valueSize))
           else None
      else Some [])"
  by pat_completeness auto
termination
proof (relation "measure (\<lambda>(buf, cnt, valueSize, i). cnt * valueSize - i)", goal_cases)
  case (2 buf cnt valueSize i)
  then show ?case by (cases valueSize) auto
qed simp

declare collect_from.simps [simp del]

definition collectBatchValues :: "bytes \<Rightarrow> nat \<Rightarrow> nat \<Rightarrow> bytes list option" where
  "collectBatchValues buf cnt valueSize = collect_from buf cnt valueSize 0"

text \<open>Without a batch: the keys of the iterator and the value of each; a key that is gone is an error.\<close>

fun read_each :: "(bytes \<Rightarrow> bytes option) \<Rightarrow> bytes list \<Rightarrow> (bytes list \<times> bytes list) option" where
  "read_each get [] = Some ([], [])"
| "read_each get (key # it) =
     (case get key of
        None \<Rightarrow> None
      | Some v \<Rightarrow> map_option (\<lambda>(ks, vs). (key # ks, v # vs)) (read_each get it))"

definition KEY_SIZE :: nat where "KEY_SIZE = 40"

text \<open>The keys, the values and whether they came as a batch; \<open>Inl\<close> is the error, \<open>None\<close> a panic.\<close>

definition getCountsMapValues ::
  "bytes list \<Rightarrow> bytes \<Rightarrow> bytes list \<Rightarrow> (bytes \<Rightarrow> bytes option) \<Rightarrow> (unit + bytes list \<times> bytes list \<times> bool) option" where
  "getCountsMapValues batch_values allKeys it get =
     (if length batch_values > 0
      then map_option (\<lambda>keys. Inr (keys, batch_values, True)) (collectBatchValues allKeys (length batch_values) KEY_SIZE)
      else case read_each get it of
          None \<Rightarrow> Some (Inl ())
        | Some (keys, vals) \<Rightarrow> Some (Inr (keys, vals, False)))"

section \<open>Emptying the maps\<close>

text \<open>\<open>DeleteKey\<close> removes a key and fails when it is not there.\<close>

fun delete_keys :: "'k list \<Rightarrow> ('k \<rightharpoonup> 'v) \<Rightarrow> bool \<times> ('k \<rightharpoonup> 'v)" where
  "delete_keys [] m = (True, m)"
| "delete_keys (key # keys) m = (if m key = None then (False, m) else delete_keys keys (m(key := None)))"

definition clearCountsMap :: "bytes list \<Rightarrow> bool \<Rightarrow> (bytes \<rightharpoonup> bytes) \<Rightarrow> bool \<times> (bytes \<rightharpoonup> bytes)" where
  "clearCountsMap keys batch m = (if keys = [] then (True, m) else if batch then (True, m) else delete_keys keys m)"

text \<open>Every tenth round empties the whole stack map, the others only the stacks that were seen; errors are counted and
  dropped.\<close>

definition clearStacksMap :: "nat \<Rightarrow> u32 set \<Rightarrow> (u32 \<rightharpoonup> bytes) \<Rightarrow> (u32 \<rightharpoonup> bytes)" where
  "clearStacksMap RoundNumber knownKeys m =
     (if RoundNumber mod 10 = 0 then Map.empty else (\<lambda>k. if k \<in> knownKeys then None else m k))"

section \<open>Events\<close>

definition GoString :: "bytes \<Rightarrow> bytes" where
  "GoString bs = takeWhile (\<lambda>b. b \<noteq> 0) bs"

text \<open>The key struct at its C offsets: the process, the stacks of kernel and user, the name.\<close>

definition key_of_bytes :: "bytes \<Rightarrow> profile_key_t" where
  "key_of_bytes key =
     (let r = c_read 0 [(4, 4), (8, 8), (8, 8), (1, 16)] key
      in \<lparr>pk_pid = of_le_bytes (r ! 0), kern_stack = of_le_bytes (r ! 1), user_stack = of_le_bytes (r ! 2), pk_comm = r ! 3\<rparr>)"

definition known_stacks :: "profile_key_t \<Rightarrow> u32 set" where
  "known_stacks ck =
     (if sint (user_stack ck) \<ge> 0 then {ucast (user_stack ck)} else {}) \<union>
     (if sint (kern_stack ck) \<ge> 0 then {ucast (kern_stack ck)} else {})"

text \<open>The text of a sample: the name, then the stacks of user and kernel. A stack that is not in its map is walked as an
  empty one.\<close>

definition stack_text :: "session_env \<Rightarrow> profile_key_t \<Rightarrow> bytes" where
  "stack_text env ck =
     (let walk = (\<lambda>sid pid us. WalkStack env (case getStack env sid of Some stk \<Rightarrow> stk | None \<Rightarrow> []) pid us)
      in GoString (pk_comm ck) @ [0x3B] @ walk (ucast (user_stack ck)) (pk_pid ck) True @ walk (ucast (kern_stack ck)) 0 False)"

definition oncpu_event :: "session_env \<Rightarrow> u32 \<Rightarrow> profile_key_t \<Rightarrow> u32 \<Rightarrow> SpyEvent" where
  "oncpu_event env rate ck count =
     calls [SetUserAttributeWithByteBuf ''stack'' (stack_text env ck),
            SetUserAttributeWithUint32 ''count'' count,
            SetUserAttributeWithUint32 ''pid'' (pk_pid ck),
            SetUserAttributeWithByteBuf ''comm'' (GoString (pk_comm ck)),
            SetUserAttributeWithUint32 ''sampleRate'' rate]
       (empty_event\<lparr>EvName := OnCpu, TimeStamp := Now env, Class := \<lparr>ClassName = [], ClassEvent = OnCpu\<rparr>\<rparr>)"

text \<open>\<open>Reset\<close>: the events, the two maps afterwards and whether there was no error. The counters' map is given as the
  read left it; a value shorter than four bytes is a panic.\<close>

definition Reset ::
  "session_env \<Rightarrow> u32 \<Rightarrow> nat \<Rightarrow> (unit + bytes list \<times> bytes list \<times> bool) \<Rightarrow> (bytes \<rightharpoonup> bytes) \<Rightarrow>
     (bool \<times> SpyEvent list \<times> (bytes \<rightharpoonup> bytes) \<times> (u32 \<rightharpoonup> bytes)) option" where
  "Reset env rate RoundNumber got m =
     (case got of
        Inl _ \<Rightarrow> Some (False, [], m, mapStacks env)
      | Inr (keys, vals, batch) \<Rightarrow>
          if length keys \<le> length vals \<and> list_all (\<lambda>v. 4 \<le> length v) (take (length keys) vals)
          then let cks = map key_of_bytes keys;
                   events = map2 (\<lambda>ck v. oncpu_event env rate ck (of_le_bytes (take 4 v))) cks vals
               in case clearCountsMap keys batch m of
                 (False, m') \<Rightarrow> Some (False, events, m', mapStacks env)
               | (True, m') \<Rightarrow> Some (True, events, m', clearStacksMap (Suc RoundNumber) (\<Union> (known_stacks ` set cks)) (mapStacks env))
          else None)"

section \<open>Rounds and samples at the same time\<close>

text \<open>The accesses of a round to the kernel's map, between samples: a round reads every element and deletes it, either way one
  key after the other. The batch operation does the two for a key inside the kernel, the other way reads all
  keys first and deletes them after the events are sent. A sample is one step.\<close>

datatype round_ev = Sample bpf_env | Read_elem profile_key_t | Delete_elem profile_key_t

record round_state =
  kern :: oncpu_state
  sent :: "(profile_key_t \<times> u32) list"

fun round_step :: "round_ev \<Rightarrow> round_state \<Rightarrow> round_state" where
  "round_step (Sample env) s = s\<lparr>kern := do_perf_event env (kern s)\<rparr>"
| "round_step (Read_elem k) s =
     (case bpf_map_lookup_elem (counts (kern s)) k of None \<Rightarrow> s | Some v \<Rightarrow> s\<lparr>sent := sent s @ [(k, v)]\<rparr>)"
| "round_step (Delete_elem k) s = s\<lparr>kern := (kern s)\<lparr>counts := snd (bpf_map_delete_elem (counts (kern s)) k)\<rparr>\<rparr>"

section \<open>What a round reports\<close>

text \<open>The key of the kernel's map as bytes, and back.\<close>

definition key_fields :: "profile_key_t \<Rightarrow> field list" where
  "key_fields k = [u32f (pk_pid k), u64f (kern_stack k), u64f (user_stack k), charsf (pk_comm k)]"

lemma key_image:
  assumes "length (pk_comm k) = 16"
  shows "key_of_bytes (c_struct 0 (key_fields k)) = k" and "length (c_struct 0 (key_fields k)) = KEY_SIZE"
proof -
  have "map (\<lambda>(a, bs). (a, length bs)) (key_fields k) = [(4, 4), (8, 8), (8, 8), (1, 16)]"
    using assms by (simp add: key_fields_def field_defs)
  then have "c_read 0 [(4, 4), (8, 8), (8, 8), (1, 16)] (c_struct 0 (key_fields k)) = map snd (key_fields k)"
    using c_read_struct [of 0 "key_fields k" "[]"] by simp
  then show "key_of_bytes (c_struct 0 (key_fields k)) = k"
    by (simp add: key_of_bytes_def key_fields_def field_defs of_le_bytes_le_bytes)
  show "length (c_struct 0 (key_fields k)) = KEY_SIZE"
    using assms by (simp add: key_fields_def layout_simps KEY_SIZE_def)
qed

text \<open>A batch of keys comes back as it was written.\<close>

lemma collect_from_concat:
  assumes "list_all (\<lambda>k. length k = n) ks" and "0 < n"
  shows "length front = m * n \<Longrightarrow> cnt = m + length ks \<Longrightarrow> collect_from (front @ concat ks @ rest) cnt n (length front) = Some ks"
  using assms(1)
proof (induction ks arbitrary: front m)
  case Nil
  then show ?case by (simp add: collect_from.simps)
next
  case (Cons k ks)
  then have "collect_from ((front @ k) @ concat ks @ rest) cnt n (length (front @ k)) = Some ks"
    by (intro Cons.IH [where m = "Suc m"]) auto
  moreover have "length front < cnt * n" "length front + n \<le> length (front @ concat (k # ks) @ rest)"
    using Cons assms(2) by (auto simp: algebra_simps)
  ultimately show ?case using Cons by (subst collect_from.simps) simp
qed

lemma collectBatchValues_concat:
  "list_all (\<lambda>k. length k = n) ks \<Longrightarrow> 0 < n \<Longrightarrow> collectBatchValues (concat ks @ rest) (length ks) n = Some ks"
  using collect_from_concat [of n ks "[]" 0 "length ks" rest] by (simp add: collectBatchValues_def)

lemma oncpu_event_attributes:
  "attributes (oncpu_event env rate ck count) =
     [kv_buf ''stack'' (stack_text env ck), kv_u32 ''count'' count, kv_u32 ''pid'' (pk_pid ck), kv_buf ''comm'' (GoString (pk_comm ck)),
      kv_u32 ''sampleRate'' rate]"
  "wf_event (oncpu_event env rate ck count)" "EvName (oncpu_event env rate ck count) = OnCpu" "Task (oncpu_event env rate ck count) = zero_task"
proof -
  have "wf_event (empty_event\<lparr>EvName := OnCpu, TimeStamp := Now env, Class := x\<rparr>)"
    "attributes (empty_event\<lparr>EvName := OnCpu, TimeStamp := Now env, Class := x\<rparr>) = []" for x
    using wf_empty_event by (simp_all add: wf_event_def attributes_def)
  then show
    "attributes (oncpu_event env rate ck count) =
     [kv_buf ''stack'' (stack_text env ck), kv_u32 ''count'' count, kv_u32 ''pid'' (pk_pid ck), kv_buf ''comm'' (GoString (pk_comm ck)),
      kv_u32 ''sampleRate'' rate]"
    "wf_event (oncpu_event env rate ck count)" "EvName (oncpu_event env rate ck count) = OnCpu" "Task (oncpu_event env rate ck count) = zero_task"
    by (simp_all add: oncpu_event_def sending del: fold.simps fold_simps) (simp add: empty_event_def)
qed

lemma oncpu_event_sample:
  "typed_event (oncpu_event env rate ck count)" "samples_of (Event (oncpu_event env rate ck count)) = [(stack_text env ck, ucast count)]"
  by (simp_all add: typed_event_def oncpu_event_attributes)

text \<open>A round with the batch: one event per counter.\<close>

lemma Reset_batch:
  assumes "es \<noteq> []" and "list_all (\<lambda>(k, v). length (pk_comm k) = 16) es"
    and "got = getCountsMapValues (map (\<lambda>(k, v). le_bytes 4 v) es) (concat (map (\<lambda>(k, v). c_struct 0 (key_fields k)) es) @ rest) it get"
  shows "\<exists>g stacks. got = Some g \<and>
    Reset env rate n g m = Some (True, map (\<lambda>(k, v). oncpu_event env rate k v) es, m, stacks)"
proof -
  let ?keys = "map (\<lambda>(k, v). c_struct 0 (key_fields k)) es" and ?vals = "map (\<lambda>(k, v). le_bytes 4 v) es"
  have "list_all (\<lambda>k. length k = KEY_SIZE) ?keys" using assms(2) key_image(2) by (auto simp: list_all_iff)
  then have got: "got = Some (Inr (?keys, ?vals, True))"
    using assms(1,3) collectBatchValues_concat [of KEY_SIZE ?keys rest] by (simp add: getCountsMapValues_def KEY_SIZE_def)
  have "map2 (\<lambda>ck v. oncpu_event env rate ck (of_le_bytes (take 4 v))) (map key_of_bytes ?keys) ?vals = map (\<lambda>(k, v). oncpu_event env rate k v) es"
    using assms(2) by (induction es) (auto simp: key_image(1) of_le_bytes_le_bytes)
  moreover have "list_all (\<lambda>v. 4 \<le> length v) ?vals" by (simp add: list_all_iff split_beta)
  ultimately show ?thesis using got by (auto simp: Reset_def clearCountsMap_def Let_def)
qed

section \<open>Conservation\<close>

definition total_sent :: "profile_key_t \<Rightarrow> round_state \<Rightarrow> u32" where
  "total_sent k s = sum_list (map snd (filter (\<lambda>e. fst e = k) (sent s)))"

definition pending :: "profile_key_t \<Rightarrow> round_state \<Rightarrow> u32" where
  "pending k s = (case bpf_map_lookup_elem (counts (kern s)) k of None \<Rightarrow> 0 | Some v \<Rightarrow> v)"

fun accepted :: "profile_bss_args_t \<Rightarrow> profile_key_t \<Rightarrow> round_ev \<Rightarrow> bool" where
  "accepted arg k (Sample env) \<longleftrightarrow> sampled arg env \<and> profile_key env = k"
| "accepted arg k _ \<longleftrightarrow> False"

text \<open>The samples of a key that fall between a reading of its counter and the deletion that belongs to it. \<open>opn\<close> says that a reading waits
  for its deletion. Readings and deletions of a key alternate: otherwise the result is \<open>None\<close>.\<close>

fun lost :: "profile_bss_args_t \<Rightarrow> profile_key_t \<Rightarrow> bool \<Rightarrow> round_ev list \<Rightarrow> nat option" where
  "lost arg k opn [] = (if opn then None else Some 0)"
| "lost arg k opn (Sample env # evs) =
     map_option ((+) (if opn \<and> accepted arg k (Sample env) then 1 else 0)) (lost arg k opn evs)"
| "lost arg k opn (Read_elem k' # evs) =
     (if k' \<noteq> k then lost arg k opn evs else if opn then None else lost arg k True evs)"
| "lost arg k opn (Delete_elem k' # evs) =
     (if k' \<noteq> k then lost arg k opn evs else if opn then lost arg k False evs else None)"

definition keys_of :: "profile_bss_args_t \<Rightarrow> round_ev list \<Rightarrow> profile_key_t set" where
  "keys_of arg evs = {k. \<exists>ev \<in> set evs. accepted arg k ev}"

lemma finite_keys_of: "finite (keys_of arg evs)"
proof -
  have "{k. accepted arg k ev} \<subseteq> (case ev of Sample env \<Rightarrow> {profile_key env} | _ \<Rightarrow> {})" for ev by (cases ev) auto
  then have "finite {k. accepted arg k ev}" for ev by (rule finite_subset) (simp split: round_ev.split)
  moreover have "keys_of arg evs = (\<Union>ev \<in> set evs. {k. accepted arg k ev})" by (auto simp: keys_of_def)
  ultimately show ?thesis by simp
qed

definition round_inv :: "profile_bss_args_t \<Rightarrow> profile_key_t set \<Rightarrow> round_state \<Rightarrow> bool" where
  "round_inv arg K s \<longleftrightarrow> args (kern s) = [arg] \<and> hash_wf (counts (kern s)) \<and>
     max_entries (counts (kern s)) = PROFILE_MAPS_SIZE \<and> dom (bpf_map_lookup_elem (counts (kern s))) \<subseteq> K"

text \<open>While the keys fit the map, a key that is not in it has room.\<close>

lemma round_room:
  assumes "round_inv arg K s" and "finite K" and "card K \<le> PROFILE_MAPS_SIZE" and "k \<in> K" and "bpf_map_lookup_elem (counts (kern s)) k = None"
  shows "0 < hash_free (counts (kern s))"
proof -
  let ?m = "counts (kern s)"
  have dom: "dom (bpf_map_lookup_elem ?m) = fst ` set (entries ?m)"
    by (simp add: bpf_map_lookup_elem_def [abs_def] dom_map_of_conv_image_fst)
  have "dom (bpf_map_lookup_elem ?m) \<subset> K" using assms(1,4,5) by (auto simp: round_inv_def)
  then have "card (dom (bpf_map_lookup_elem ?m)) < card K" using assms(2) by (rule psubset_card_mono [rotated])
  moreover have "card (fst ` set (entries ?m)) = length (entries ?m)"
    using assms(1) distinct_card [of "map fst (entries ?m)"] by (simp add: round_inv_def hash_wf_def)
  ultimately show ?thesis using assms(1,3) dom by (simp add: hash_free_def round_inv_def)
qed

lemma round_sample:
  assumes inv: "round_inv arg K s" and K: "finite K" "card K \<le> PROFILE_MAPS_SIZE" and ev: "\<And>k. accepted arg k (Sample env) \<Longrightarrow> k \<in> K"
  shows "round_inv arg K (round_step (Sample env) s) \<and> total_sent k (round_step (Sample env) s) = total_sent k s \<and>
    pending k (round_step (Sample env) s) = pending k s + (if accepted arg k (Sample env) then 1 else 0)"
proof -
  let ?m = "counts (kern s)"
  have key: "sample_key (kern s) env = (if sampled arg env then Some (profile_key env) else None)"
    using inv by (simp add: round_inv_def sample_key_def)
  show ?thesis
  proof (cases "sampled arg env")
    case False
    then show ?thesis using inv key by (simp add: do_perf_event_skip)
  next
    case True
    let ?k = "profile_key env"
    have K': "?k \<in> K" using ev [of ?k] True by simp
    show ?thesis
    proof (cases "bpf_map_lookup_elem ?m ?k")
      case (Some v)
      then show ?thesis
        using inv key True hash_del.wf_store [of ?m]
        by (auto simp: do_perf_event_count round_inv_def total_sent_def pending_def map_laws)
    next
      case None
      note room = round_room [OF inv K K' None]
      then have ok: "fst (bpf_map_update_elem ?m ?k 1 BPF_NOEXIST) = 0"
        using None by (intro hash_del.update_room) simp_all
      then show ?thesis
        using inv key True None K' hash.update_ok [OF ok] hash_del.wf_update [of ?m]
        by (auto simp: do_perf_event_count round_inv_def total_sent_def pending_def)
    qed
  qed
qed

lemma round_read:
  "round_inv arg K (round_step (Read_elem k') s) = round_inv arg K s"
  "pending k (round_step (Read_elem k') s) = pending k s"
  "total_sent k (round_step (Read_elem k') s) = total_sent k s + (if k' = k then pending k s else 0)"
  by (auto simp: round_inv_def pending_def total_sent_def split: option.split)

lemma round_delete:
  assumes "round_inv arg K s"
  shows "round_inv arg K (round_step (Delete_elem k') s)"
    and "pending k (round_step (Delete_elem k') s) = (if k' = k then 0 else pending k s)"
    and "total_sent k (round_step (Delete_elem k') s) = total_sent k s"
  using assms hash_del.lookup_delete [of "counts (kern s)" k'] hash_del.wf_delete [of "counts (kern s)" k']
  by (auto simp: round_inv_def pending_def total_sent_def split: if_splits)

definition round_init :: "profile_bss_args_t \<Rightarrow> round_state" where
  "round_init arg = \<lparr>kern = oncpu_init arg, sent = []\<rparr>"

lemma round_inv_init: "round_inv arg K (round_init arg)"
  by (auto simp: round_inv_def round_init_def oncpu_init_def hash_wf_def hash_empty_def bpf_map_lookup_elem_def)

text \<open>A run from any state: an open reading has sent what the counter held.\<close>

lemma rounds_account:
  assumes "finite K" and "card K \<le> PROFILE_MAPS_SIZE"
  shows "round_inv arg K s \<Longrightarrow> keys_of arg evs \<subseteq> K \<Longrightarrow> lost arg k opn evs = Some n \<Longrightarrow>
    round_inv arg K (run round_step evs s) \<and>
    total_sent k (run round_step evs s) + pending k (run round_step evs s) + of_nat n =
      total_sent k s + (if opn then 0 else pending k s) + of_nat (length (filter (accepted arg k) evs))"
proof (induction evs arbitrary: s opn n)
  case Nil
  then show ?case by (simp split: if_splits)
next
  case (Cons ev evs)
  have keys: "keys_of arg evs \<subseteq> K" using Cons.prems(2) by (auto simp: keys_of_def)
  show ?case
  proof (cases ev)
    case (Sample env)
    obtain m where m: "lost arg k opn evs = Some m" "n = (if opn \<and> accepted arg k (Sample env) then 1 else 0) + m"
      using Cons.prems(3) Sample by auto
    have "x \<in> K" if "accepted arg x (Sample env)" for x using Cons.prems(2) that Sample by (auto simp: keys_of_def)
    note r = round_sample [OF Cons.prems(1) assms this, of env k]
    from Cons.IH [OF conjunct1 [OF r] keys m(1)] r m(2) Sample show ?thesis
      by (cases opn) (simp_all add: ac_simps del: round_step.simps accepted.simps)
  next
    case (Read_elem k')
    obtain b where b: "lost arg k b evs = Some n" "b = (if k' = k then True else opn)" "k' = k \<longrightarrow> \<not> opn"
      using Cons.prems(3) Read_elem by (auto split: if_splits)
    have "round_inv arg K (round_step (Read_elem k') s)" using Cons.prems(1) round_read(1) by blast
    from Cons.IH [OF this keys b(1)] b(2,3) Read_elem round_read(2,3) [of k k' s] show ?thesis
      by (cases opn; cases "k' = k") (simp_all del: round_step.simps)
  next
    case (Delete_elem k')
    obtain b where b: "lost arg k b evs = Some n" "b = (if k' = k then False else opn)" "k' = k \<longrightarrow> opn"
      using Cons.prems(3) Delete_elem by (auto split: if_splits)
    note r = round_delete [OF Cons.prems(1), where k' = k']
    from Cons.IH [OF r(1) keys b(1)] b(2,3) Delete_elem r(2,3) [where k = k] show ?thesis
      by (cases opn; cases "k' = k") (simp_all del: round_step.simps)
  qed
qed

section \<open>Properties\<close>

text \<open>C15. What happens to the samples of a key. While the distinct keys fit the map, and each reading of the counter is
  followed by its deletion before the next reading, what was sent plus what the counter still holds plus the samples
  between a reading and its deletion is the number of accepted samples, modulo 2^32: exactly these samples are
  lost. A way of emptying that lets no sample in between loses none. A sample counts as one step here.\<close>

theorem oncpu_rounds_account:
  assumes "card (keys_of arg evs) \<le> PROFILE_MAPS_SIZE" and "lost arg k False evs = Some n" and "s = run round_step evs (round_init arg)"
  shows "total_sent k s + pending k s + of_nat n = of_nat (length (filter (accepted arg k) evs))"
  using rounds_account [OF finite_keys_of assms(1) round_inv_init order_refl assms(2)] assms(3)
  by (simp add: round_init_def total_sent_def pending_def oncpu_init_def bpf_map_lookup_elem_def hash_empty_def)

text \<open>Two samples, a reading, a sample, the deletion, a sample: two are sent, one is lost and one is pending.\<close>

theorem oncpu_rounds_account_witness:
  "total_sent (profile_key (sample_sample 3)) (run round_step ([Sample (sample_sample 3), Sample (sample_sample 3), Read_elem (profile_key (sample_sample 3)),
       Sample (sample_sample 3), Delete_elem (profile_key (sample_sample 3)), Sample (sample_sample 3)])
       (round_init \<lparr>tgid_filter = 0, cpu_filter = 0, space_filter = 0\<rparr>)) +
     pending (profile_key (sample_sample 3)) (run round_step ([Sample (sample_sample 3), Sample (sample_sample 3), Read_elem (profile_key (sample_sample 3)),
       Sample (sample_sample 3), Delete_elem (profile_key (sample_sample 3)), Sample (sample_sample 3)])
       (round_init \<lparr>tgid_filter = 0, cpu_filter = 0, space_filter = 0\<rparr>)) + 1 = 4"
proof -
  let ?arg = "\<lparr>tgid_filter = 0, cpu_filter = 0, space_filter = 0\<rparr> :: profile_bss_args_t"
  let ?e = "sample_sample 3"
  let ?evs = "[Sample ?e, Sample ?e, Read_elem (profile_key ?e), Sample ?e, Delete_elem (profile_key ?e), Sample ?e]"
  have acc: "accepted ?arg (profile_key ?e) (Sample ?e)" by (simp add: sampled_def sample_sample_def)
  have "keys_of ?arg ?evs \<subseteq> {profile_key ?e}" by (auto simp: keys_of_def)
  then have "card (keys_of ?arg ?evs) \<le> PROFILE_MAPS_SIZE"
    using card_mono [of "{profile_key ?e}" "keys_of ?arg ?evs"] by (simp add: PROFILE_MAPS_SIZE_def)
  moreover have "lost ?arg (profile_key ?e) False ?evs = Some 1" using acc by simp
  ultimately show ?thesis
    using oncpu_rounds_account [OF _ _ refl, of ?arg ?evs "profile_key ?e" 1] acc by (simp del: round_step.simps run_Cons accepted.simps) (simp)
qed

text \<open>C29. Rounds that read first and delete later lose samples: those taken between the reading of a counter and its deletion are neither sent nor
  kept.\<close>

theorem oncpu_fallback_loses_samples:
  assumes "round_inv arg K s" and "bpf_map_lookup_elem (counts (kern s)) k = Some v"
    and "list_all (\<lambda>e. sampled arg e \<and> profile_key e = k) es"
    and "s' = run round_step ([Read_elem k] @ map Sample es @ [Delete_elem k]) s"
  shows "sent s' = sent s @ [(k, v)] \<and> pending k s' = 0"
proof -
  let ?r = "s\<lparr>sent := sent s @ [(k, v)]\<rparr>"
  have samples: "round_inv arg (insert k K) (run round_step (map Sample es) t) \<and> sent (run round_step (map Sample es) t) = sent t"
    if "round_inv arg (insert k K) t" "bpf_map_lookup_elem (counts (kern t)) k = Some w" for t w
    using that assms(3)
  proof (induction es arbitrary: t w)
    case (Cons e es)
    have key: "sample_key (kern t) e = Some k" using Cons.prems by (simp add: round_inv_def sample_key_def)
    have "round_inv arg (insert k K) (round_step (Sample e) t)"
      using Cons.prems(1,2) key hash_del.wf_store [of "counts (kern t)"]
      by (auto simp: do_perf_event_count round_inv_def map_laws)
    moreover have "bpf_map_lookup_elem (counts (kern (round_step (Sample e) t))) k = Some (w + 1)"
      using Cons.prems(2) key by (simp add: do_perf_event_count map_laws)
    ultimately show ?case using Cons.IH [of "round_step (Sample e) t" "w + 1"] Cons.prems by simp
  qed simp
  have "round_inv arg (insert k K) ?r" using assms(1) by (auto simp: round_inv_def)
  from samples [OF this, of v] assms(2) have
    "hash_wf (counts (kern (run round_step (map Sample es) ?r)))" "sent (run round_step (map Sample es) ?r) = sent s @ [(k, v)]"
    by (simp_all add: round_inv_def)
  then show ?thesis
    using assms(2,4) by (simp add: run_append pending_def hash_del.lookup_delete)
qed

theorem oncpu_fallback_loses_samples_witness:
  "\<exists>s'. s' = run round_step ([Read_elem (profile_key (sample_sample 3))] @ map Sample [sample_sample 3] @ [Delete_elem (profile_key (sample_sample 3))])
       (run round_step [Sample (sample_sample 3)] (round_init \<lparr>tgid_filter = 0, cpu_filter = 0, space_filter = 0\<rparr>)) \<and>
     sent s' = [(profile_key (sample_sample 3), 1)] \<and> pending (profile_key (sample_sample 3)) s' = 0"
proof -
  let ?arg = "\<lparr>tgid_filter = 0, cpu_filter = 0, space_filter = 0\<rparr> :: profile_bss_args_t"
  let ?k = "profile_key (sample_sample 3)"
  let ?s = "run round_step [Sample (sample_sample 3)] (round_init ?arg)"
  have "round_inv ?arg {?k} ?s"
    using rounds_account [of "{?k}" ?arg "round_init ?arg" "[Sample (sample_sample 3)]" ?k False 0] round_inv_init [of ?arg "{?k}"]
    by (auto simp: keys_of_def PROFILE_MAPS_SIZE_def simp del: round_step.simps run_Cons)
  moreover have "bpf_map_lookup_elem (counts (kern ?s)) ?k = Some 1"
    by (simp add: round_init_def eval_defs profile_key_def sample_sample_def)
  moreover have "list_all (\<lambda>e. sampled ?arg e \<and> profile_key e = ?k) [sample_sample 3]" by (simp add: sampled_def sample_sample_def)
  moreover have "sent ?s = []" by (simp add: round_init_def)
  ultimately show ?thesis using oncpu_fallback_loses_samples [OF _ _ _ refl, of ?arg "{?k}" ?s ?k 1 "[sample_sample 3]"] by simp
qed

end
