(* ===== verification/Mem_Pipeline.thy ===== *)
theory Mem_Pipeline
  imports Oncpu_Session
begin

text \<open>
  The way of cachestat's counters: the session (\<open>cachestat.go\<close>) reads the elements of the kernel's map in every round, the
  receiver (\<open>receiver.go\<close>) passes the events to the detectors that own them (\<open>manager.go\<close>), and the memory detector
  (\<open>memdetector.go\<close>) labels them. The theorems join the kernel program to the blocks of the detector.
\<close>

section \<open>The session\<close>

definition CacheStatName :: string where "CacheStatName = ''cachestat''"

text \<open>The values of the batch if there are any, else those of the keys of the iterator; the map keeps its elements.\<close>

definition getCacheStatMapValues ::
  "bytes list \<Rightarrow> bytes \<Rightarrow> bytes list \<Rightarrow> (bytes \<Rightarrow> bytes option) \<Rightarrow> (unit + bytes list \<times> bytes list \<times> bool) option" where
  "getCacheStatMapValues batch_values allKeys it get =
     (if length batch_values > 0
      then map_option (\<lambda>keys. Inr (keys, batch_values, True)) (collectBatchValues allKeys (length batch_values) 16)
      else case read_each get it of
          None \<Rightarrow> Some (Inl ())
        | Some (keys, vals) \<Rightarrow> Some (Inr (keys, vals, False)))"

text \<open>The struct at its C offsets.\<close>

definition info_of_bytes :: "bytes \<Rightarrow> cache_info" where
  "info_of_bytes bs =
     (let r = c_read 0 [(4, 4), (4, 4), (1, 16), (1, 64), (8, 8), (8, 8), (8, 8)] bs
      in \<lparr>ci_pid = of_le_bytes (r ! 0), ci_cpu = of_le_bytes (r ! 1), ci_comm = r ! 2, ci_file = r ! 3,
          read_size = of_le_bytes (r ! 4), write_size = of_le_bytes (r ! 5), ci_cnt = of_le_bytes (r ! 6)\<rparr>)"

text \<open>\<open>C.GoString\<close> reads on from the first byte of a name to a zero byte, also beyond the array; what lies behind the value is not
  modelled.\<close>

definition comm_of_bytes :: "bytes \<Rightarrow> bytes" where
  "comm_of_bytes bs = GoString (drop 8 bs)"

definition file_of_bytes :: "bytes \<Rightarrow> bytes" where
  "file_of_bytes bs = GoString (drop 24 bs)"

definition cachestat_event :: "session_env \<Rightarrow> bytes \<Rightarrow> bytes \<Rightarrow> cache_info \<Rightarrow> SpyEvent" where
  "cachestat_event env comm file v =
     calls [SetUserAttributeWithByteBuf ''comm'' comm,
            SetUserAttributeWithByteBuf ''file'' file,
            SetUserAttributeWithUint32 ''pid'' (ci_pid v),
            SetUserAttributeWithUint32 ''cpu'' (ci_cpu v),
            SetUserAttributeWithUint64 ''cnt'' (ci_cnt v),
            SetUserAttributeWithUint64 ''read_size_m'' (read_size v),
            SetUserAttributeWithUint64 ''write_size_m'' (write_size v)]
       (empty_event\<lparr>EvName := CacheStatName, Class := \<lparr>ClassName = [], ClassEvent = CacheStatName\<rparr>, TimeStamp := Now env\<rparr>)"

definition cachestat_Reset :: "session_env \<Rightarrow> unit + bytes list \<times> bytes list \<times> bool \<Rightarrow> bool \<times> SpyEvent list" where
  "cachestat_Reset env got =
     (case got of
        Inl _ \<Rightarrow> (False, [])
      | Inr (_, vals, _) \<Rightarrow> (True, map (\<lambda>v. cachestat_event env (comm_of_bytes v) (file_of_bytes v) (info_of_bytes v)) vals))"

section \<open>Receiver and manager\<close>

record detector =
  det_name :: string
  OwnedEvents :: "string list"

definition own_event :: "detector \<Rightarrow> string \<Rightarrow> (string \<Rightarrow> detector list) \<Rightarrow> (string \<Rightarrow> detector list)" where
  "own_event d event m = m(event := m event @ [d])"

definition NewDetectorManager :: "detector list \<Rightarrow> (string \<Rightarrow> detector list) option" where
  "NewDetectorManager detectors =
     (if length detectors = 0 then None
      else Some (fold (\<lambda>d m. fold (own_event d) (OwnedEvents d) m) detectors (\<lambda>_. [])))"

definition GetDetectors :: "(string \<Rightarrow> detector list) \<Rightarrow> string \<Rightarrow> detector list" where
  "GetDetectors m name = m name"

text \<open>The detectors that were given the event, until one fails.\<close>

fun consume_all :: "(detector \<Rightarrow> SpyEvent \<Rightarrow> string option) \<Rightarrow> SpyEvent \<Rightarrow> detector list \<Rightarrow> detector list \<times> string option" where
  "consume_all consume e [] = ([], None)"
| "consume_all consume e (d # ds) =
     (case consume d e of
        Some err \<Rightarrow> ([d], Some err)
      | None \<Rightarrow> (case consume_all consume e ds of (given, err) \<Rightarrow> (d # given, err)))"

definition sendToConsumers :: "(detector \<Rightarrow> SpyEvent \<Rightarrow> string option) \<Rightarrow> (string \<Rightarrow> detector list) \<Rightarrow> SpyEvent \<Rightarrow> detector list \<times> string option" where
  "sendToConsumers consume m e =
     (let detectors = GetDetectors m (ClassEvent (Class e))
      in if length detectors = 0 then ([], None) else consume_all consume e detectors)"

section \<open>The memory detector\<close>

definition cachestat_label :: "KeyValue \<Rightarrow> AttributeMap \<Rightarrow> AttributeMap option" where
  "cachestat_label kv labels =
     (if Key kv = ''read_size_m'' then int_label ''read_size_m'' kv labels
      else if Key kv = ''write_size_m'' then int_label ''write_size_m'' kv labels
      else if Key kv = ''pid'' then int_label ''pid'' kv labels
      else if Key kv = ''cpu'' then int_label ''cpu'' kv labels
      else if Key kv = ''cnt'' then int_label ''count'' kv labels
      else if Key kv = ''comm'' then str_label ''comm'' kv labels
      else if Key kv = ''file'' then str_label ''file'' kv labels
      else Some labels)"

definition formatCacheStat :: "SpyEvent \<Rightarrow> AttributeMap option" where
  "formatCacheStat e = Option.bind (set_pairs e) (\<lambda>kvs. label_loop cachestat_label kvs NewAttributeMap)"

definition cachestatHandler :: "SpyEvent \<Rightarrow> DataBlock option" where
  "cachestatHandler e = Option.bind (formatCacheStat e) (metric_block CacheStatName ''cachestat_read_size'' ''write_size'' e)"

definition mem_ProcessEvent :: "(DataBlock \<Rightarrow> string option) list \<Rightarrow> SpyEvent \<Rightarrow> (DataBlock list \<times> string option) option" where
  "mem_ProcessEvent consumers e =
     (if EvName e = CacheStatName then map_option (\<lambda>b. send_block consumers (Some b)) (cachestatHandler e)
      else Some ([], None))"

section \<open>The processor\<close>

text \<open>The default processor (\<open>processor.go\<close>) passes the blocks of the five tools to the exporter, whose error it logs and drops.
  The result is the blocks passed on and the error returned.\<close>

definition processor_Consume :: "DataBlock \<Rightarrow> DataBlock list \<times> string option" where
  "processor_Consume data =
     (if BlockName data \<in> {OffCpu, SyscallName, FutexSnoop, OnCpu, CacheStatName} then ([data], None) else ([], None))"

section \<open>Routing\<close>

lemma own_events: "fold (own_event d) evs m ev = m ev @ replicate (count_list evs ev) d"
  by (induction evs arbitrary: m) (auto simp: own_event_def replicate_append_same replicate_app_Cons_same)

lemma manager_events:
  "fold (\<lambda>d m. fold (own_event d) (OwnedEvents d) m) ds m ev = m ev @ concat (map (\<lambda>d. replicate (count_list (OwnedEvents d) ev) d) ds)"
  by (induction ds arbitrary: m) (simp_all add: own_events)

lemma GetDetectors_owners:
  assumes "NewDetectorManager ds = Some m" and "list_all (\<lambda>d. distinct (OwnedEvents d)) ds"
  shows "GetDetectors m ev = filter (\<lambda>d. ev \<in> set (OwnedEvents d)) ds"
proof -
  have "count_list xs ev = (if ev \<in> set xs then 1 else 0)" if "distinct xs" for xs
    using that by (induction xs) auto
  then have "concat (map (\<lambda>d. replicate (count_list (OwnedEvents d) ev) d) ds) = filter (\<lambda>d. ev \<in> set (OwnedEvents d)) ds"
    using assms(2) by (induction ds) auto
  then show ?thesis using assms(1) by (auto simp: NewDetectorManager_def GetDetectors_def manager_events split: if_splits)
qed

lemma consume_all_reaches: "list_all (\<lambda>d. consume d e = None) ds \<Longrightarrow> consume_all consume e ds = (ds, None)"
  by (induction ds) auto

lemma processor_passes:
  "send_all [\<lambda>b. snd (processor_Consume b)] b = ([b], None)"
  "BlockName b \<in> {OffCpu, SyscallName, FutexSnoop, OnCpu, CacheStatName} \<Longrightarrow> fst (processor_Consume b) = [b]"
  by (simp_all add: processor_Consume_def)

section \<open>The counters in the labels\<close>

lemma cachestat_event_attributes:
  "attributes (cachestat_event env comm file v) =
     [kv_buf ''comm'' (comm), kv_buf ''file'' (file), kv_u32 ''pid'' (ci_pid v), kv_u32 ''cpu'' (ci_cpu v),
      kv_u64 ''cnt'' (ci_cnt v), kv_u64 ''read_size_m'' (read_size v), kv_u64 ''write_size_m'' (write_size v)]"
  "wf_event (cachestat_event env comm file v)" "EvName (cachestat_event env comm file v) = CacheStatName" "ClassEvent (Class (cachestat_event env comm file v)) = CacheStatName"
proof -
  have "wf_event (empty_event\<lparr>EvName := n, Class := x, TimeStamp := y\<rparr>)"
    "attributes (empty_event\<lparr>EvName := n, Class := x, TimeStamp := y\<rparr>) = []" for n x y
    using wf_empty_event by (simp_all add: wf_event_def attributes_def)
  then show
    "attributes (cachestat_event env comm file v) =
     [kv_buf ''comm'' (comm), kv_buf ''file'' (file), kv_u32 ''pid'' (ci_pid v), kv_u32 ''cpu'' (ci_cpu v),
      kv_u64 ''cnt'' (ci_cnt v), kv_u64 ''read_size_m'' (read_size v), kv_u64 ''write_size_m'' (write_size v)]"
    "wf_event (cachestat_event env comm file v)" "EvName (cachestat_event env comm file v) = CacheStatName" "ClassEvent (Class (cachestat_event env comm file v)) = CacheStatName"
    by (simp_all add: cachestat_event_def sending del: fold.simps fold_simps)
qed

lemma cachestat_block:
  "cachestatHandler (cachestat_event env comm file v) =
     Some (NewDataBlock CacheStatName
       [''comm'' \<mapsto> stringValue (comm), ''file'' \<mapsto> stringValue (file), ''pid'' \<mapsto> intValue (ucast (ci_pid v)),
        ''cpu'' \<mapsto> intValue (ucast (ci_cpu v)), ''count'' \<mapsto> intValue (ci_cnt v), ''read_size_m'' \<mapsto> intValue (read_size v),
        ''write_size_m'' \<mapsto> intValue (write_size v)]
       (TimeStamp (cachestat_event env comm file v)) [NewIntMetric ''cachestat_read_size'' 0])"
  by (simp add: cachestatHandler_def formatCacheStat_def set_pairs_wf cachestat_event_attributes cachestat_label_def label_loop.simps int_label_def
      str_label_def AddIntValue_def AddStringValue_def NewAttributeMap_def metric_block_def GetUintUserAttribute_def GetUserAttribute_find)

text \<open>The names of an element keep their declared sizes, and that of the process is terminated.\<close>

definition info_sized :: "cachestat_state \<Rightarrow> bool" where
  "info_sized s \<longleftrightarrow> (\<forall>k v. bpf_map_lookup_elem (cachestat_map s) k = Some v \<longrightarrow> length (ci_comm v) = 16 \<and> 0 \<in> set (ci_comm v) \<and> length (ci_file v) = 64)"

lemma comm_terminated: "0 \<in> set (bpf_get_current_comm TASK_COMM_LEN env)"
proof -
  have "bpf_get_current_comm TASK_COMM_LEN env \<noteq> []" by (simp flip: length_0_conv add: bpf_get_current_comm_def TASK_COMM_LEN_def)
  then have "last (bpf_get_current_comm TASK_COMM_LEN env) \<in> set (bpf_get_current_comm TASK_COMM_LEN env)" by (rule last_in_set)
  then show ?thesis using cstr_buf_terminated [of TASK_COMM_LEN "env_comm env"] by (simp add: bpf_get_current_comm_def TASK_COMM_LEN_def)
qed

lemma info_sized_step:
  assumes "info_sized s"
  shows "info_sized (cachestat_step e s)"
proof (cases "count_key s e")
  case None
  then show ?thesis using assms by (simp add: cachestat_skip)
next
  case (Some k)
  have first: "length (ci_comm (first_info e)) = 16" "0 \<in> set (ci_comm (first_info e))" "length (ci_file (first_info e)) = 64"
    using comm_terminated [of "ev_env e"] by (simp_all add: first_info_def file_name_def TASK_COMM_LEN_def CACHE_FILE_SIZE_def)
  show ?thesis
  proof (cases "bpf_map_lookup_elem (cachestat_map s) k")
    case n: None
    then have "cachestat_map (cachestat_step e s) = snd (bpf_map_update_elem (cachestat_map s) k (first_info e) BPF_ANY)"
      using Some by (simp add: cachestat_count)
    then show ?thesis
      using assms first hash.lookup_update_cases [of "cachestat_map s" k "first_info e" BPF_ANY]
      by (simp add: info_sized_def)
  next
    case v: (Some v)
    then have "length (ci_comm v) = 16 \<and> 0 \<in> set (ci_comm v) \<and> length (ci_file v) = 64" using assms by (simp add: info_sized_def)
    moreover have "cachestat_map (cachestat_step e s) = elem_write (cachestat_map s) k (next_info e)"
      using Some v by (simp add: cachestat_count)
    ultimately show ?thesis using assms v by (auto simp: info_sized_def hash.lookup_store next_info_def)
  qed
qed

interpretation info: handler_invariant cachestat_step info_sized
  by unfold_locales (rule info_sized_step)

lemma info_image:
  assumes "length (ci_comm v) = 16" and "length (ci_file v) = 64"
  shows "info_of_bytes (c_struct 0 (cache_info_fields v)) = v"
    and "drop 8 (c_struct 0 (cache_info_fields v)) = ci_comm v @ drop 24 (c_struct 0 (cache_info_fields v))"
    and "drop 24 (c_struct 0 (cache_info_fields v)) = ci_file v @ le_bytes 8 (read_size v) @ le_bytes 8 (write_size v) @ le_bytes 8 (ci_cnt v)"
proof -
  have "map (\<lambda>(a, bs). (a, length bs)) (cache_info_fields v) = [(4, 4), (4, 4), (1, 16), (1, 64), (8, 8), (8, 8), (8, 8)]"
    using assms by (simp add: cache_info_fields_def field_defs)
  then have read: "c_read 0 [(4, 4), (4, 4), (1, 16), (1, 64), (8, 8), (8, 8), (8, 8)] (c_struct 0 (cache_info_fields v)) = map snd (cache_info_fields v)"
    using c_read_struct [of 0 "cache_info_fields v" "[]"] by (simp only: append_Nil2)
  show "info_of_bytes (c_struct 0 (cache_info_fields v)) = v"
    unfolding info_of_bytes_def read by (simp add: cache_info_fields_def field_defs of_le_bytes_le_bytes)
  have bytes: "c_struct 0 (cache_info_fields v) = le_bytes 4 (ci_pid v) @ le_bytes 4 (ci_cpu v) @ ci_comm v @ ci_file v @
      le_bytes 8 (read_size v) @ le_bytes 8 (write_size v) @ le_bytes 8 (ci_cnt v)"
    using assms by (simp add: cache_info_fields_def layout_simps)
  show "drop 8 (c_struct 0 (cache_info_fields v)) = ci_comm v @ drop 24 (c_struct 0 (cache_info_fields v))"
    and "drop 24 (c_struct 0 (cache_info_fields v)) = ci_file v @ le_bytes 8 (read_size v) @ le_bytes 8 (write_size v) @ le_bytes 8 (ci_cnt v)"
    using assms by (simp_all add: bytes)
qed

lemma GoString_terminated: "0 \<in> set bs \<Longrightarrow> GoString (bs @ rest) = GoString bs"
  by (auto simp: GoString_def takeWhile_append1)

text \<open>A round, as a batch and by the iterator, and one of its events.\<close>

lemma cachestat_round:
  assumes "ks = map (\<lambda>(k, v). c_struct 0 (cache_key_fields k)) kvs" and "vs = map (\<lambda>(k, v). c_struct 0 (cache_info_fields v)) kvs"
    and "kvs \<noteq> [] \<and> got = getCacheStatMapValues vs (concat ks @ rest) it get \<or>
      list_all2 (\<lambda>k v. get k = Some v) ks vs \<and> got = getCacheStatMapValues [] allKeys ks get"
  shows "\<exists>keys batch. got = Some (Inr (keys, vs, batch))"
  using assms(3)
proof (elim disjE conjE)
  assume "kvs \<noteq> []" and got: "got = getCacheStatMapValues vs (concat ks @ rest) it get"
  then have "0 < length vs" "length vs = length ks" by (simp_all add: assms(1,2))
  moreover have "list_all (\<lambda>k. length k = 16) ks"
    by (simp add: assms(1) list_all_iff split_beta cache_key_fields_def layout_simps)
  ultimately show ?thesis using collectBatchValues_concat [of 16 ks rest]
    by (intro exI [of _ ks] exI [of _ True]) (simp add: got getCacheStatMapValues_def)
next
  assume all: "list_all2 (\<lambda>k v. get k = Some v) ks vs" and got: "got = getCacheStatMapValues [] allKeys ks get"
  from all have "read_each get ks = Some (ks, vs)"
    by (induction ks vs rule: list_all2_induct) auto
  then show ?thesis
    by (intro exI [of _ ks] exI [of _ False]) (simp add: got getCacheStatMapValues_def)
qed

lemma cachestat_given:
  assumes "length (ci_comm v) = 16" and "0 \<in> set (ci_comm v)" and "length (ci_file v) = 64"
    and "bs = c_struct 0 (cache_info_fields v)"
  shows "\<exists>b. mem_ProcessEvent consumers (cachestat_event env (comm_of_bytes bs) (file_of_bytes bs) (info_of_bytes bs)) = Some (send_all consumers b) \<and>
    GetAttrIntValue ''read_size_m'' (Labels b) = read_size v \<and> GetAttrIntValue ''write_size_m'' (Labels b) = write_size v \<and>
    GetAttrIntValue ''count'' (Labels b) = ci_cnt v \<and> GetAttrIntValue ''pid'' (Labels b) = ucast (ci_pid v) \<and>
    GetAttrIntValue ''cpu'' (Labels b) = ucast (ci_cpu v) \<and> GetStringValue ''comm'' (Labels b) = GoString (ci_comm v) \<and>
    GetStringValue ''file'' (Labels b) = (if 0 \<in> set (ci_file v) then GoString (ci_file v)
      else ci_file v @ GoString (le_bytes 8 (read_size v) @ le_bytes 8 (write_size v) @ le_bytes 8 (ci_cnt v))) \<and>
    Metrics b = [NewIntMetric ''cachestat_read_size'' 0]"
proof -
  note image = info_image [OF assms(1,3)]
  have names: "comm_of_bytes bs = GoString (ci_comm v)" "file_of_bytes bs = (if 0 \<in> set (ci_file v) then GoString (ci_file v)
      else ci_file v @ GoString (le_bytes 8 (read_size v) @ le_bytes 8 (write_size v) @ le_bytes 8 (ci_cnt v)))"
    using assms(2) GoString_terminated
    by (auto simp: comm_of_bytes_def file_of_bytes_def assms(4) image(2,3)) (auto simp: GoString_def intro!: takeWhile_append2)
  have proc: "mem_ProcessEvent consumers (cachestat_event env c f v) = Some (send_all consumers b)"
    if "cachestatHandler (cachestat_event env c f v) = Some b" for b c f
    using that by (simp add: mem_ProcessEvent_def cachestat_event_attributes send_block_def)
  have "info_of_bytes bs = v" by (simp add: assms(4) image(1))
  then show ?thesis
    unfolding names
    by (intro exI conjI) (simp only:, rule proc [OF cachestat_block], simp_all add: NewDataBlock_def GetAttrIntValue_def GetStringValue_def)
qed

section \<open>Events of the sessions\<close>

text \<open>The events that the five sessions hand out, from any bytes that the kernel may give them.\<close>

definition session_event :: "SpyEvent \<Rightarrow> bool" where
  "session_event e \<longleftrightarrow> (\<exists>env rings data. e \<in> set (offcpu_HandleEvent env rings data)) \<or>
     (\<exists>env data. e = futexsnoop_HandleEvent env data) \<or> (\<exists>env arch data. e = syscall_HandleEvent env arch data) \<or>
     (\<exists>env rate n got m ok evs m' stacks. Reset env rate n got m = Some (ok, evs, m', stacks) \<and> e \<in> set evs) \<or>
     (\<exists>env got ok evs. cachestat_Reset env got = (ok, evs) \<and> e \<in> set evs)"

lemma typed_sessions:
  "typed_event (offcpu_event env ev)" "typed_event (dump_event env cpu x)" "typed_event (futex_event_of env msg)"
  "typed_event (syscall_HandleEvent env arch data)" "typed_event (cachestat_event env comm file v)"
proof -
  show "typed_event (offcpu_event env ev)" by (simp add: typed_event_def offcpu_event_attributes)
  show "typed_event (dump_event env cpu x)" by (cases x) (simp add: typed_event_def dump_event_attributes)
  show "typed_event (futex_event_of env msg)"
  proof (cases msg)
    case None
    then show ?thesis by (simp add: futex_event_of_def typed_event_def)
  next
    case (Some m)
    then show ?thesis by (cases m) (simp_all add: typed_event_def futex_lock_attributes futex_task_attributes)
  qed
  show "typed_event (syscall_HandleEvent env arch data)"
    by (simp add: syscall_HandleEvent_def Let_def sending typed_event_def del: fold.simps fold_simps)
  show "typed_event (cachestat_event env comm file v)" by (simp add: typed_event_def cachestat_event_attributes)
qed

lemma Reset_events:
  assumes "Reset env rate n got m = Some (ok, evs, m', stacks)" and "e \<in> set evs"
  shows "\<exists>ck v. e = oncpu_event env rate ck v"
proof -
  have "evs = [] \<or> (\<exists>xs. evs = map2 (\<lambda>ck v. oncpu_event env rate ck (of_le_bytes (take 4 v))) (fst xs) (snd xs))"
    using assms(1) by (force simp: Reset_def Let_def split: sum.splits prod.splits if_splits bool.splits)
  with assms(2) show ?thesis by (auto split: prod.splits) blast
qed

lemma session_event_typed: "session_event e \<Longrightarrow> typed_event e"
  unfolding session_event_def
  by (elim disjE exE conjE)
    (auto simp: offcpu_HandleEvent_def futexsnoop_HandleEvent_def Let_def cachestat_Reset_def typed_sessions oncpu_event_sample
      split: if_splits sum.splits dest!: Reset_events)

lemma mem_total: "typed_event e \<Longrightarrow> mem_ProcessEvent consumers e \<noteq> None"
proof -
  assume typed: "typed_event e"
  have "\<exists>l. label_loop cachestat_label (attributes e) NewAttributeMap = Some l"
    using typed by (intro label_loop_total) (auto simp: typed_event_def list_all_iff cachestat_label_def int_label_def str_label_def)
  then obtain l where "label_loop cachestat_label (attributes e) NewAttributeMap = Some l" by blast
  moreover obtain b where "metric_block CacheStatName ''cachestat_read_size'' ''write_size'' e l = Some b"
    using block_total [OF typed] by blast
  ultimately show ?thesis
    using typed by (simp add: mem_ProcessEvent_def cachestatHandler_def formatCacheStat_def typed_event_def set_pairs_wf)
qed

section \<open>Properties\<close>

text \<open>An event goes to all the detectors that own its kind, in the order of the manager, unless one of them fails.\<close>

lemma sendToConsumers_owners:
  assumes "NewDetectorManager ds = Some m" and "list_all (\<lambda>d. distinct (OwnedEvents d)) ds" and "list_all (\<lambda>d. consume d e = None) ds"
  shows "sendToConsumers consume m e = (filter (\<lambda>d. ClassEvent (Class e) \<in> set (OwnedEvents d)) ds, None)"
proof -
  let ?own = "filter (\<lambda>d. ClassEvent (Class e) \<in> set (OwnedEvents d)) ds"
  have "list_all (\<lambda>d. consume d e = None) ?own" using assms(3) by (auto simp: list_all_iff)
  then show ?thesis
    using GetDetectors_owners [OF assms(1,2)] by (simp add: sendToConsumers_def Let_def consume_all_reaches)
qed

text \<open>C22. Every element that cachestat has counted in a run reaches the consumers: a round over any elements of the map, as one
  batch or by the iterator, gives one event per element in their order, and the detector makes of each a block
  with the sizes, the number of calls, process, processor and names of its element. A file name of 64 bytes or more has no
  zero byte, and its label runs on into the read size. The metric of the block is always zero: the detector looks up an attribute
  that the session does not set.\<close>

theorem cachestat_labels_faithful:
  assumes "s = run cachestat_step es (cachestat_init uargs)"
    and "list_all (\<lambda>(k, v). bpf_map_lookup_elem (cachestat_map s) k = Some v) kvs"
    and "ks = map (\<lambda>(k, v). c_struct 0 (cache_key_fields k)) kvs" and "vs = map (\<lambda>(k, v). c_struct 0 (cache_info_fields v)) kvs"
    and "kvs \<noteq> [] \<and> got = getCacheStatMapValues vs (concat ks @ rest) it get \<or>
      list_all2 (\<lambda>k v. get k = Some v) ks vs \<and> got = getCacheStatMapValues [] allKeys ks get"
  shows "\<exists>g evs. got = Some g \<and> cachestat_Reset env g = (True, evs) \<and> list_all2 (\<lambda>(k, v) e. \<exists>b.
    mem_ProcessEvent consumers e = Some (send_all consumers b) \<and>
    GetAttrIntValue ''read_size_m'' (Labels b) = read_size v \<and> GetAttrIntValue ''write_size_m'' (Labels b) = write_size v \<and>
    GetAttrIntValue ''count'' (Labels b) = ci_cnt v \<and> GetAttrIntValue ''pid'' (Labels b) = ucast (ci_pid v) \<and>
    GetAttrIntValue ''cpu'' (Labels b) = ucast (ci_cpu v) \<and> GetStringValue ''comm'' (Labels b) = GoString (ci_comm v) \<and>
    GetStringValue ''file'' (Labels b) = (if 0 \<in> set (ci_file v) then GoString (ci_file v)
      else ci_file v @ GoString (le_bytes 8 (read_size v) @ le_bytes 8 (write_size v) @ le_bytes 8 (ci_cnt v))) \<and>
    Metrics b = [NewIntMetric ''cachestat_read_size'' 0]) kvs evs"
    (is "\<exists>g evs. _ \<and> _ \<and> list_all2 ?given kvs evs")
proof -
  obtain keys batch where got: "got = Some (Inr (keys, vs, batch))"
    using cachestat_round [OF assms(3,4,5)] by blast
  have "info_sized s" unfolding assms(1) by (rule info.run_inv) (simp add: info_sized_def cachestat_init_def)
  then have sized: "list_all (\<lambda>(k, v). length (ci_comm v) = 16 \<and> 0 \<in> set (ci_comm v) \<and> length (ci_file v) = 64) kvs"
    using assms(2) by (auto simp: list_all_iff info_sized_def)
  then have "list_all2 (\<lambda>(k, v) bs. length (ci_comm v) = 16 \<and> 0 \<in> set (ci_comm v) \<and> length (ci_file v) = 64 \<and>
      bs = c_struct 0 (cache_info_fields v)) kvs vs"
    by (auto simp: assms(4) list_all2_conv_all_nth list_all_length split_beta)
  then have given: "list_all2 ?given kvs (map (\<lambda>v. cachestat_event env (comm_of_bytes v) (file_of_bytes v) (info_of_bytes v)) vs)"
    unfolding list_all2_map2 by (rule list_all2_mono) (simp only: split_beta, elim conjE, rule cachestat_given, (assumption | rule refl)+)
  have round: "cachestat_Reset env (Inr (keys, vs, batch)) =
      (True, map (\<lambda>v. cachestat_event env (comm_of_bytes v) (file_of_bytes v) (info_of_bytes v)) vs)"
    by (simp add: cachestat_Reset_def)
  show ?thesis by (intro exI conjI, rule got, rule round, rule given)
qed

definition sample_session :: session_env where
  "sample_session = \<lparr>Now = 5, HasSymSession = False, mapStacks = (\<lambda>_. None), WalkStack = (\<lambda>_ _ _. [])\<rparr>"

text \<open>Two files of process 7, read as a batch.\<close>

theorem cachestat_labels_faithful_witness:
  "\<exists>v1 v2 g e1 e2 b1 b2.
     getCacheStatMapValues [c_struct 0 (cache_info_fields v1), c_struct 0 (cache_info_fields v2)]
       (c_struct 0 (cache_key_fields \<lparr>ck_pid = 7, ck_file = 4096\<rparr>) @ c_struct 0 (cache_key_fields \<lparr>ck_pid = 7, ck_file = 8192\<rparr>)) [] (\<lambda>_. None) = Some g \<and>
     cachestat_Reset sample_session g = (True, [e1, e2]) \<and>
     mem_ProcessEvent [] e1 = Some (send_all [] b1) \<and> GetAttrIntValue ''write_size_m'' (Labels b1) = 100 \<and>
     mem_ProcessEvent [] e2 = Some (send_all [] b2) \<and> GetAttrIntValue ''read_size_m'' (Labels b2) = 30"
proof -
  let ?k1 = "\<lparr>ck_pid = 7, ck_file = 4096\<rparr> :: cache_key" and ?k2 = "\<lparr>ck_pid = 7, ck_file = 8192\<rparr> :: cache_key"
  let ?e1 = "Vfs_write (vfs_env 0) (vfs_req 100)" and ?e2 = "Vfs_read (vfs_env 1) ((vfs_req 30)\<lparr>dn_name := 8192\<rparr>)"
  let ?init = "cachestat_init vfs_args"
  let ?mid = "cachestat_step ?e1 ?init"
  let ?s = "run cachestat_step [?e1, ?e2] ?init"
  let ?kvs = "[(?k1, first_info ?e1), (?k2, first_info ?e2)]"
  have "count_key ?init ?e1 = Some ?k1" "count_key ?init ?e2 = Some ?k2"
    by (simp_all add: count_key_def cachestat_init_def ev_key_def counted_def vfs_args_def vfs_env_def vfs_req_def)
  then have key: "count_key ?init ?e1 = Some ?k1" "count_key ?mid ?e2 = Some ?k2"
    using cache.sel_const [of ?e1 ?init] by metis+
  have v1: "bpf_map_lookup_elem (cachestat_map ?mid) = [?k1 \<mapsto> first_info ?e1]" "0 < hash_free (cachestat_map ?mid)"
    using cache.miss [OF key(1)] by (simp_all add: cachestat_init_def CACHESTAT_MAP_SIZE_def fun_eq_iff)
  then have "bpf_map_lookup_elem (cachestat_map ?s) = [?k1 \<mapsto> first_info ?e1, ?k2 \<mapsto> first_info ?e2]"
    using cache.miss [OF key(2)] by simp
  then have "list_all (\<lambda>(k, v). bpf_map_lookup_elem (cachestat_map ?s) k = Some v) ?kvs" by simp
  moreover have "write_size (first_info ?e1) = 100" "read_size (first_info ?e2) = 30"
    by (simp_all add: first_info_def amount_small vfs_req_def)
  ultimately show ?thesis
    using cachestat_labels_faithful [OF refl _ refl refl disjI1, of "[?e1, ?e2]" vfs_args ?kvs
        "getCacheStatMapValues (map (\<lambda>(k, v). c_struct 0 (cache_info_fields v)) ?kvs) (concat (map (\<lambda>(k, v). c_struct 0 (cache_key_fields k)) ?kvs) @ []) [] (\<lambda>_. None)"
        "[]" "[]" "\<lambda>_. None" sample_session "[]"]
    by (simp add: list_all2_Cons1) metis
qed

text \<open>C14. Whatever bytes the kernel gives to the sessions, no event they hand out makes a detector panic: an event has no more
  attributes than its array holds, and each of them has the bytes that its declared type needs. However such events and ticks follow, the CPU
  detector handles them all, and so does the memory detector with each.\<close>

theorem session_events_never_panic:
  assumes "Init (Some server) remote_err NewCpuDetector = (err, c0)"
    and "\<forall>ev \<in> set evs. case ev of Event e \<Rightarrow> session_event e | Tick t \<Rightarrow> True"
  shows "(\<forall>e. Event e \<in> set evs \<longrightarrow> unat (ParamsCnt e) \<le> length (UserAttributes e) \<and>
      (\<forall>kv \<in> set (attributes e). GetUintValue kv \<noteq> None) \<and> mem_ProcessEvent consumers e \<noteq> None) \<and>
    det_run fmt consumers suffixed evs c0 \<noteq> None"
proof -
  have "typed_ev ev" if "ev \<in> set evs" for ev
    using bspec [OF assms(2) that] session_event_typed by (cases ev) simp_all
  then have typed: "list_all typed_ev evs" by (simp add: list_all_iff)
  have each: "unat (ParamsCnt e) \<le> length (UserAttributes e) \<and> (\<forall>kv \<in> set (attributes e). GetUintValue kv \<noteq> None) \<and>
      mem_ProcessEvent consumers e \<noteq> None" if "Event e \<in> set evs" for e
  proof -
    have "typed_ev (Event e)" using typed that unfolding list_all_iff by blast
    then have t: "typed_event e" by simp
    then have "unat (ParamsCnt e) \<le> length (UserAttributes e)" "\<forall>kv \<in> set (attributes e). GetUintValue kv \<noteq> None"
      by (simp_all add: typed_event_def wf_event_def list_all_iff)
    with mem_total [OF t, of consumers] show ?thesis by blast
  qed
  from det_run_inv [OF Init_inv [OF assms(1)] typed, of fmt consumers suffixed]
  have "det_run fmt consumers suffixed evs c0 \<noteq> None" by (elim exE conjE) simp
  with each show ?thesis by (intro conjI allI impI) simp_all
qed

theorem session_events_never_panic_witness:
  "det_run (\<lambda>_. []) [] ''aa.cpu'' [Event (futexsnoop_HandleEvent sample_session [1, 2, 3]), Tick 10,
     Event (syscall_HandleEvent sample_session Amd64 [])] (snd (Init (Some DefaultServer) None NewCpuDetector)) \<noteq> None"
proof -
  let ?evs = "[Event (futexsnoop_HandleEvent sample_session [1, 2, 3]), Tick 10, Event (syscall_HandleEvent sample_session Amd64 [])]"
  have "session_event (futexsnoop_HandleEvent sample_session [1, 2, 3])" "session_event (syscall_HandleEvent sample_session Amd64 [])"
    unfolding session_event_def by blast+
  then have "\<forall>ev \<in> set ?evs. case ev of Event e \<Rightarrow> session_event e | Tick t \<Rightarrow> True" by simp
  then show ?thesis
    using session_events_never_panic [of DefaultServer None "fst (Init (Some DefaultServer) None NewCpuDetector)"
        "snd (Init (Some DefaultServer) None NewCpuDetector)" ?evs "[]" "\<lambda>_. []" "''aa.cpu''"] by simp
qed

end
