(* ===== verification/Spec2Isabelle.thy ===== *)
theory Spec2Isabelle
  imports Futexsnoop Offcpu Oncpu Syscall_Trace Cachestat Syscall_Table Kprobe_Uprobe Wire
    Bits Bpf_Endian Core_Read_Into Usdt Bpf_Tracing Skel
    Bpf_Helpers Futex_History Futex_Race Offcpu_History Offcpu_Race Oncpu_Race Syscall_Race Cachestat_Race Workloads Wire_Offcpu Btf Skel_Data
    Profile_Trie Trie_Wire Spy_Event Go_Events Cpu_Detector Cpu_Pipeline Oncpu_Session Mem_Pipeline
begin

text \<open>
  Verification of spycat: its kernel programs, the headers they are built on, and the way of their records
  through the Go process.

  \<^bold>\<open>The program.\<close> spycat loads small BPF programs into the kernel. Each runs at a hook (a tracepoint,
  a kprobe or a timer), keeps its state in BPF maps, and hands records to a Go process through a
  perf buffer or through a map the process reads. The Go process writes the user's filter into the
  map \<open>args_map\<close> before it attaches the programs. The programs are under \<open>src/pkg/ebpf\<close>: \<open>futexsnoop\<close>
  (waits on user-space locks), \<open>offcpu\<close> (time off the processor, its waker and what ran meanwhile),
  \<open>oncpu\<close> (sampled stacks), \<open>syscall\<close> (slow system calls), \<open>cachestat\<close> (reads and writes per file), and
  the two demonstrations \<open>kprobe\<close> and \<open>uretprobe\<close>. They are built on the libbpf headers under
  \<open>src/pkg/ebpf/headers\<close>. In the Go process (\<open>src/pkg\<close>) a session per program decodes the records into events, the
  receiver passes an event to the detectors that own its kind, a detector labels it and hands a data block to the
  processor, which passes it to the exporters; sampled stacks are added up in tries that a ticker uploads.

  \<^bold>\<open>How it is modelled.\<close> A program's maps are a record. A handler is a function from what the kernel
  answers at that moment (\<open>bpf_env\<close>: clock, task, processor, stack identifiers) and the hook's
  arguments to a new record; the records sent so far are a list field of it. A run is a list of
  events folded over the handlers (\<open>run\<close> in \<^emph>\<open>Prelude\<close>), so every interleaving of whole handler
  executions is a run. C integers are words of their width, and signed ones are read with \<open>sint\<close>
  where the code compares or divides them.

  \<^bold>\<open>Foundations.\<close>
  \<^item> \<^emph>\<open>Prelude\<close>: words, buffers, byte order, and the locales \<open>handler_invariant\<close> and
    \<open>counted_invariant\<close>, which turn a fact about one step into one about all runs. The second
    counts steps, for invariants that hold until a counter would wrap.
  \<^item> \<^emph>\<open>Bpf_Map\<close>: hash and array maps with the flags, error numbers and capacity of the helpers
    (\<open>bpf_helper_defs.h\<close>). The contract the programs rely on is the locale \<open>kv_store\<close> and its
    extension \<open>kv_store_del\<close>, interpreted on both kinds of map; the locale \<open>accounting\<close> describes a
    program that folds events into one map element per key, up to the capacity.
  \<^item> \<^emph>\<open>Bpf_Env\<close>: the helpers that read the current task, clock and processor.
  \<^item> \<^emph>\<open>Interleave\<close>: handlers on several threads, one access at a time. The locale \<open>stepped\<close> shows that an
    uninterrupted handler makes its accesses in a row; it is interpreted on all five programs.
    \<open>racy_counter\<close> extends it by counters that are loaded and stored (oncpu, cachestat): no schedule counts
    twice. \<open>linearized\<close> describes operations that take effect at one of their accesses (syscall):
    an interleaved run is a run of whole operations.

  \<^bold>\<open>Programs.\<close>
  \<^item> \<^emph>\<open>Futexsnoop\<close> (\<open>futexsnoop.bpf.c\<close>, \<open>futexsnoop.h\<close>) with \<^emph>\<open>Bits\<close> (\<open>bits.bpf.h\<close>): \<open>futex_enter\<close> and
    \<open>futex_exit\<close>. User counts cover the waiting threads and never wrap, histogram slots add up to the
    number of waits, a wait is recorded in the slot of its logarithm,
    and the recorded maximum stays zero in the builds the Makefile makes. The counting
    invariants hold for runs shorter than \<open>2 ^ 32\<close> events, the range of the counters. \<^emph>\<open>Futex_History\<close>: every
    record goes back to the calls of the run it reports, inside the limits as the code reads them.
  \<^item> \<^emph>\<open>Futex_Race\<close>: the same handlers one access at a time, under any schedule of the threads.
    Uninterrupted they are the handlers above, the count of a lock tracked before still covers its users,
    and two first waiters at once make it wrap. The recorded maximum can stay below the count.
  \<^item> \<^emph>\<open>Offcpu\<close> (\<open>offcpu.bpf.c\<close>, \<open>offcpu.h\<close>): \<open>try_to_wake_up_hook\<close> and \<open>sched_switch_hook\<close>. A sleep is
    reported with its exact length and waker whatever happens in between,
    and the per-CPU ring (locale \<open>ring_log\<close>) refines the list of all switches. The dump flag
    is never cleared. \<^emph>\<open>Offcpu_History\<close>: every report goes back to the last departure and the last wake-up of
    its task. \<^emph>\<open>Offcpu_Race\<close>: the hooks on several processors at once, field by field. A report still holds only
    what hooks of its task stored, but two wakers can mix, and the first sleep of a task can lose its start or its waker.
  \<^item> \<^emph>\<open>Oncpu\<close> (\<open>oncpu.bpf.c\<close>) and \<^emph>\<open>Cachestat\<close> (\<open>cachestat.bpf.c\<close>): both interpret \<open>accounting\<close>. Counters
    are exact while the keys fit the map; a size of 2 GiB or more shrinks a total. \<^emph>\<open>Cachestat_Race\<close>: the
    hooks of cachestat under any schedule. They never count a call twice, but two at once lose one.
    \<^emph>\<open>Oncpu_Race\<close>: the same for samples.
  \<^item> \<^emph>\<open>Syscall_Trace\<close> (\<open>syscall.bpf.c\<close>): a call is reported once and exactly, every report is
    justified, and a full start map never recovers. \<^emph>\<open>Syscall_Race\<close>: interleaved hooks
    are linearizable, so these facts hold for them too. \<^emph>\<open>Syscall_Table\<close> (\<open>syscall_table.h\<close> and the two
    lookups of \<open>syscall.go\<close>): the tables and their round trips.
  \<^item> \<^emph>\<open>Kprobe_Uprobe\<close> (\<open>kprobe.c\<close>, \<open>uretprobe.c\<close>).
  \<^item> \<^emph>\<open>Wire\<close>: the bytes between the kernel and Go, both ways. Which records decode exactly, and the two
    places where the declarations of the sides differ; the arguments of syscall on their way to the kernel. \<^emph>\<open>Wire_Offcpu\<close>: every
    array of offcpu keeps its size, so its records and the saved rings decode in every run (\<open>schedCacheDump\<close> of \<open>offcpu.go\<close>).
  \<^item> \<^emph>\<open>Workloads\<close>: the test programs as step relations. \<open>lock.c\<close> ends under every schedule,
    \<open>thread_wake.c\<close> can miss its wake-up and hang, \<open>sched_delay.c\<close> waits exactly when all threads start.

  \<^bold>\<open>The Go process.\<close> A panic is \<open>None\<close>, an error that is returned is a value of a sum.
  \<^item> \<^emph>\<open>Spy_Event\<close> (\<open>spyevent.go\<close>, \<open>attribute_map.go\<close>): the event and the labels. What is set is read back, for the
    first 20 attributes (locale \<open>bounded_sequence\<close>).
  \<^item> \<^emph>\<open>Go_Events\<close> (\<open>offcpu.go\<close>, \<open>futexsnoop.go\<close>, \<open>syscall.go\<close>): \<open>HandleEvent\<close> of the three sessions with a perf
    buffer. \<^emph>\<open>Oncpu_Session\<close> (\<open>oncpu.go\<close>): the rounds that read and empty the counters while samples go on. Exactly
    the samples between a reading and its deletion are lost; the reading one by one, with its deletion after the round, loses these.
  \<^item> \<^emph>\<open>Profile_Trie\<close> (\<open>trie.go\<close>): the trie in which samples are added up refines a map from stacks to totals, and
    its iteration reports each once. \<^emph>\<open>Trie_Wire\<close> (\<open>trie.go\<close>, \<open>varint.go\<close>): both readers give back what was serialized.
  \<^item> \<^emph>\<open>Cpu_Detector\<close> (\<open>cpudetector.go\<close>): the handlers of the kinds of events, the tries per application and their upload.
    In the detector as it is constructed no profile is ever uploaded.
  \<^item> \<^emph>\<open>Cpu_Pipeline\<close>: every record of every run of offcpu, futexsnoop and syscall reaches the consumers as one block, and
    its labels are the fields of the record; of syscall the name of the thread arrives shifted. \<^emph>\<open>Mem_Pipeline\<close>
    (\<open>cachestat.go\<close>, \<open>manager.go\<close>, \<open>receiver.go\<close>, \<open>memdetector.go\<close>, \<open>processor.go\<close>): the same for cachestat and its rounds, and no event of any session makes a detector panic.

  \<^bold>\<open>Headers.\<close> \<^emph>\<open>Bpf_Endian\<close> (\<open>bpf_endian.h\<close>), \<^emph>\<open>Core_Read\<close> (\<open>bpf_core_read.h\<close>: pointer chains and
  bitfields over a memory whose loads may fault) with \<^emph>\<open>Core_Read_Into\<close> (the same header: reads into storage, of
  strings and of user memory, and when they report a fault; the queries), \<^emph>\<open>Usdt\<close> (\<open>usdt.bpf.h\<close>), \<^emph>\<open>Bpf_Tracing\<close> (both versions
  of \<open>bpf_tracing.h\<close>: register tables and argument macros of every architecture), \<^emph>\<open>Skel\<close>
  (\<open>skel_internal.h\<close>: the loader, its errors and the descriptors it closes), \<^emph>\<open>Skel_Data\<close> (the memory of a
  skeleton, released once in the kernel and in user space), \<^emph>\<open>Bpf_Helpers\<close> (\<open>bpf_helpers.h\<close>: printing and
  loop macros), \<^emph>\<open>Btf\<close> (\<open>btf.h\<close>: kinds and members of type records).

  \<^bold>\<open>Bounds.\<close> No definition uses fuel. The loops of the programs are unrolled or bounded and are
  structural recursions here; the loop macros, whose iterator may never end, are partial functions,
  with a proof that they return for an iterator that ends or leaves the bounds. Map capacities are those of the source.

  \<^bold>\<open>Not modelled.\<close> In the models of handlers at the same time an element of a map stays where a lookup found it,
  while the kernel may move it when another thread stores over it; a name is copied in one step, and between
  rounds of the oncpu session a sample is one step. The kernel behind the helpers, which is an argument. Stack
  traces, of which only the identifiers and, on the Go side, their resolved text are used. Of the Go process: loading,
  attaching and polling, which libbpfgo does; symbol resolution (external libraries); the exporters, which are clients
  of other services; the aggregator, which nothing calls; the command line and the configuration, of which only the options of syscall are. Channels and tickers
  are the order of the steps of a run. The library interfaces that are declarations only (\<open>libbpf.h\<close>, \<open>bpf.h\<close>) and the
  generated dumps of kernel types (\<open>vmlinux.h\<close>), of which the fields in use are fields of the records here.

  This theory holds the property that spans the configuration, the name tables, the argument map and the system call program.
\<close>

section \<open>Filtering by the name of a system call\<close>

text \<open>What the tool is asked for (\<open>config.SYSCALL\<close>), and the arguments that \<open>NewSyscallSession\<close> makes of it.\<close>

record SyscallConfig =
  cfg_Pid :: int
  cfg_Tid :: int
  cfg_MinDurMs :: u64
  cfg_MaxDurMs :: u64
  cfg_Stack :: bool
  cfg_Syscall :: string

definition NewSyscallSession :: "goarch \<Rightarrow> SyscallConfig \<Rightarrow> SyscallArgs" where
  "NewSyscallSession arch cfg = \<lparr>sa_Pid = word_of_int (cfg_Pid cfg), sa_Tid = word_of_int (cfg_Tid cfg), sa_MinDurMs = ucast (cfg_MinDurMs cfg),
     sa_MaxDurMs = ucast (cfg_MaxDurMs cfg), sa_Stack = cfg_Stack cfg, sa_SyscallId = SyscallNameToId arch (cfg_Syscall cfg)\<rparr>"

text \<open>What the kernel program finds in its argument map.\<close>

definition kernel_args :: "goarch \<Rightarrow> SyscallConfig \<Rightarrow> Syscall_Trace.user_args" where
  "kernel_args arch cfg = read_syscall_args (c_struct 0 (SyscallArgs_fields (syscall_initArgsMap (NewSyscallSession arch cfg))))"

lemma kernel_args_id: "ua_syscall_id (kernel_args arch cfg) = SyscallNameToId arch (cfg_Syscall cfg)"
  by (simp add: kernel_args_def read_syscall_args_written NewSyscallSession_def)

lemma SyscallNameToId_found:
  assumes "arch \<noteq> Other_arch" and "SyscallNameToId arch name \<noteq> minus1"
  shows "SyscallIdToName arch (SyscallNameToId arch name) = name"
proof -
  have "table_name tbl (table_id tbl name) = name"
    if "table_id tbl name \<noteq> minus1" and "length tbl < 2 ^ 32" for tbl
  proof -
    have "name \<in> set tbl"
      using that(1) name_index_None [of name tbl 0] by (auto simp: table_id_def split: option.splits)
    with that(2) table_id_found [of name tbl] show ?thesis by (simp add: table_name_def)
  qed
  with assms show ?thesis by (cases arch) (simp_all add: length_tables)
qed

text \<open>The same events with other call numbers.\<close>

fun renumber :: "(s64 \<Rightarrow> s64) \<Rightarrow> syscall_ev \<Rightarrow> syscall_ev" where
  "renumber f (Sys_enter env nr) = Sys_enter env (f nr)"
| "renumber f (Sys_exit env nr) = Sys_exit env (f nr)"

definition unnumbered :: "syscall_event \<Rightarrow> syscall_event" where
  "unnumbered ev = ev\<lparr>se_syscall_id := 0\<rparr>"

lemma renumbered_step:
  assumes "has_args ua s" and "has_args ua s'" and "ua_syscall_id ua = minus1" and f: "\<And>n. f n = - 1 \<longleftrightarrow> n = - 1"
    and "syscall_state.start s' = syscall_state.start s" and "map unnumbered (syscall_state.perf_out s') = map unnumbered (syscall_state.perf_out s)"
  shows "syscall_state.start (syscall_step (renumber f e) s') = syscall_state.start (syscall_step e s) \<and>
    map unnumbered (syscall_state.perf_out (syscall_step (renumber f e) s')) = map unnumbered (syscall_state.perf_out (syscall_step e s))"
proof -
  have pass: "passes ua env n = passes ua env m" for env n m using assms(3) by (simp add: passes_def filtered_out_def)
  have same: "unnumbered (completed ua env n ev) = unnumbered (completed ua env m ev)" for env n m ev
    by (simp add: unnumbered_def completed_def)
  show ?thesis
  proof (cases e)
    case (Sys_enter env nr)
    then show ?thesis
      using assms(5,6) pass [of env "f nr" nr] by (simp add: sys_enter_eq [OF assms(1)] sys_enter_eq [OF assms(2)])
  next
    case (Sys_exit env nr)
    then show ?thesis
      using assms(5,6) pass [of env "f nr" nr] same [of env "f nr" _ nr] f [of nr]
      by (simp add: sys_exit_eq [OF assms(1)] sys_exit_eq [OF assms(2)] split: option.split)
  qed
qed

lemma renumbered_run:
  assumes "ua_syscall_id ua = minus1" and f: "\<And>n. f n = - 1 \<longleftrightarrow> n = - 1"
  shows "has_args ua s \<Longrightarrow> has_args ua s' \<Longrightarrow> syscall_state.start s' = syscall_state.start s \<Longrightarrow>
    map unnumbered (syscall_state.perf_out s') = map unnumbered (syscall_state.perf_out s) \<Longrightarrow>
    syscall_state.start (run syscall_step (map (renumber f) es) s') = syscall_state.start (run syscall_step es s) \<and>
    map unnumbered (syscall_state.perf_out (run syscall_step (map (renumber f) es) s')) = map unnumbered (syscall_state.perf_out (run syscall_step es s))"
proof (induction es arbitrary: s s')
  case (Cons e es)
  note step = renumbered_step [OF Cons.prems(1,2) assms Cons.prems(3,4), of e]
  have "has_args ua (syscall_step e s)" "has_args ua (syscall_step (renumber f e) s')"
    using Cons.prems(1,2) by (simp_all del: syscall_step.simps)
  from Cons.IH [OF this] step show ?case by (simp del: syscall_step.simps)
qed simp

text \<open>C35. The user's choice of a system call by name, from the configuration through the argument map to the hooks: with a name that
  the tables of the architecture know, every event of every run shows that name again. With a name they do not know, no
  call is told from another by either hook: the same run with other call numbers (only -1 stays -1) leaves the
  same start records and sends the same events but for their numbers.\<close>

theorem syscall_name_filter:
  assumes "arch \<noteq> Other_arch" and "ua = kernel_args arch cfg" and "\<And>n. f n = - 1 \<longleftrightarrow> n = - 1"
  shows "if SyscallNameToId arch (cfg_Syscall cfg) \<noteq> minus1
    then \<forall>ev \<in> set (syscall_state.perf_out (run syscall_step es (syscall_init ua))).
      SyscallIdToName arch (ucast (se_syscall_id ev)) = cfg_Syscall cfg
    else syscall_state.start (run syscall_step (map (renumber f) es) (syscall_init ua)) =
        syscall_state.start (run syscall_step es (syscall_init ua)) \<and>
      map unnumbered (syscall_state.perf_out (run syscall_step (map (renumber f) es) (syscall_init ua))) =
        map unnumbered (syscall_state.perf_out (run syscall_step es (syscall_init ua)))"
proof -
  let ?name = "cfg_Syscall cfg"
  have inv: "syscall_inv ua (run syscall_step es (syscall_init ua))" by (rule syscalls.run_inv [OF syscall_inv_init])
  have id: "ua_syscall_id ua = SyscallNameToId arch ?name" using assms(2) by (simp add: kernel_args_id)
  have "SyscallIdToName arch (ucast (se_syscall_id ev)) = ?name"
    if "SyscallNameToId arch ?name \<noteq> minus1" and "ev \<in> set (syscall_state.perf_out (run syscall_step es (syscall_init ua)))" for ev
  proof -
    have "se_syscall_id ev = ucast (SyscallNameToId arch ?name)"
      using inv that id by (auto simp: syscall_inv_def Syscall_Trace.event_ok_def)
    then have "ucast (se_syscall_id ev) = SyscallNameToId arch ?name" by (simp add: ucast_up_down)
    then show ?thesis using SyscallNameToId_found [OF assms(1) that(1)] by simp
  qed
  moreover note renumbered_run [OF _ assms(3) has_args_init has_args_init refl refl, of ua es]
  ultimately show ?thesis using id by (simp del: run_Cons)
qed

text \<open>Asking for read shows the one call as read; asking for raed shows a call whatever its number.\<close>

definition asked :: "string \<Rightarrow> SyscallConfig" where
  "asked name = \<lparr>cfg_Pid = 0, cfg_Tid = 0, cfg_MinDurMs = 1, cfg_MaxDurMs = 1000, cfg_Stack = False, cfg_Syscall = name\<rparr>"

lemma sample_ids: "SyscallNameToId Amd64 ''raed'' = minus1" "SyscallNameToId Amd64 ''read'' = 0"
  by (simp_all add: table_id_def x86_defs)

lemma sample_read: "length (syscall_state.perf_out (run syscall_step call_run (syscall_init (kernel_args Amd64 (asked ''read''))))) = 1"
  using sample_ids
  by (simp add: kernel_args_def read_syscall_args_written NewSyscallSession_def asked_def call_run_def call_env_def eval_defs
      bpf_get_current_pid_tgid_def del: SyscallNameToId.simps)

theorem syscall_name_filter_witness:
  "(\<exists>ev. syscall_state.perf_out (run syscall_step call_run (syscall_init (kernel_args Amd64 (asked ''read'')))) = [ev] \<and>
     SyscallIdToName Amd64 (ucast (se_syscall_id ev)) = ''read'') \<and>
   map unnumbered (syscall_state.perf_out (run syscall_step (map (renumber (\<lambda>n. if n = 0 then 1 else if n = 1 then 0 else n)) call_run)
       (syscall_init (kernel_args Amd64 (asked ''raed''))))) =
     map unnumbered (syscall_state.perf_out (run syscall_step call_run (syscall_init (kernel_args Amd64 (asked ''raed'')))))"
proof -
  let ?f = "\<lambda>n :: s64. if n = 0 then 1 else if n = 1 then 0 else n"
  have f: "?f n = - 1 \<longleftrightarrow> n = - 1" for n by auto
  have name: "cfg_Syscall (asked n) = n" for n by (simp add: asked_def)
  obtain ev where ev: "syscall_state.perf_out (run syscall_step call_run (syscall_init (kernel_args Amd64 (asked ''read'')))) = [ev]"
    using sample_read by (auto simp: length_Suc_conv)
  have ids: "SyscallNameToId Amd64 (cfg_Syscall (asked ''raed'')) = minus1" "SyscallNameToId Amd64 (cfg_Syscall (asked ''read'')) \<noteq> minus1"
    unfolding name sample_ids by simp_all
  note filter = syscall_name_filter [where f = ?f and arch = Amd64 and es = call_run, OF _ refl f]
  have "SyscallIdToName Amd64 (ucast (se_syscall_id ev)) = ''read''"
    using filter [of "asked ''read''"] ids(2) ev name by (simp only: if_True if_False simp_thms) simp
  moreover have "map unnumbered (syscall_state.perf_out (run syscall_step (map (renumber ?f) call_run) (syscall_init (kernel_args Amd64 (asked ''raed''))))) =
     map unnumbered (syscall_state.perf_out (run syscall_step call_run (syscall_init (kernel_args Amd64 (asked ''raed'')))))"
    using filter [of "asked ''raed''"] ids(1) by (metis goarch.distinct(5))
  ultimately show ?thesis using ev by blast
qed

end
